(* ===== verification/Prelude.thy ===== *)
theory Prelude
  imports Main "HOL-Library.State_Monad" "HOL-Library.Word" "HOL-Library.AList"
    "HOL-Library.Sublist"
begin

section \<open>Prelude: the program monad, its Hoare triples and shared lemmas\<close>

text \<open>
  Every C function that touches the outside world or a static variable is an action of
  the library's state monad; a C function that only computes is a HOL function. This
  theory holds what all components share: the primitive actions, Hoare triples
  (\<open>hoare P m Q\<close>) for functional behaviour, the library's \<open>state_io_rel R m\<close> for frame
  conditions and for what an action may do to the state, the locale \<open>frame_rel\<close> of the
  relations that compose along a program, and generic lemmas on lists and words.
\<close>

named_theorems run_defs \<open>definitions of the primitive actions, unfolded to run a program\<close>

type_synonym byte = char
type_synonym u32 = "32 word"
type_synonym u16 = "16 word"

subsection \<open>Primitive actions\<close>

abbreviation ret :: "'a \<Rightarrow> ('s, 'a) state" where
  "ret \<equiv> State_Monad.return"

definition gets :: "('s \<Rightarrow> 'a) \<Rightarrow> ('s, 'a) state" where
  "gets f = State (\<lambda>s. (f s, s))"

definition modify :: "('s \<Rightarrow> 's) \<Rightarrow> ('s, unit) state" where
  "modify f = State (\<lambda>s. ((), f s))"

lemma run_gets [simp]: "run_state (gets f) s = (f s, s)"
  by (simp add: gets_def)

lemma run_modify [simp]: "run_state (modify f) s = ((), f s)"
  by (simp add: modify_def)

text \<open>The state an action leaves behind and the value it returns.\<close>

abbreviation exec :: "('s, 'a) state \<Rightarrow> 's \<Rightarrow> 's" where
  "exec m s \<equiv> snd (run_state m s)"

abbreviation eval_in :: "('s, 'a) state \<Rightarrow> 's \<Rightarrow> 'a" where
  "eval_in m s \<equiv> fst (run_state m s)"

lemma run_state_if [simp]:
  "run_state (if b then m else n) s = (if b then run_state m s else run_state n s)"
  by simp

text \<open>Running a sequence: forwards with the first result known, or by elimination.\<close>

lemma run_bind: "run_state m s = (a, t) \<Longrightarrow> run_state (State_Monad.bind m f) s = run_state (f a) t"
  by simp

lemma run_bindE:
  assumes "run_state (State_Monad.bind m f) s = (b, u)"
  obtains a t where "run_state m s = (a, t)" and "run_state (f a) t = (b, u)"
  using assms by (auto split: prod.splits)

subsection \<open>Hoare triples\<close>

definition hoare :: "('s \<Rightarrow> bool) \<Rightarrow> ('s, 'a) state \<Rightarrow> ('a \<Rightarrow> 's \<Rightarrow> bool) \<Rightarrow> bool" where
  "hoare P m Q \<longleftrightarrow> (\<forall>s a s'. P s \<longrightarrow> run_state m s = (a, s') \<longrightarrow> Q a s')"

named_theorems hoare_intros \<open>syntax-directed rules for Hoare triples\<close>

lemma hoareI: "(\<And>s a s'. P s \<Longrightarrow> run_state m s = (a, s') \<Longrightarrow> Q a s') \<Longrightarrow> hoare P m Q"
  by (simp add: hoare_def)

lemma hoareD: "hoare P m Q \<Longrightarrow> P s \<Longrightarrow> run_state m s = (a, s') \<Longrightarrow> Q a s'"
  by (simp add: hoare_def)

lemma hoare_bind [hoare_intros]:
  assumes "hoare P m R" and "\<And>a. hoare (R a) (f a) Q"
  shows "hoare P (State_Monad.bind m f) Q"
  using assms by (fastforce simp: hoare_def split: prod.splits)

lemma hoare_return: "(\<And>s. P s \<Longrightarrow> Q x s) \<Longrightarrow> hoare P (ret x) Q"
  by (simp add: hoare_def)

lemma hoare_modify: "(\<And>s. P s \<Longrightarrow> Q () (f s)) \<Longrightarrow> hoare P (modify f) Q"
  by (simp add: hoare_def)

lemma hoare_gets: "(\<And>s. P s \<Longrightarrow> Q (f s) s) \<Longrightarrow> hoare P (gets f) Q"
  by (simp add: hoare_def)

lemma hoare_if:
  assumes "b \<Longrightarrow> hoare P m Q" and "\<not> b \<Longrightarrow> hoare P n Q"
  shows "hoare P (if b then m else n) Q"
  using assms by simp

lemma hoare_weaken:
  assumes "hoare P' m Q'" and "\<And>s. P s \<Longrightarrow> P' s" and "\<And>a s. Q' a s \<Longrightarrow> Q a s"
  shows "hoare P m Q"
  using assms unfolding hoare_def by blast

lemma hoare_pre: "hoare P' m Q \<Longrightarrow> (\<And>s. P s \<Longrightarrow> P' s) \<Longrightarrow> hoare P m Q"
  by (auto simp: hoare_def)

lemma hoare_post: "hoare P m Q' \<Longrightarrow> (\<And>a s. Q' a s \<Longrightarrow> Q a s) \<Longrightarrow> hoare P m Q"
  by (auto simp: hoare_def)

lemma hoare_conj: "hoare P m Q \<Longrightarrow> hoare P m Q' \<Longrightarrow> hoare P m (\<lambda>a s. Q a s \<and> Q' a s)"
  by (auto simp: hoare_def)

lemma hoare_False: "hoare (\<lambda>_. False) m Q"
  by (simp add: hoare_def)

lemma hoare_assume: "(B \<Longrightarrow> hoare P m Q) \<Longrightarrow> hoare (\<lambda>s. B \<and> P s) m Q"
  by (auto simp: hoare_def)

text \<open>A relation that every run respects may be added to any triple.\<close>

lemma hoare_io_rel:
  assumes "state_io_rel R m"
  shows "hoare (\<lambda>s. s = s0) m (\<lambda>_ s. R s0 s)"
  using assms by (auto simp: hoare_def)

subsection \<open>Relations that compose along a program\<close>

text \<open>
  A frame condition, a monotonicity fact or the preservation of an invariant is a
  reflexive and transitive relation between the state before and after. For every such
  relation the rules below lift it from the primitive actions to whole programs; each
  component interprets the locale for the relations it needs.
\<close>

named_theorems io_intros \<open>rules that build \<open>state_io_rel\<close> facts along the program text\<close>

locale frame_rel =
  fixes R :: "'s \<Rightarrow> 's \<Rightarrow> bool"
  assumes refl: "R s s"
    and trans: "R s t \<Longrightarrow> R t u \<Longrightarrow> R s u"
begin

lemma io_return: "state_io_rel R (ret x)"
  by (auto simp: refl)

lemma io_gets: "state_io_rel R (gets f)"
  by (auto simp: refl)

lemma io_modify: "(\<And>s. R s (f s)) \<Longrightarrow> state_io_rel R (modify f)"
  by (simp add: state_io_rel_def)

lemma io_bind:
  assumes "state_io_rel R m" and "\<And>a. state_io_rel R (f a)"
  shows "state_io_rel R (State_Monad.bind m f)"
proof
  fix a s s'
  assume "run_state (State_Monad.bind m f) s = (a, s')"
  then obtain b t where "run_state m s = (b, t)" and "run_state (f b) t = (a, s')"
    by (auto split: prod.splits)
  with assms have "R s t" and "R t s'"
    by (auto dest: state_io_relD)
  then show "R s s'" by (rule trans)
qed

lemma io_if:
  "(b \<Longrightarrow> state_io_rel R m) \<Longrightarrow> (\<not> b \<Longrightarrow> state_io_rel R n) \<Longrightarrow>
   state_io_rel R (if b then m else n)"
  by simp

lemma io_option:
  "state_io_rel R m \<Longrightarrow> (\<And>x. state_io_rel R (f x)) \<Longrightarrow>
   state_io_rel R (case y of None \<Rightarrow> m | Some x \<Rightarrow> f x)"
  by (cases y) auto

lemma io_prod: "(\<And>x y. state_io_rel R (f x y)) \<Longrightarrow> state_io_rel R (case p of (x, y) \<Rightarrow> f x y)"
  by (cases p) auto

lemma io_let: "(\<And>x. state_io_rel R (f x)) \<Longrightarrow> state_io_rel R (let x = y in f x)"
  by simp

lemmas io_rules = io_return io_gets io_bind io_if io_option io_prod io_let

end

lemma io_rel_mono: "state_io_rel R m \<Longrightarrow> (\<And>s t. R s t \<Longrightarrow> R' s t) \<Longrightarrow> state_io_rel R' m"
  by (auto dest: state_io_relD)

lemma io_rel_State: "state_io_rel R (State f) \<longleftrightarrow> (\<forall>s. R s (snd (f s)))"
  by (simp add: state_io_rel_def)

lemma io_rel_exec: "state_io_rel R m \<Longrightarrow> R s (exec m s)"
  by (simp add: state_io_rel_def)

text \<open>Two relations every component uses: a part of the state is kept, an invariant is kept.\<close>

definition same :: "('s \<Rightarrow> 'x) \<Rightarrow> 's \<Rightarrow> 's \<Rightarrow> bool" where
  "same f s t \<longleftrightarrow> f t = f s"

definition keeps :: "('s \<Rightarrow> bool) \<Rightarrow> 's \<Rightarrow> 's \<Rightarrow> bool" where
  "keeps I s t \<longleftrightarrow> (I s \<longrightarrow> I t)"

interpretation same: frame_rel "same f" for f
  by unfold_locales (auto simp: same_def)

interpretation keeps: frame_rel "keeps I" for I
  by unfold_locales (auto simp: keeps_def)

lemma same_exec: "state_io_rel (same f) m \<Longrightarrow> f (exec m s) = f s"
  by (simp add: state_io_rel_def same_def)

lemma same_run: "state_io_rel (same f) m \<Longrightarrow> run_state m s = (a, s') \<Longrightarrow> f s' = f s"
  by (drule state_io_relD) (auto simp: same_def)

lemma same_weaken:
  assumes "state_io_rel (same f) m" and "\<And>s t. f t = f s \<Longrightarrow> g t = g s"
  shows "state_io_rel (same g) m"
  using assms(1) by (rule io_rel_mono) (unfold same_def, rule assms(2))

lemma keeps_run: "state_io_rel (keeps I) m \<Longrightarrow> run_state m s = (a, s') \<Longrightarrow> I s \<Longrightarrow> I s'"
  by (drule state_io_relD) (auto simp: keeps_def)

lemma keeps_hoare: "state_io_rel (keeps I) m \<longleftrightarrow> hoare I m (\<lambda>_. I)"
  by (auto simp: keeps_def hoare_def dest: state_io_relD)

subsection \<open>Lists\<close>

lemma filter_split_length:
  "length (filter P (ys @ x # zs)) =
   length (filter P (ys @ y # zs)) + (if P x then 1 else 0) - (if P y then 1 else 0)"
  by simp

lemma filter_list_update:
  assumes "i < length xs"
  shows "length (filter P (xs[i := x])) =
    length (filter P xs) + (if P x then 1 else 0) - (if P (xs ! i) then 1 else 0)"
proof -
  have "xs = take i xs @ xs ! i # drop (Suc i) xs"
    using assms by (simp add: id_take_nth_drop)
  moreover have "xs[i := x] = take i xs @ x # drop (Suc i) xs"
    using assms by (simp add: upd_conv_take_nth_drop)
  ultimately show ?thesis
    by (metis (no_types, lifting) filter_split_length)
qed

end
