(* ===== verification/C_Lib.thy ===== *)
theory C_Lib
  imports Prelude
begin

section \<open>The parts of the C library the program computes with\<close>

text \<open>
  Character classes of the \<open>C\<close> locale (the program never calls \<open>setlocale\<close>),
  NUL-terminated strings, bounded copies and prints, decimal output and \<open>strtoull\<close>.
  A C string is the list of its bytes before the terminator, so \<open>strlen\<close> is
  \<open>length\<close>; \<open>cstr\<close> reads a received buffer as a C string. \<open>snprintf\<close> takes the
  text its format produces and returns the pair of its result and of the C string left in
  the buffer.
\<close>

subsection \<open>ctype.h\<close>

definition isdigit :: "byte \<Rightarrow> bool" where
  "isdigit c \<longleftrightarrow> 48 \<le> (of_char c :: nat) \<and> (of_char c :: nat) \<le> 57"

definition isupper :: "byte \<Rightarrow> bool" where
  "isupper c \<longleftrightarrow> 65 \<le> (of_char c :: nat) \<and> (of_char c :: nat) \<le> 90"

definition islower :: "byte \<Rightarrow> bool" where
  "islower c \<longleftrightarrow> 97 \<le> (of_char c :: nat) \<and> (of_char c :: nat) \<le> 122"

definition isalnum :: "byte \<Rightarrow> bool" where
  "isalnum c \<longleftrightarrow> isdigit c \<or> isupper c \<or> islower c"

definition isspace :: "byte \<Rightarrow> bool" where
  "isspace c \<longleftrightarrow> (of_char c :: nat) = 32 \<or> (9 \<le> (of_char c :: nat) \<and> (of_char c :: nat) \<le> 13)"

definition NUL :: byte where
  "NUL = CHR 0x00"

lemmas ctype_defs = isdigit_def isupper_def islower_def isalnum_def isspace_def

lemma isalnum_NUL [simp]: "\<not> isalnum NUL"
  by (simp add: ctype_defs NUL_def)

lemma isdigit_NUL [simp]: "\<not> isdigit NUL"
  by (simp add: ctype_defs NUL_def)

subsection \<open>string.h\<close>

definition cstr :: "byte list \<Rightarrow> string" where
  "cstr bs = takeWhile (\<lambda>c. c \<noteq> NUL) bs"

definition is_cstr :: "string \<Rightarrow> bool" where
  "is_cstr s \<longleftrightarrow> NUL \<notin> set s"

lemma cstr_is_cstr [simp]: "is_cstr (cstr bs)"
  by (auto simp: is_cstr_def cstr_def dest: set_takeWhileD)

lemma cstr_id [simp]: "is_cstr s \<Longrightarrow> cstr s = s"
  by (auto simp: is_cstr_def cstr_def takeWhile_eq_all_conv)

lemma length_cstr_le: "length (cstr bs) \<le> length bs"
  by (simp add: cstr_def length_takeWhile_le)

lemma is_cstr_append [simp]: "is_cstr (s @ t) \<longleftrightarrow> is_cstr s \<and> is_cstr t"
  by (auto simp: is_cstr_def)

lemma is_cstr_Nil [simp]: "is_cstr []"
  by (simp add: is_cstr_def)

lemma is_cstr_Cons [simp]: "is_cstr (c # s) \<longleftrightarrow> c \<noteq> NUL \<and> is_cstr s"
  by (auto simp: is_cstr_def)

lemma is_cstr_take [simp]: "is_cstr s \<Longrightarrow> is_cstr (take n s)"
  by (auto simp: is_cstr_def dest: in_set_takeD)

lemma is_cstr_drop [simp]: "is_cstr s \<Longrightarrow> is_cstr (drop n s)"
  by (auto simp: is_cstr_def dest: in_set_dropD)

text \<open>\<open>strchr\<close> and \<open>strrchr\<close> as the offset of the hit, \<open>None\<close> for a null result.\<close>

fun strchr :: "string \<Rightarrow> char \<Rightarrow> nat option" where
  "strchr [] c = None"
| "strchr (x # xs) c = (if x = c then Some 0 else map_option Suc (strchr xs c))"

definition strrchr :: "string \<Rightarrow> char \<Rightarrow> nat option" where
  "strrchr s c = map_option (\<lambda>i. length s - 1 - i) (strchr (rev s) c)"

text \<open>\<open>strstr\<close>: does the needle occur?\<close>

fun strstr :: "string \<Rightarrow> string \<Rightarrow> bool" where
  "strstr [] n = (n = [])"
| "strstr (x # xs) n = (prefix n (x # xs) \<or> strstr xs n)"

text \<open>\<open>strncmp (s, t, n) == 0\<close> on C strings.\<close>

definition strncmp_eq :: "string \<Rightarrow> string \<Rightarrow> nat \<Rightarrow> bool" where
  "strncmp_eq s t n \<longleftrightarrow> take n s = take n t"

text \<open>\<open>strncpy (d, s, n - 1); d[n - 1] = 0\<close>, the C string left in \<open>d\<close>.\<close>

definition strncpy_buf :: "nat \<Rightarrow> string \<Rightarrow> string" where
  "strncpy_buf n s = take (n - 1) s"

definition snprintf :: "nat \<Rightarrow> string \<Rightarrow> int \<times> string" where
  "snprintf n text = (int (length text), take (n - 1) text)"

lemma snprintf_fits: "length x < n \<Longrightarrow> snprintf n x = (int (length x), x)"
  by (simp add: snprintf_def)

lemma strchr_Some_iff:
  "strchr s c = Some i \<longleftrightarrow> i < length s \<and> s ! i = c \<and> c \<notin> set (take i s)"
proof (induction s arbitrary: i)
  case Nil
  then show ?case by simp
next
  case (Cons x xs)
  then show ?case by (cases i) auto
qed

lemma strchr_None_iff: "strchr s c = None \<longleftrightarrow> c \<notin> set s"
  by (induction s) auto

lemma strchr_append:
  "c \<notin> set s \<Longrightarrow> strchr (s @ c # t) c = Some (length s)"
  by (simp add: strchr_Some_iff)

lemma strrchr_append: "c \<notin> set t \<Longrightarrow> strrchr (s @ c # t) c = Some (length s)"
  by (simp add: strrchr_def strchr_append)

lemma strrchr_None_iff: "strrchr s c = None \<longleftrightarrow> c \<notin> set s"
  by (simp add: strrchr_def strchr_None_iff)

lemma strstr_iff: "strstr s n \<longleftrightarrow> (\<exists>p q. s = p @ n @ q)"
proof (induction s)
  case Nil
  then show ?case by auto
next
  case (Cons x xs)
  show ?case
  proof
    assume "strstr (x # xs) n"
    then consider (here) "prefix n (x # xs)" | (later) "strstr xs n" by auto
    then show "\<exists>p q. x # xs = p @ n @ q"
    proof cases
      case here
      then obtain q where "x # xs = [] @ n @ q" by (auto simp: prefix_def)
      then show ?thesis by blast
    next
      case later
      with Cons.IH obtain p q where "x # xs = (x # p) @ n @ q" by auto
      then show ?thesis by blast
    qed
  next
    assume "\<exists>p q. x # xs = p @ n @ q"
    then obtain p q where eq: "x # xs = p @ n @ q" by blast
    show "strstr (x # xs) n"
    proof (cases p)
      case Nil
      with eq have "prefix n (x # xs)" by (auto simp: prefix_def)
      then show ?thesis by simp
    next
      case (Cons y p')
      with eq have "xs = p' @ n @ q" by simp
      with Cons.IH show ?thesis by auto
    qed
  qed
qed

lemma strncmp_eq_prefix: "length t = n \<Longrightarrow> strncmp_eq s t n \<longleftrightarrow> prefix t s"
  by (auto simp: strncmp_eq_def prefix_def) (metis append_take_drop_id)

subsection \<open>Decimal output\<close>

definition digit :: "nat \<Rightarrow> byte" where
  "digit d = char_of (48 + d)"

fun nat_str :: "nat \<Rightarrow> string" where
  "nat_str n = (if n < 10 then [digit n] else nat_str (n div 10) @ [digit (n mod 10)])"

declare nat_str.simps [simp del]

definition int_str :: "int \<Rightarrow> string" where
  "int_str i = (if i < 0 then CHR ''-'' # nat_str (nat (- i)) else nat_str (nat i))"

text \<open>The printed value of a digit string.\<close>

definition digits_val :: "string \<Rightarrow> nat" where
  "digits_val s = foldl (\<lambda>v c. 10 * v + (of_char c - 48)) 0 s"

lemma of_char_digit: "d < 10 \<Longrightarrow> (of_char (digit d) :: nat) = 48 + d"
  by (simp add: digit_def)

lemma isdigit_digit [simp]: "d < 10 \<Longrightarrow> isdigit (digit d)"
  by (simp add: isdigit_def of_char_digit)

lemma nat_str_digits: "\<forall>c \<in> set (nat_str n). isdigit c"
proof (induction n rule: nat_str.induct)
  case (1 n)
  show ?case
  proof (cases "n < 10")
    case True
    then show ?thesis by (subst nat_str.simps) simp
  next
    case False
    with "1.IH" show ?thesis by (subst nat_str.simps) auto
  qed
qed

lemma nat_str_nonempty [simp]: "nat_str n \<noteq> []"
  by (subst nat_str.simps) simp

lemma digits_val_nat_str [simp]: "digits_val (nat_str n) = n"
proof (induction n rule: nat_str.induct)
  case (1 n)
  show ?case
  proof (cases "n < 10")
    case True
    then show ?thesis by (subst nat_str.simps) (simp add: digits_val_def of_char_digit)
  next
    case False
    with "1.IH" show ?thesis
      by (subst nat_str.simps) (simp add: digits_val_def of_char_digit)
  qed
qed

lemma nat_str_inject [simp]: "nat_str m = nat_str n \<longleftrightarrow> m = n"
  by (metis digits_val_nat_str)

lemma length_nat_str: "n < 10 ^ k \<Longrightarrow> 0 < k \<Longrightarrow> length (nat_str n) \<le> k"
proof (induction n arbitrary: k rule: nat_str.induct)
  case (1 n)
  show ?case
  proof (cases "n < 10")
    case True
    with "1.prems" show ?thesis by (subst nat_str.simps) simp
  next
    case False
    obtain k' where k: "k = Suc k'" "0 < k'"
    proof (cases k)
      case (Suc m)
      with "1.prems" False show ?thesis by (cases m) (auto intro: that)
    qed (use "1.prems" in simp)
    with "1.prems" have "n div 10 < 10 ^ k'" by (simp add: div_less_iff_less_mult mult.commute)
    with "1.IH" False k have "length (nat_str (n div 10)) \<le> k'" by simp
    with False k show ?thesis by (subst nat_str.simps) simp
  qed
qed

lemma isdigit_is_cstr: "\<forall>c \<in> set s. isdigit c \<Longrightarrow> is_cstr s"
  by (auto simp: is_cstr_def)

lemma nat_str_is_cstr [simp]: "is_cstr (nat_str n)"
  by (rule isdigit_is_cstr) (rule nat_str_digits)

lemma int_str_is_cstr [simp]: "is_cstr (int_str i)"
  by (simp add: int_str_def NUL_def)

subsection \<open>strtoull, base ten\<close>

definition ULLONG_MAX :: nat where
  "ULLONG_MAX = 18446744073709551615"

text \<open>
  Leading white space is skipped, one sign is accepted, and a minus sign negates the value
  modulo \<open>2 ^ 64\<close>. The result is the value, the number of bytes up to \<open>*end_pointer\<close>
  and whether \<open>errno\<close> was set (\<open>ERANGE\<close>).
\<close>

definition strtoull :: "string \<Rightarrow> nat \<times> nat \<times> bool" where
  "strtoull s =
     (let ws = takeWhile isspace s;
          t = drop (length ws) s;
          sign = (case t of c # _ \<Rightarrow> c = CHR ''-'' \<or> c = CHR ''+'' | [] \<Rightarrow> False);
          neg = (case t of c # _ \<Rightarrow> c = CHR ''-'' | [] \<Rightarrow> False);
          u = (if sign then tl t else t);
          ds = takeWhile isdigit u;
          v = digits_val ds
      in if ds = [] then (0, 0, False)
         else (if v > ULLONG_MAX then ULLONG_MAX
               else if neg then (if v = 0 then 0 else Suc ULLONG_MAX - v) else v,
               length ws + (if sign then 1 else 0) + length ds, v > ULLONG_MAX))"

lemma isdigit_not_space: "isdigit c \<Longrightarrow> \<not> isspace c"
  by (auto simp: isdigit_def isspace_def)

lemma isdigit_not_sign: "isdigit c \<Longrightarrow> c \<noteq> CHR ''-'' \<and> c \<noteq> CHR ''+''"
  by (auto simp: isdigit_def)

lemma strtoull_digits:
  assumes "\<forall>c \<in> set s. isdigit c" and "s \<noteq> []" and "digits_val s \<le> ULLONG_MAX"
  shows "strtoull s = (digits_val s, length s, False)"
proof -
  from assms(2) obtain c t where s: "s = c # t" by (cases s) auto
  with assms(1) have c: "isdigit c" by simp
  have "takeWhile isspace s = []"
    using isdigit_not_space [OF c] by (simp add: s)
  moreover have "takeWhile isdigit s = s"
    using assms(1) by (simp add: takeWhile_eq_all_conv)
  ultimately show ?thesis
    using assms(3) isdigit_not_sign [OF c] s
    by (simp add: strtoull_def)
qed

lemma strtoull_nat_str:
  "n \<le> ULLONG_MAX \<Longrightarrow> strtoull (nat_str n) = (n, length (nat_str n), False)"
  by (simp add: strtoull_digits nat_str_digits)

end
