(* ===== verification/Posix.thy ===== *)
theory Posix
  imports C_Lib
begin

section \<open>The operating system the programs run on\<close>

text \<open>
  The record \<open>os\<close> is what one thread of a process sees of the system: its descriptor
  table, its sockets, the directories and inodes it can reach, the open-file-description
  locks, the clocks and \<open>errno\<close>. The server and the client extend it with their
  static variables, so every call below works on any extension of \<open>os\<close>.

  What the kernel may decide freely is read from scripts, one list of outcomes per group of
  calls: \<open>NoFault\<close> lets the call do its work, \<open>Short n\<close> makes a transfer stop after
  \<open>n\<close> bytes, \<open>Fault e\<close> makes the call fail with \<open>errno = e\<close> (\<open>EINTR\<close>, a full
  disk, a reset connection, an entry another process removed or created, and so on). An
  exhausted script means no more faults. A theorem that holds for every state holds for
  every script, so for every finite sequence of interruptions, short transfers and
  failures.

  \<open>inbox\<close> of a socket is all the peer will still send before it closes its side: a
  \<open>recv\<close> on the empty inbox returns 0. \<open>outbox\<close> is every byte the process has put
  on the wire.
\<close>

subsection \<open>Outcomes\<close>

datatype errno_t = E0 | EINTR | ENOENT | EEXIST | ENOTDIR | EISDIR | EINVAL | EIO | ELOOP
  | ENAMETOOLONG | EBADF | EPIPE | ECONNRESET | ENOSPC | EACCES | EMFILE | EAGAIN
  | EADDRINUSE | ECONNREFUSED

datatype fault = NoFault | Short nat | Fault errno_t

fun strerror :: "errno_t \<Rightarrow> string" where
  "strerror E0 = ''Success''"
| "strerror EINTR = ''Interrupted system call''"
| "strerror ENOENT = ''No such file or directory''"
| "strerror EEXIST = ''File exists''"
| "strerror ENOTDIR = ''Not a directory''"
| "strerror EISDIR = ''Is a directory''"
| "strerror EINVAL = ''Invalid argument''"
| "strerror EIO = ''Input/output error''"
| "strerror ELOOP = ''Too many levels of symbolic links''"
| "strerror ENAMETOOLONG = ''File name too long''"
| "strerror EBADF = ''Bad file descriptor''"
| "strerror EPIPE = ''Broken pipe''"
| "strerror ECONNRESET = ''Connection reset by peer''"
| "strerror ENOSPC = ''No space left on device''"
| "strerror EACCES = ''Permission denied''"
| "strerror EMFILE = ''Too many open files''"
| "strerror EAGAIN = ''Resource temporarily unavailable''"
| "strerror EADDRINUSE = ''Address already in use''"
| "strerror ECONNREFUSED = ''Connection refused''"

subsection \<open>Objects\<close>

record sock =
  inbox :: "byte list"
  outbox :: "byte list"
  shut :: bool

datatype ikind = IReg | IDir | ILnk | IOther

record inode =
  ikind :: ikind
  content :: "byte list"
  imode :: nat

text \<open>A path the program names directly: nothing there, a directory, a symbolic link to a
  directory, or anything else.\<close>

datatype dkind = DMissing | DDir | DLink | DOther

record dir =
  dkind :: dkind
  ents :: "(string \<times> nat) list"

datatype fdobj = FSock | FDir string nat | FReg nat nat

datatype lock_type = F_RDLCK | F_WRLCK

datatype oflag = O_RDONLY | O_WRONLY | O_RDWR | O_CREAT | O_EXCL | O_DIRECTORY | O_CLOEXEC
  | O_NOFOLLOW

record os =
  errno :: errno_t
  pid :: int
  tid :: nat
  fds :: "(int \<times> fdobj) list"
  socks :: "int \<Rightarrow> sock"
  dirs :: "string \<Rightarrow> dir"
  inodes :: "nat \<Rightarrow> inode"
  next_ino :: nat
  ofd_locks :: "(int \<times> nat \<times> lock_type) list"
  mono_ns :: nat
  net_script :: "fault list"
  fs_script :: "fault list"
  mtx_script :: "fault list"
  clk_script :: "(fault \<times> nat) list"

type_synonym ('z, 'a) sys = "('z os_scheme, 'a) state"

subsection \<open>Reading the scripts\<close>

definition net_fault :: "('z, fault) sys" where
  "net_fault = State (\<lambda>s. case net_script s of [] \<Rightarrow> (NoFault, s)
     | f # fs \<Rightarrow> (f, s\<lparr>net_script := fs\<rparr>))"

definition fs_fault :: "('z, fault) sys" where
  "fs_fault = State (\<lambda>s. case fs_script s of [] \<Rightarrow> (NoFault, s)
     | f # fs \<Rightarrow> (f, s\<lparr>fs_script := fs\<rparr>))"

definition mtx_fault :: "('z, fault) sys" where
  "mtx_fault = State (\<lambda>s. case mtx_script s of [] \<Rightarrow> (NoFault, s)
     | f # fs \<Rightarrow> (f, s\<lparr>mtx_script := fs\<rparr>))"

definition set_errno :: "errno_t \<Rightarrow> ('z, unit) sys" where
  "set_errno e = modify (\<lambda>s. s\<lparr>errno := e\<rparr>)"

definition fail :: "errno_t \<Rightarrow> ('z, int) sys" where
  "fail e = do { set_errno e; ret (- 1) }"

definition fail_none :: "errno_t \<Rightarrow> ('z, 'a option) sys" where
  "fail_none e = do { set_errno e; ret None }"

subsection \<open>Descriptors\<close>

text \<open>A new descriptor is the lowest number not in use.\<close>

definition fresh_fd :: "(int \<times> fdobj) list \<Rightarrow> int" where
  "fresh_fd t = hd (filter (\<lambda>n. n \<notin> set (map fst t)) (map int [0..<Suc (length t)]))"

definition alloc_fd :: "fdobj \<Rightarrow> ('z, int) sys" where
  "alloc_fd obj = State (\<lambda>s. (fresh_fd (fds s), s\<lparr>fds := (fresh_fd (fds s), obj) # fds s\<rparr>))"

definition fd_obj :: "'z os_scheme \<Rightarrow> int \<Rightarrow> fdobj option" where
  "fd_obj s fd = map_of (fds s) fd"

text \<open>\<open>close\<close> gives the descriptor back even when it reports an error, and drops the
  locks held through it.\<close>

definition sys_close :: "int \<Rightarrow> ('z, int) sys" where
  "sys_close fd = do {
     obj \<leftarrow> gets (\<lambda>s. fd_obj s fd);
     if obj = None then fail EBADF
     else do {
       f \<leftarrow> fs_fault;
       modify (\<lambda>s. s\<lparr>fds := AList.delete fd (fds s),
                     ofd_locks := filter (\<lambda>l. fst l \<noteq> fd) (ofd_locks s)\<rparr>);
       case f of Fault e \<Rightarrow> fail e | _ \<Rightarrow> ret 0
     }
   }"

subsection \<open>Sockets\<close>

definition is_sock :: "'z os_scheme \<Rightarrow> int \<Rightarrow> bool" where
  "is_sock s fd \<longleftrightarrow> fd_obj s fd = Some FSock"

definition put_outbox :: "int \<Rightarrow> byte list \<Rightarrow> 'z os_scheme \<Rightarrow> 'z os_scheme" where
  "put_outbox fd bs s =
     s\<lparr>socks := (socks s)(fd := (socks s fd)\<lparr>outbox := outbox (socks s fd) @ bs\<rparr>)\<rparr>"

definition drop_inbox :: "int \<Rightarrow> nat \<Rightarrow> 'z os_scheme \<Rightarrow> 'z os_scheme" where
  "drop_inbox fd n s =
     s\<lparr>socks := (socks s)(fd := (socks s fd)\<lparr>inbox := drop n (inbox (socks s fd))\<rparr>)\<rparr>"

text \<open>\<open>send\<close> with \<open>MSG_NOSIGNAL\<close>: the number of bytes taken, or -1 with \<open>errno\<close>.\<close>

definition sys_send :: "int \<Rightarrow> byte list \<Rightarrow> ('z, int) sys" where
  "sys_send fd bs = do {
     s \<leftarrow> State_Monad.get;
     if \<not> is_sock s fd then fail EBADF
     else if shut (socks s fd) then fail EPIPE
     else do {
       f \<leftarrow> net_fault;
       case f of
         Fault e \<Rightarrow> fail e
       | Short k \<Rightarrow> do { modify (put_outbox fd (take k bs)); ret (int (min k (length bs))) }
       | NoFault \<Rightarrow> do { modify (put_outbox fd bs); ret (int (length bs)) }
     }
   }"

text \<open>How many bytes a \<open>recv\<close> of \<open>n\<close> bytes delivers from \<open>avail\<close>: 0 only at the
  end of the stream.\<close>

definition recv_amount :: "fault \<Rightarrow> nat \<Rightarrow> nat \<Rightarrow> nat" where
  "recv_amount f n avail = (case f of Short k \<Rightarrow> min (max 1 k) (min n avail) | _ \<Rightarrow> min n avail)"

definition sys_recv :: "int \<Rightarrow> nat \<Rightarrow> ('z, int \<times> byte list) sys" where
  "sys_recv fd n = do {
     s \<leftarrow> State_Monad.get;
     if \<not> is_sock s fd then do { r \<leftarrow> fail EBADF; ret (r, []) }
     else if shut (socks s fd) then ret (0, [])
     else do {
       f \<leftarrow> net_fault;
       case f of
         Fault e \<Rightarrow> do { r \<leftarrow> fail e; ret (r, []) }
       | _ \<Rightarrow> (let k = recv_amount f n (length (inbox (socks s fd)));
                  bs = take k (inbox (socks s fd))
               in do { modify (drop_inbox fd k); ret (int k, bs) })
     }
   }"

definition sys_shutdown :: "int \<Rightarrow> ('z, unit) sys" where
  "sys_shutdown fd = modify (\<lambda>s. s\<lparr>socks := (socks s)(fd := (socks s fd)\<lparr>shut := True\<rparr>)\<rparr>)"

subsection \<open>Directories and files\<close>

text \<open>Status of an object: its kind and \<open>st_size\<close>.\<close>

type_synonym stat_t = "ikind \<times> int"

definition inode_stat :: "inode \<Rightarrow> stat_t" where
  "inode_stat i = (ikind i, int (length (content i)))"

definition parent_path :: "string \<Rightarrow> string option" where
  "parent_path p = map_option (\<lambda>i. take i p) (strrchr p (CHR ''/''))"

definition sys_lstat :: "string \<Rightarrow> ('z, stat_t option) sys" where
  "sys_lstat path = do {
     f \<leftarrow> fs_fault;
     case f of Fault e \<Rightarrow> fail_none e
     | _ \<Rightarrow> do {
         d \<leftarrow> gets (\<lambda>s. dkind (dirs s path));
         case d of DMissing \<Rightarrow> fail_none ENOENT
         | DDir \<Rightarrow> ret (Some (IDir, 0))
         | DLink \<Rightarrow> ret (Some (ILnk, 0))
         | DOther \<Rightarrow> ret (Some (IOther, 0))
       }
   }"

definition sys_mkdir :: "string \<Rightarrow> ('z, int) sys" where
  "sys_mkdir path = do {
     f \<leftarrow> fs_fault;
     case f of Fault e \<Rightarrow> fail e
     | _ \<Rightarrow> do {
         s \<leftarrow> State_Monad.get;
         if (case parent_path path of None \<Rightarrow> False | Some p \<Rightarrow> dkind (dirs s p) = DMissing)
         then fail ENOENT
         else if dkind (dirs s path) \<noteq> DMissing then fail EEXIST
         else do {
           modify (\<lambda>s. s\<lparr>dirs := (dirs s)(path := \<lparr>dkind = DDir, ents = []\<rparr>)\<rparr>);
           ret 0
         }
       }
   }"

text \<open>\<open>open (path, O_RDONLY | O_DIRECTORY | O_CLOEXEC | O_NOFOLLOW)\<close> on a directory path.\<close>

definition open_dir :: "string \<Rightarrow> ('z, int) sys" where
  "open_dir path = do {
     f \<leftarrow> fs_fault;
     case f of Fault e \<Rightarrow> fail e
     | _ \<Rightarrow> do {
         d \<leftarrow> gets (\<lambda>s. dkind (dirs s path));
         case d of DMissing \<Rightarrow> fail ENOENT
         | DDir \<Rightarrow> alloc_fd (FDir path 0)
         | _ \<Rightarrow> fail ENOTDIR
       }
   }"

definition fd_stat :: "'z os_scheme \<Rightarrow> fdobj \<Rightarrow> stat_t" where
  "fd_stat s obj = (case obj of FSock \<Rightarrow> (IOther, 0) | FDir _ _ \<Rightarrow> (IDir, 0)
     | FReg i _ \<Rightarrow> inode_stat (inodes s i))"

definition sys_fstat :: "int \<Rightarrow> ('z, stat_t option) sys" where
  "sys_fstat fd = do {
     f \<leftarrow> fs_fault;
     case f of Fault e \<Rightarrow> fail_none e
     | _ \<Rightarrow> do {
         s \<leftarrow> State_Monad.get;
         case fd_obj s fd of None \<Rightarrow> fail_none EBADF
         | Some obj \<Rightarrow> ret (Some (fd_stat s obj))
       }
   }"

text \<open>The directory a descriptor is open on, and the entry of a name in it.\<close>

definition dir_of :: "'z os_scheme \<Rightarrow> int \<Rightarrow> string option" where
  "dir_of s fd = (case fd_obj s fd of Some (FDir p _) \<Rightarrow> Some p | _ \<Rightarrow> None)"

definition entry :: "'z os_scheme \<Rightarrow> string \<Rightarrow> string \<Rightarrow> nat option" where
  "entry s path name = map_of (ents (dirs s path)) name"

definition add_entry :: "string \<Rightarrow> string \<Rightarrow> nat \<Rightarrow> 'z os_scheme \<Rightarrow> 'z os_scheme" where
  "add_entry path name i s = s\<lparr>dirs := (dirs s)(path :=
     (dirs s path)\<lparr>ents := ents (dirs s path) @ [(name, i)]\<rparr>)\<rparr>"

definition del_entry :: "string \<Rightarrow> string \<Rightarrow> 'z os_scheme \<Rightarrow> 'z os_scheme" where
  "del_entry path name s = s\<lparr>dirs := (dirs s)(path :=
     (dirs s path)\<lparr>ents := AList.delete name (ents (dirs s path))\<rparr>)\<rparr>"

text \<open>\<open>fstatat (\<dots>, AT_SYMLINK_NOFOLLOW)\<close>.\<close>

definition sys_fstatat :: "int \<Rightarrow> string \<Rightarrow> ('z, stat_t option) sys" where
  "sys_fstatat dfd name = do {
     f \<leftarrow> fs_fault;
     case f of Fault e \<Rightarrow> fail_none e
     | _ \<Rightarrow> do {
         s \<leftarrow> State_Monad.get;
         case dir_of s dfd of None \<Rightarrow> fail_none EBADF
         | Some p \<Rightarrow> (case entry s p name of None \<Rightarrow> fail_none ENOENT
             | Some i \<Rightarrow> ret (Some (inode_stat (inodes s i))))
       }
   }"

definition sys_unlinkat :: "int \<Rightarrow> string \<Rightarrow> ('z, int) sys" where
  "sys_unlinkat dfd name = do {
     f \<leftarrow> fs_fault;
     case f of Fault e \<Rightarrow> fail e
     | _ \<Rightarrow> do {
         s \<leftarrow> State_Monad.get;
         case dir_of s dfd of None \<Rightarrow> fail EBADF
         | Some p \<Rightarrow> (case entry s p name of None \<Rightarrow> fail ENOENT
             | Some i \<Rightarrow> if ikind (inodes s i) = IDir then fail EISDIR
                 else do { modify (del_entry p name); ret 0 })
       }
   }"

text \<open>\<open>linkat\<close> inside one directory: a second name for the same inode, never replacing one.\<close>

definition sys_linkat :: "int \<Rightarrow> string \<Rightarrow> string \<Rightarrow> ('z, int) sys" where
  "sys_linkat dfd old new = do {
     f \<leftarrow> fs_fault;
     case f of Fault e \<Rightarrow> fail e
     | _ \<Rightarrow> do {
         s \<leftarrow> State_Monad.get;
         case dir_of s dfd of None \<Rightarrow> fail EBADF
         | Some p \<Rightarrow> (case entry s p old of None \<Rightarrow> fail ENOENT
             | Some i \<Rightarrow> if entry s p new \<noteq> None then fail EEXIST
                 else do { modify (add_entry p new i); ret 0 })
       }
   }"

definition create_inode :: "string \<Rightarrow> string \<Rightarrow> nat \<Rightarrow> 'z os_scheme \<Rightarrow> 'z os_scheme" where
  "create_inode path name m s = add_entry path name (next_ino s)
     (s\<lparr>inodes := (inodes s)(next_ino s := \<lparr>ikind = IReg, content = [], imode = m\<rparr>),
        next_ino := Suc (next_ino s)\<rparr>)"

definition sys_openat :: "int \<Rightarrow> string \<Rightarrow> oflag list \<Rightarrow> nat \<Rightarrow> ('z, int) sys" where
  "sys_openat dfd name flags m = do {
     f \<leftarrow> fs_fault;
     case f of Fault e \<Rightarrow> fail e
     | _ \<Rightarrow> do {
         s \<leftarrow> State_Monad.get;
         case dir_of s dfd of None \<Rightarrow> fail EBADF
         | Some p \<Rightarrow> (case entry s p name of
             None \<Rightarrow>
               if O_CREAT \<in> set flags
               then do { modify (create_inode p name m); alloc_fd (FReg (next_ino s) 0) }
               else fail ENOENT
           | Some i \<Rightarrow>
               if O_CREAT \<in> set flags \<and> O_EXCL \<in> set flags then fail EEXIST
               else if ikind (inodes s i) = ILnk then fail ELOOP
               else if ikind (inodes s i) = IDir \<and> O_RDONLY \<notin> set flags then fail EISDIR
               else alloc_fd (FReg i 0))
       }
   }"

text \<open>Every \<open>openat\<close> of the program passes \<open>O_NOFOLLOW\<close>, so a final symbolic link is
  refused above whatever the flags say. Next, \<open>read\<close> at the descriptor's offset and \<open>write\<close> there. A write of no byte is 0.\<close>

definition sys_read :: "int \<Rightarrow> nat \<Rightarrow> ('z, int \<times> byte list) sys" where
  "sys_read fd n = do {
     f \<leftarrow> fs_fault;
     case f of Fault e \<Rightarrow> do { r \<leftarrow> fail e; ret (r, []) }
     | _ \<Rightarrow> do {
         s \<leftarrow> State_Monad.get;
         case fd_obj s fd of
           Some (FReg i off) \<Rightarrow>
             (let avail = drop off (content (inodes s i));
                  k = recv_amount f n (length avail)
              in do { modify (\<lambda>s. s\<lparr>fds := AList.update fd (FReg i (off + k)) (fds s)\<rparr>);
                      ret (int k, take k avail) })
         | _ \<Rightarrow> do { r \<leftarrow> fail EBADF; ret (r, []) }
       }
   }"

definition write_at :: "nat \<Rightarrow> byte list \<Rightarrow> byte list \<Rightarrow> byte list" where
  "write_at off bs c = take off c @ bs @ drop (off + length bs) c"

definition sys_write :: "int \<Rightarrow> byte list \<Rightarrow> ('z, int) sys" where
  "sys_write fd bs = do {
     f \<leftarrow> fs_fault;
     case f of Fault e \<Rightarrow> fail e
     | _ \<Rightarrow> do {
         s \<leftarrow> State_Monad.get;
         case fd_obj s fd of
           Some (FReg i off) \<Rightarrow>
             (let out = (case f of Short k \<Rightarrow> take k bs | _ \<Rightarrow> bs)
              in do { modify (\<lambda>s. s\<lparr>inodes := (inodes s)(i := (inodes s i)
                          \<lparr>content := write_at off out (content (inodes s i))\<rparr>),
                        fds := AList.update fd (FReg i (off + length out)) (fds s)\<rparr>);
                      ret (int (length out)) })
         | _ \<Rightarrow> fail EBADF
       }
   }"

definition sys_fsync :: "int \<Rightarrow> ('z, int) sys" where
  "sys_fsync fd = do {
     f \<leftarrow> fs_fault;
     case f of Fault e \<Rightarrow> fail e
     | _ \<Rightarrow> do { obj \<leftarrow> gets (\<lambda>s. fd_obj s fd);
                 if obj = None then fail EBADF else ret 0 }
   }"

definition sys_fchmod :: "int \<Rightarrow> nat \<Rightarrow> ('z, int) sys" where
  "sys_fchmod fd m = do {
     f \<leftarrow> fs_fault;
     case f of Fault e \<Rightarrow> fail e
     | _ \<Rightarrow> do {
         s \<leftarrow> State_Monad.get;
         case fd_obj s fd of
           Some (FReg i _) \<Rightarrow> do {
             modify (\<lambda>s. s\<lparr>inodes := (inodes s)(i := (inodes s i)\<lparr>imode := m\<rparr>)\<rparr>); ret 0 }
         | _ \<Rightarrow> fail EBADF
       }
   }"

text \<open>A directory stream is its descriptor; the position is part of the descriptor.\<close>

definition sys_fdopendir :: "int \<Rightarrow> ('z, bool) sys" where
  "sys_fdopendir fd = do {
     f \<leftarrow> fs_fault;
     case f of Fault e \<Rightarrow> do { set_errno e; ret False }
     | _ \<Rightarrow> do { d \<leftarrow> gets (\<lambda>s. dir_of s fd);
                 if d = None then do { set_errno ENOTDIR; ret False } else ret True }
   }"

definition sys_readdir :: "int \<Rightarrow> ('z, string option) sys" where
  "sys_readdir fd = do {
     f \<leftarrow> fs_fault;
     case f of Fault e \<Rightarrow> fail_none e
     | _ \<Rightarrow> do {
         s \<leftarrow> State_Monad.get;
         case fd_obj s fd of
           Some (FDir p i) \<Rightarrow>
             if i < length (ents (dirs s p))
             then do { modify (\<lambda>s. s\<lparr>fds := AList.update fd (FDir p (Suc i)) (fds s)\<rparr>);
                       ret (Some (fst (ents (dirs s p) ! i))) }
             else ret None
         | _ \<Rightarrow> fail_none EBADF
       }
   }"

subsection \<open>Open-file-description locks\<close>

text \<open>
  \<open>F_OFD_SETLKW\<close> waits until no other descriptor holds a conflicting lock on the inode;
  it returns in a state where the holders it waited for have released theirs.
\<close>

definition lock_conflict :: "lock_type \<Rightarrow> lock_type \<Rightarrow> bool" where
  "lock_conflict a b \<longleftrightarrow> a = F_WRLCK \<or> b = F_WRLCK"

definition fcntl_setlkw :: "int \<Rightarrow> lock_type \<Rightarrow> ('z, int) sys" where
  "fcntl_setlkw fd t = do {
     f \<leftarrow> fs_fault;
     case f of Fault e \<Rightarrow> fail e
     | _ \<Rightarrow> do {
         s \<leftarrow> State_Monad.get;
         case fd_obj s fd of
           Some (FReg i _) \<Rightarrow> do {
             modify (\<lambda>s. s\<lparr>ofd_locks := (fd, i, t) #
               filter (\<lambda>(fd', i', t'). fd' \<noteq> fd \<and> \<not> (i' = i \<and> lock_conflict t t')) (ofd_locks s)\<rparr>);
             ret 0 }
         | _ \<Rightarrow> fail EBADF
       }
   }"

definition fcntl_unlock :: "int \<Rightarrow> ('z, int) sys" where
  "fcntl_unlock fd = do {
     f \<leftarrow> fs_fault;
     case f of Fault e \<Rightarrow> fail e
     | _ \<Rightarrow> do {
         obj \<leftarrow> gets (\<lambda>s. fd_obj s fd);
         if obj = None then fail EBADF
         else do { modify (\<lambda>s. s\<lparr>ofd_locks := filter (\<lambda>l. fst l \<noteq> fd) (ofd_locks s)\<rparr>); ret 0 }
       }
   }"

subsection \<open>Clock and mutex results\<close>

text \<open>\<open>CLOCK_MONOTONIC\<close> as seconds and nanoseconds; each reading moves the clock on.\<close>

definition clock_gettime :: "('z, (int \<times> int) option) sys" where
  "clock_gettime = do {
     s \<leftarrow> State_Monad.get;
     (case clk_script s of [] \<Rightarrow>
        ret (Some (int (mono_ns s) div 1000000000, int (mono_ns s) mod 1000000000))
      | (f, d) # fs \<Rightarrow> do {
          modify (\<lambda>s. s\<lparr>clk_script := fs, mono_ns := mono_ns s + d\<rparr>);
          case f of Fault e \<Rightarrow> fail_none e
          | _ \<Rightarrow> ret (Some (int (mono_ns s + d) div 1000000000, int (mono_ns s + d) mod 1000000000))
        })
   }"

text \<open>A pthread mutex function returns 0 or an error number; the script decides.\<close>

definition mtx_ok :: "('z, bool) sys" where
  "mtx_ok = do { f \<leftarrow> mtx_fault; ret (case f of Fault _ \<Rightarrow> False | _ \<Rightarrow> True) }"

subsection \<open>Frames\<close>

text \<open>What the file calls and what the socket calls leave alone.\<close>

definition fs_rest :: "'z os_scheme \<Rightarrow> _" where
  "fs_rest s = (socks s, net_script s, mtx_script s, clk_script s, mono_ns s, pid s, tid s, os.more s)"

definition net_rest :: "'z os_scheme \<Rightarrow> _" where
  "net_rest s = (fds s, dirs s, inodes s, next_ino s, ofd_locks s, mono_ns s, fs_script s,
     mtx_script s, clk_script s, pid s, tid s, os.more s)"

context frame_rel
begin

lemma io_fault:
  "state_io_rel R a \<Longrightarrow> (\<And>k. state_io_rel R (b k)) \<Longrightarrow> (\<And>e. state_io_rel R (c e)) \<Longrightarrow>
   state_io_rel R (case f of NoFault \<Rightarrow> a | Short k \<Rightarrow> b k | Fault e \<Rightarrow> c e)"
  by (cases f) auto

lemma io_dkind:
  "state_io_rel R a \<Longrightarrow> state_io_rel R b \<Longrightarrow> state_io_rel R c \<Longrightarrow> state_io_rel R d \<Longrightarrow>
   state_io_rel R (case k of DMissing \<Rightarrow> a | DDir \<Rightarrow> b | DLink \<Rightarrow> c | DOther \<Rightarrow> d)"
  by (cases k) auto

lemma io_fdobj:
  "state_io_rel R a \<Longrightarrow> (\<And>p i. state_io_rel R (b p i)) \<Longrightarrow> (\<And>i n. state_io_rel R (c i n)) \<Longrightarrow>
   state_io_rel R (case x of FSock \<Rightarrow> a | FDir p i \<Rightarrow> b p i | FReg i n \<Rightarrow> c i n)"
  by (cases x) auto

lemma io_list:
  "state_io_rel R a \<Longrightarrow> (\<And>x xs. state_io_rel R (b x xs)) \<Longrightarrow>
   state_io_rel R (case l of [] \<Rightarrow> a | x # xs \<Rightarrow> b x xs)"
  by (cases l) auto

lemma io_get: "state_io_rel R State_Monad.get"
  by (simp add: state_io_rel_def refl)

lemmas io_sys = io_rules io_fault io_dkind io_fdobj io_list io_get

end

lemma fs_fault_frame: "state_io_rel (same fs_rest) fs_fault"
  by (auto simp: fs_fault_def same_def fs_rest_def state_io_rel_def split: list.splits)

lemma net_fault_frame: "state_io_rel (same net_rest) net_fault"
  by (auto simp: net_fault_def same_def net_rest_def state_io_rel_def split: list.splits)

lemma alloc_fd_frame: "state_io_rel (same fs_rest) (alloc_fd obj)"
  by (auto simp: alloc_fd_def same_def fs_rest_def state_io_rel_def)

lemma set_errno_frame:
  "state_io_rel (same fs_rest) (set_errno e)" "state_io_rel (same net_rest) (set_errno e)"
  by (auto simp: set_errno_def same_def fs_rest_def net_rest_def state_io_rel_def)

lemma fail_frame:
  "state_io_rel (same fs_rest) (fail e)" "state_io_rel (same net_rest) (fail e)"
  "state_io_rel (same fs_rest) (fail_none e)" "state_io_rel (same net_rest) (fail_none e)"
  unfolding fail_def fail_none_def by (intro same.io_sys set_errno_frame)+

lemmas fs_base = fs_fault_frame alloc_fd_frame set_errno_frame(1) fail_frame(1,3)
lemmas net_base = net_fault_frame set_errno_frame(2) fail_frame(2,4)

lemma fs_modify:
  "(\<And>s. fs_rest (f s) = fs_rest s) \<Longrightarrow> state_io_rel (same fs_rest) (modify f)"
  by (rule same.io_modify) (simp add: same_def)

lemma net_modify:
  "(\<And>s. net_rest (f s) = net_rest s) \<Longrightarrow> state_io_rel (same net_rest) (modify f)"
  by (rule same.io_modify) (simp add: same_def)

lemmas sys_defs = sys_close_def sys_lstat_def sys_mkdir_def open_dir_def sys_fstat_def
  sys_fstatat_def sys_unlinkat_def sys_linkat_def sys_openat_def sys_read_def sys_write_def
  sys_fsync_def sys_fchmod_def sys_fdopendir_def sys_readdir_def fcntl_setlkw_def
  fcntl_unlock_def

lemma fs_frames:
  "state_io_rel (same fs_rest) (sys_close fd)"
  "state_io_rel (same fs_rest) (sys_lstat path)"
  "state_io_rel (same fs_rest) (sys_mkdir path)"
  "state_io_rel (same fs_rest) (open_dir path)"
  "state_io_rel (same fs_rest) (sys_fstat fd)"
  "state_io_rel (same fs_rest) (sys_fstatat fd name)"
  "state_io_rel (same fs_rest) (sys_unlinkat fd name)"
  "state_io_rel (same fs_rest) (sys_linkat fd old new)"
  "state_io_rel (same fs_rest) (sys_openat fd name flags m)"
  "state_io_rel (same fs_rest) (sys_read fd n)"
  "state_io_rel (same fs_rest) (sys_write fd bs)"
  "state_io_rel (same fs_rest) (sys_fsync fd)"
  "state_io_rel (same fs_rest) (sys_fchmod fd m)"
  "state_io_rel (same fs_rest) (sys_fdopendir fd)"
  "state_io_rel (same fs_rest) (sys_readdir fd)"
  "state_io_rel (same fs_rest) (fcntl_setlkw fd t)"
  "state_io_rel (same fs_rest) (fcntl_unlock fd)"
  unfolding sys_defs
  by (intro same.io_sys fs_base fs_modify;
      simp add: fs_rest_def del_entry_def add_entry_def create_inode_def)+

lemma net_frames:
  "state_io_rel (same net_rest) (sys_send fd bs)"
  "state_io_rel (same net_rest) (sys_recv fd n)"
  "state_io_rel (same net_rest) (sys_shutdown fd)"
  unfolding sys_send_def sys_recv_def sys_shutdown_def
  by (intro same.io_sys net_base net_modify;
      simp add: net_rest_def put_outbox_def drop_inbox_def)+

lemma mtx_ok_frame: "state_io_rel (same (\<lambda>s. (errno s, fs_script s, net_rest (s\<lparr>mtx_script := []\<rparr>), socks s, net_script s))) mtx_ok"
  by (auto simp: mtx_ok_def mtx_fault_def state_io_rel_def same_def net_rest_def split: list.splits)

lemma mtx_ok_quiet: "mtx_script s = [] \<Longrightarrow> run_state mtx_ok s = (True, s)"
  by (simp add: mtx_ok_def mtx_fault_def)

subsection \<open>Fresh descriptors\<close>

lemma fresh_fd_exists:
  fixes t :: "(int \<times> fdobj) list"
  shows "filter (\<lambda>n. n \<notin> set (map fst t)) (map int [0..<Suc (length t)]) \<noteq> []"
proof
  assume "filter (\<lambda>n. n \<notin> set (map fst t)) (map int [0..<Suc (length t)]) = []"
  then have "set (map int [0..<Suc (length t)]) \<subseteq> set (map fst t)"
    by (auto simp: filter_empty_conv simp del: upt_Suc)
  then have "card (set (map int [0..<Suc (length t)])) \<le> card (set (map fst t))"
    by (intro card_mono) auto
  moreover have "card (set (map int [0..<Suc (length t)])) = Suc (length t)"
    by (subst distinct_card) (auto simp: distinct_map inj_on_def)
  moreover have "card (set (map fst t)) \<le> length t"
    using card_length [of "map fst t"] by simp
  ultimately show False by linarith
qed

lemma fresh_fd_props: "fresh_fd t \<notin> fst ` set t" "0 \<le> fresh_fd t"
proof -
  have "fresh_fd t \<in> set (filter (\<lambda>n. n \<notin> set (map fst t)) (map int [0..<Suc (length t)]))"
    unfolding fresh_fd_def using fresh_fd_exists by (rule hd_in_set)
  then show "fresh_fd t \<notin> fst ` set t" and "0 \<le> fresh_fd t" by (auto simp del: upt_Suc)
qed

lemma fresh_fd_unused [simp]: "map_of t (fresh_fd t) = None"
  using fresh_fd_props(1) by (simp add: map_of_eq_None_iff)

end
