(* ===== verification/Network_IO.thy ===== *)
theory Network_IO
  imports Posix
begin

section \<open>Reliable socket I/O: send_all and recv_all\<close>

text \<open>
  \<open>src/common/network_io.c\<close>. Both loops repeat \<open>send\<close> and \<open>recv\<close> until the whole
  buffer is transferred, restarting after \<open>EINTR\<close>. They always stop: a pass either
  transfers a byte, or consumes an interruption from the script, or returns.
\<close>

subsection \<open>The loops\<close>

lemma sys_send_neg_script:
  assumes "run_state (sys_send fd bs) s = (r, s')" and "r < 0" and "errno s' = EINTR"
  shows "length (net_script s') < length (net_script s)"
  using assms
  by (auto simp: sys_send_def net_fault_def fail_def set_errno_def put_outbox_def
      split: if_splits list.splits fault.splits)

lemma sys_send_script:
  assumes "run_state (sys_send fd bs) s = (r, s')"
  shows "length (net_script s') \<le> length (net_script s)"
  using assms
  by (auto simp: sys_send_def net_fault_def fail_def set_errno_def put_outbox_def
      split: if_splits list.splits fault.splits)

lemma sys_recv_neg_script:
  assumes "run_state (sys_recv fd n) s = ((r, bs), s')" and "r < 0" and "errno s' = EINTR"
  shows "length (net_script s') < length (net_script s)"
  using assms
  by (auto simp: sys_recv_def net_fault_def fail_def set_errno_def drop_inbox_def Let_def
      split: if_splits list.splits fault.splits)

lemma sys_recv_script:
  assumes "run_state (sys_recv fd n) s = ((r, bs), s')"
  shows "length (net_script s') \<le> length (net_script s)"
  using assms
  by (auto simp: sys_recv_def net_fault_def fail_def set_errno_def drop_inbox_def Let_def
      split: if_splits list.splits fault.splits)

function send_all_loop :: "int \<Rightarrow> byte list \<Rightarrow> nat \<Rightarrow> 'z os_scheme \<Rightarrow> int \<times> 'z os_scheme" where
  "send_all_loop fd buffer total_sent s =
     (if total_sent < length buffer
      then (case run_state (sys_send fd (drop total_sent buffer)) s of (sent, s') \<Rightarrow>
              if sent < 0
              then (if errno s' = EINTR then send_all_loop fd buffer total_sent s' else (- 1, s'))
              else if sent = 0 then (- 1, s')
              else send_all_loop fd buffer (total_sent + nat sent) s')
      else (0, s))"
  by pat_completeness auto
termination
proof (relation "measure (\<lambda>(fd, buffer, total_sent, s).
    (length buffer - total_sent) + length (net_script s))", goal_cases)
  case 1
  show ?case by simp
next
  case (2 fd buffer total_sent s sent s')
  then show ?case using sys_send_neg_script [of fd "drop total_sent buffer" s sent s'] by simp
next
  case (3 fd buffer total_sent s sent s')
  then show ?case using sys_send_script [of fd "drop total_sent buffer" s sent s'] by simp
qed

definition send_all :: "int \<Rightarrow> byte list \<Rightarrow> ('z, int) sys" where
  "send_all fd buffer = State (send_all_loop fd buffer 0)"

text \<open>The receive loop also carries the bytes stored in the buffer so far.\<close>

function recv_all_loop :: "int \<Rightarrow> nat \<Rightarrow> nat \<Rightarrow> byte list \<Rightarrow> 'z os_scheme \<Rightarrow>
    (int \<times> byte list) \<times> 'z os_scheme" where
  "recv_all_loop fd len total_received got s =
     (if total_received < len
      then (case run_state (sys_recv fd (len - total_received)) s of ((received, bs), s') \<Rightarrow>
              if received < 0
              then (if errno s' = EINTR then recv_all_loop fd len total_received got s'
                    else ((- 1, got), s'))
              else if received = 0 then ((1, got), s')
              else recv_all_loop fd len (total_received + nat received) (got @ bs) s')
      else ((0, got), s))"
  by pat_completeness auto
termination
proof (relation "measure (\<lambda>(fd, len, total_received, got, s).
    (len - total_received) + length (net_script s))", goal_cases)
  case 1
  show ?case by simp
next
  case (2 fd len total got s x s' received bs)
  then show ?case using sys_recv_neg_script [of fd "len - total" s received bs s'] by simp
next
  case (3 fd len total got s x s' received bs)
  then show ?case using sys_recv_script [of fd "len - total" s received bs s'] by simp
qed

text \<open>The result and the bytes in the buffer (the first \<open>len\<close> of it when the result is 0).\<close>

definition recv_all :: "int \<Rightarrow> nat \<Rightarrow> ('z, int \<times> byte list) sys" where
  "recv_all fd len = State (recv_all_loop fd len 0 [])"

declare send_all_loop.simps [simp del] recv_all_loop.simps [simp del]

subsection \<open>What a call may change\<close>

text \<open>\<open>wrote fd p s s'\<close>: the only change is that \<open>p\<close> was appended to the outgoing
  stream of \<open>fd\<close>. \<open>took fd n s s'\<close>: the only change is that \<open>n\<close> bytes of its
  incoming stream are gone. (Either may also have set \<open>errno\<close> and used up script.)\<close>

definition wrote :: "int \<Rightarrow> byte list \<Rightarrow> 'z os_scheme \<Rightarrow> 'z os_scheme \<Rightarrow> bool" where
  "wrote fd p s s' \<longleftrightarrow> net_rest s' = net_rest s \<and>
     socks s' = (socks s)(fd := (socks s fd)\<lparr>outbox := outbox (socks s fd) @ p\<rparr>)"

definition took :: "int \<Rightarrow> nat \<Rightarrow> 'z os_scheme \<Rightarrow> 'z os_scheme \<Rightarrow> bool" where
  "took fd n s s' \<longleftrightarrow> net_rest s' = net_rest s \<and>
     socks s' = (socks s)(fd := (socks s fd)\<lparr>inbox := drop n (inbox (socks s fd))\<rparr>)"

lemma wrote_Nil: "net_rest s' = net_rest s \<Longrightarrow> socks s' = socks s \<Longrightarrow> wrote fd [] s s'"
  by (simp add: wrote_def)

lemma wrote_refl [simp]: "wrote fd [] s s"
  by (simp add: wrote_def)

lemma wrote_trans: "wrote fd p s t \<Longrightarrow> wrote fd q t u \<Longrightarrow> wrote fd (p @ q) s u"
  by (simp add: wrote_def)

lemma took_refl [simp]: "took fd 0 s s"
  by (simp add: took_def)

lemma took_trans: "took fd m s t \<Longrightarrow> took fd n t u \<Longrightarrow> took fd (m + n) s u"
  by (simp add: took_def add.commute)

lemma wroteD:
  assumes "wrote fd p s s'"
  shows "net_rest s' = net_rest s" and "outbox (socks s' fd) = outbox (socks s fd) @ p"
    and "fd' \<noteq> fd \<Longrightarrow> socks s' fd' = socks s fd'" and "inbox (socks s' x) = inbox (socks s x)"
    and "shut (socks s' x) = shut (socks s x)" and "fds s' = fds s" and "os.more s' = os.more s"
  using assms by (auto simp: wrote_def net_rest_def)

lemma tookD:
  assumes "took fd n s s'"
  shows "net_rest s' = net_rest s" and "inbox (socks s' fd) = drop n (inbox (socks s fd))"
    and "fd' \<noteq> fd \<Longrightarrow> socks s' fd' = socks s fd'" and "outbox (socks s' x) = outbox (socks s x)"
    and "shut (socks s' x) = shut (socks s x)" and "fds s' = fds s" and "os.more s' = os.more s"
  using assms by (auto simp: took_def net_rest_def)

lemma net_rest_is_sock: "net_rest s' = net_rest s \<Longrightarrow> is_sock s' fd \<longleftrightarrow> is_sock s fd"
  by (simp add: net_rest_def is_sock_def fd_obj_def)

subsection \<open>send and recv\<close>

lemmas sys_net_run = sys_send_def sys_recv_def net_fault_def fail_def set_errno_def
  put_outbox_def drop_inbox_def recv_amount_def Let_def

lemma sys_send_spec:
  assumes "run_state (sys_send fd bs) s = (r, s')"
  shows "r = -1 \<and> wrote fd [] s s' \<or>
    0 \<le> r \<and> nat r \<le> length bs \<and> wrote fd (take (nat r) bs) s s'"
  using assms
  by (auto simp: sys_net_run wrote_def net_rest_def min_def
      split: if_splits list.splits fault.splits)

lemma min_eq_0_iff: "min m n = (0::nat) \<longleftrightarrow> m = 0 \<or> n = 0"
  by (auto simp: min_def)

lemma sys_recv_spec:
  assumes "run_state (sys_recv fd n) s = ((r, bs), s')"
  shows "r = -1 \<and> bs = [] \<and> took fd 0 s s' \<or>
    0 \<le> r \<and> nat r \<le> n \<and> nat r \<le> length (inbox (socks s fd)) \<and>
    bs = take (nat r) (inbox (socks s fd)) \<and> took fd (nat r) s s' \<and>
    (r = 0 \<and> 0 < n \<longrightarrow> shut (socks s fd) \<or> inbox (socks s fd) = [])"
  using assms
  by (auto simp: sys_net_run took_def net_rest_def min_eq_0_iff
      split: if_splits list.splits fault.splits)

text \<open>Outcomes that delay a transfer without ending it.\<close>

fun soft :: "fault \<Rightarrow> bool" where
  "soft NoFault = True"
| "soft (Short k) = (0 < k)"
| "soft (Fault e) = (e = EINTR)"

definition calm :: "int \<Rightarrow> 'z os_scheme \<Rightarrow> bool" where
  "calm fd s \<longleftrightarrow> is_sock s fd \<and> \<not> shut (socks s fd) \<and> list_all soft (net_script s)"

lemma sys_send_calm:
  assumes "run_state (sys_send fd bs) s = (r, s')" and "calm fd s" and "bs \<noteq> []"
  shows "calm fd s' \<and> (r = -1 \<and> errno s' = EINTR \<or> 0 < r)"
  using assms
  by (auto simp: sys_net_run calm_def is_sock_def fd_obj_def
      split: if_splits list.splits fault.splits)

lemma sys_recv_calm:
  assumes "run_state (sys_recv fd n) s = ((r, bs), s')" and "calm fd s"
    and "0 < n" and "inbox (socks s fd) \<noteq> []"
  shows "calm fd s' \<and> (r = -1 \<and> errno s' = EINTR \<or> 0 < r)"
  using assms
  by (auto simp: sys_net_run calm_def is_sock_def fd_obj_def
      split: if_splits list.splits fault.splits)

subsection \<open>send_all\<close>

lemma send_all_loop_spec:
  assumes "send_all_loop fd buf n s = (r, s')" and "n \<le> length buf"
  shows "\<exists>p. wrote fd p s s' \<and>
    (r = 0 \<and> p = drop n buf \<or> r = -1 \<and> strict_prefix p (drop n buf))"
  using assms
proof (induction fd buf n s rule: send_all_loop.induct)
  case (1 fd buf n s)
  show ?case
  proof (cases "n < length buf")
    case False
    with "1.prems" show ?thesis by (simp add: send_all_loop.simps [of fd buf n s])
  next
    case True
    obtain k t where run: "run_state (sys_send fd (drop n buf)) s = (k, t)" by fastforce
    note step = sys_send_spec [OF run] and eq = "1.prems"(1) [unfolded send_all_loop.simps [of fd buf n s]]
    consider (intr) "k < 0" "errno t = EINTR" | (err) "k < 0" "errno t \<noteq> EINTR"
      | (zero) "k = 0" | (more) "0 < k" by linarith
    then show ?thesis
    proof cases
      case intr
      with eq True run have "send_all_loop fd buf n t = (r, s')" by simp
      from "1.IH"(1) [OF True run [symmetric] intr this] "1.prems"(2)
      obtain p where "wrote fd p t s'" and "r = 0 \<and> p = drop n buf \<or> r = -1 \<and> strict_prefix p (drop n buf)"
        by blast
      moreover from step intr have "wrote fd [] s t" by auto
      ultimately show ?thesis using wrote_trans [of fd "[]" s t p s'] by auto
    next
      case err
      with eq True run step show ?thesis by (auto simp: strict_prefix_def intro!: exI [of _ "[]"])
    next
      case zero
      with eq True run step show ?thesis by (auto simp: strict_prefix_def intro!: exI [of _ "[]"])
    next
      case more
      with eq True run have rec: "send_all_loop fd buf (n + nat k) t = (r, s')" by simp
      from step more have k: "nat k \<le> length buf - n" and w: "wrote fd (take (nat k) (drop n buf)) s t"
        by auto
      from more have "\<not> k < 0" "k \<noteq> 0" by auto
      moreover from k True have "n + nat k \<le> length buf" by linarith
      ultimately obtain p where p: "wrote fd p t s'"
        and cases: "r = 0 \<and> p = drop (n + nat k) buf \<or> r = -1 \<and> strict_prefix p (drop (n + nat k) buf)"
        using "1.IH"(2) [OF True run [symmetric] _ _ rec] by blast
      have split: "drop n buf = take (nat k) (drop n buf) @ drop (n + nat k) buf"
        by (metis append_take_drop_id drop_drop add.commute)
      have "wrote fd (take (nat k) (drop n buf) @ p) s s'"
        by (rule wrote_trans [OF w p])
      moreover have "r = 0 \<and> take (nat k) (drop n buf) @ p = drop n buf \<or>
          r = -1 \<and> strict_prefix (take (nat k) (drop n buf) @ p) (drop n buf)"
        using cases split by (metis same_prefix_prefix strict_prefix_def append_same_eq same_append_eq)
      ultimately show ?thesis by blast
    qed
  qed
qed

lemma send_all_wrote:
  assumes "run_state (send_all fd buf) s = (r, s')"
  obtains p where "wrote fd p s s'" and "r = 0 \<and> p = buf \<or> r = -1 \<and> strict_prefix p buf"
  using send_all_loop_spec [of fd buf 0 s r s'] assms by (auto simp: send_all_def)

lemma send_all_loop_calm:
  assumes "calm fd s" and "n \<le> length buf"
  shows "fst (send_all_loop fd buf n s) = 0 \<and> calm fd (snd (send_all_loop fd buf n s))"
  using assms
proof (induction fd buf n s rule: send_all_loop.induct)
  case (1 fd buf n s)
  show ?case
  proof (cases "n < length buf")
    case False
    then have "send_all_loop fd buf n s = (0, s)" by (subst send_all_loop.simps) simp
    with "1.prems" show ?thesis by simp
  next
    case True
    obtain k t where run: "run_state (sys_send fd (drop n buf)) s = (k, t)" by fastforce
    from sys_send_calm [OF run "1.prems"(1)] True
    have t: "calm fd t" and k: "k = -1 \<and> errno t = EINTR \<or> 0 < k" by auto
    from k show ?thesis
    proof
      assume "k = -1 \<and> errno t = EINTR"
      with "1.IH"(1) [OF True run [symmetric]] t "1.prems"(2) True run show ?thesis
        by (simp add: send_all_loop.simps [of fd buf n s])
    next
      assume pos: "0 < k"
      from sys_send_spec [OF run] pos True have "n + nat k \<le> length buf" by auto
      with "1.IH"(2) [OF True run [symmetric]] t pos True run show ?thesis
        by (simp add: send_all_loop.simps [of fd buf n s])
    qed
  qed
qed

lemma send_all_calm:
  assumes "calm fd s"
  obtains s' where "run_state (send_all fd buf) s = (0, s')" and "wrote fd buf s s'" and "calm fd s'"
proof -
  obtain r s' where run: "run_state (send_all fd buf) s = (r, s')" by fastforce
  with send_all_loop_calm [OF assms, of 0 buf] have "r = 0" and "calm fd s'"
    by (auto simp: send_all_def)
  with run send_all_wrote [OF run] that show ?thesis by auto
qed

subsection \<open>recv_all\<close>

lemma recv_all_loop_spec:
  assumes "recv_all_loop fd len n got s = ((r, bs), s')" and "n \<le> len"
  shows "\<exists>k. n + k \<le> len \<and> k \<le> length (inbox (socks s fd)) \<and>
    bs = got @ take k (inbox (socks s fd)) \<and> took fd k s s' \<and>
    (r = 0 \<and> n + k = len \<or>
     r = 1 \<and> n + k < len \<and> (shut (socks s fd) \<or> k = length (inbox (socks s fd))) \<or>
     r = -1 \<and> n + k < len)"
  using assms
proof (induction fd len n got s rule: recv_all_loop.induct)
  case (1 fd len n got s)
  show ?case
  proof (cases "n < len")
    case False
    with "1.prems" show ?thesis by (simp add: recv_all_loop.simps [of fd len n got s])
  next
    case True
    obtain k b t where run: "run_state (sys_recv fd (len - n)) s = ((k, b), t)"
      by (metis prod_cases3 surj_pair)
    note step = sys_recv_spec [OF run]
      and eq = "1.prems"(1) [unfolded recv_all_loop.simps [of fd len n got s]]
    consider (intr) "k < 0" "errno t = EINTR" | (err) "k < 0" "errno t \<noteq> EINTR"
      | (eof) "k = 0" | (more) "0 < k" by linarith
    then show ?thesis
    proof cases
      case intr
      with eq True run have rec: "recv_all_loop fd len n got t = ((r, bs), s')" by simp
      from step intr have t: "took fd 0 s t" by auto
      then have same: "socks t fd = socks s fd" by (simp add: took_def)
      from "1.IH"(1) [OF True run [symmetric] refl intr rec] "1.prems"(2)
      obtain j where "n + j \<le> len" "j \<le> length (inbox (socks s fd))"
          "bs = got @ take j (inbox (socks s fd))" "took fd j t s'"
          "r = 0 \<and> n + j = len \<or>
           r = 1 \<and> n + j < len \<and> (shut (socks s fd) \<or> j = length (inbox (socks s fd))) \<or>
           r = -1 \<and> n + j < len"
        unfolding same by blast
      with took_trans [OF t this(4)] show ?thesis by (intro exI [of _ j]) simp
    next
      case err
      with eq True run step show ?thesis by (auto intro!: exI [of _ 0])
    next
      case eof
      with eq True run step show ?thesis by (auto intro!: exI [of _ 0])
    next
      case more
      with eq True run have rec: "recv_all_loop fd len (n + nat k) (got @ b) t = ((r, bs), s')"
        by simp
      from step more have k: "nat k \<le> len - n" "nat k \<le> length (inbox (socks s fd))"
        and b: "b = take (nat k) (inbox (socks s fd))" and t: "took fd (nat k) s t" by auto
      from more have "\<not> k < 0" "k \<noteq> 0" by auto
      moreover from k True have "n + nat k \<le> len" by linarith
      ultimately obtain j where j: "n + nat k + j \<le> len" "j \<le> length (inbox (socks t fd))"
          "bs = got @ b @ take j (inbox (socks t fd))" "took fd j t s'"
        and cases: "r = 0 \<and> n + nat k + j = len \<or>
          r = 1 \<and> n + nat k + j < len \<and> (shut (socks t fd) \<or> j = length (inbox (socks t fd))) \<or>
          r = -1 \<and> n + nat k + j < len"
        using "1.IH"(2) [OF True run [symmetric] refl _ _ rec] unfolding append_assoc by blast
      have "b @ take j (inbox (socks t fd)) = take (nat k + j) (inbox (socks s fd))"
        using b tookD(2) [OF t] by (simp add: take_add)
      with j cases k tookD [OF t] took_trans [OF t j(4)] show ?thesis
        by (intro exI [of _ "nat k + j"]) auto
    qed
  qed
qed

lemma recv_all_took:
  assumes "run_state (recv_all fd len) s = ((r, bs), s')"
  obtains k where "took fd k s s'" and "k \<le> len" and "k \<le> length (inbox (socks s fd))"
    and "bs = take k (inbox (socks s fd))"
    and "r = 0 \<and> k = len \<or>
      r = 1 \<and> k < len \<and> (shut (socks s fd) \<or> k = length (inbox (socks s fd))) \<or>
      r = -1 \<and> k < len"
  using recv_all_loop_spec [of fd len 0 "[]" s r bs s'] assms by (auto simp: recv_all_def)

lemma recv_all_loop_calm:
  assumes "calm fd s" and "n \<le> len" and "len - n \<le> length (inbox (socks s fd))"
  shows "fst (fst (recv_all_loop fd len n got s)) = 0 \<and> calm fd (snd (recv_all_loop fd len n got s))"
  using assms
proof (induction fd len n got s rule: recv_all_loop.induct)
  case (1 fd len n got s)
  show ?case
  proof (cases "n < len")
    case False
    then have "recv_all_loop fd len n got s = ((0, got), s)" by (subst recv_all_loop.simps) simp
    with "1.prems" show ?thesis by simp
  next
    case True
    obtain k b t where run: "run_state (sys_recv fd (len - n)) s = ((k, b), t)"
      by (metis prod_cases3 surj_pair)
    have "inbox (socks s fd) \<noteq> []" using True "1.prems"(3) by auto
    with sys_recv_calm [OF run "1.prems"(1)] True
    have t: "calm fd t" and k: "k = -1 \<and> errno t = EINTR \<or> 0 < k" by auto
    note unfold = recv_all_loop.simps [of fd len n got s] and step = sys_recv_spec [OF run]
    from k show ?thesis
    proof
      assume neg: "k = -1 \<and> errno t = EINTR"
      with step have "socks t fd = socks s fd" by (auto simp: took_def)
      with "1.IH"(1) [OF True run [symmetric] refl] neg t "1.prems" True run show ?thesis
        by (simp add: unfold)
    next
      assume pos: "0 < k"
      from step pos have took: "took fd (nat k) s t" and "nat k \<le> len - n" by auto
      with True "1.prems"(3) tookD(2) [OF took]
      have "n + nat k \<le> len" and "len - (n + nat k) \<le> length (inbox (socks t fd))" by auto
      with "1.IH"(2) [OF True run [symmetric] refl] t pos True run show ?thesis
        by (simp add: unfold)
    qed
  qed
qed

lemma recv_all_calm:
  assumes "calm fd s" and "len \<le> length (inbox (socks s fd))"
  obtains s' where "run_state (recv_all fd len) s = ((0, take len (inbox (socks s fd))), s')"
    and "took fd len s s'" and "calm fd s'"
proof -
  obtain r bs s' where run: "run_state (recv_all fd len) s = ((r, bs), s')"
    by (metis prod_cases3 surj_pair)
  with recv_all_loop_calm [OF assms(1), of 0 len "[]"] assms(2) have "r = 0" and "calm fd s'"
    by (auto simp: recv_all_def)
  from recv_all_took [OF run] \<open>r = 0\<close> obtain "took fd len s s'"
    and "bs = take len (inbox (socks s fd))" by auto
  with run \<open>r = 0\<close> \<open>calm fd s'\<close> that show ?thesis by simp
qed

end
