(* ===== verification/Protocol.thy ===== *)
theory Protocol
  imports C_Lib
begin

section \<open>Protocol constants and validators\<close>

text \<open>
  \<open>include/common/protocol.h\<close>, \<open>src/common/protocol.c\<close>,
  \<open>include/common/file_transfer.h\<close> and \<open>src/common/file_transfer.c\<close>: message types,
  size limits, and the validators for message types, user names and shared file names.
  The lemmas say exactly which values each validator accepts, and that an accepted file
  name is a plain visible basename.
\<close>

subsection \<open>protocol.h and file_transfer.h\<close>

definition MESSAGE_MAX_SIZE :: nat where "MESSAGE_MAX_SIZE = 4096"
definition USERNAME_MAX_SIZE :: nat where "USERNAME_MAX_SIZE = 32"

definition MSG_LOGIN :: u32 where "MSG_LOGIN = 1"
definition MSG_CHAT :: u32 where "MSG_CHAT = 2"
definition MSG_DISCONNECT :: u32 where "MSG_DISCONNECT = 3"
definition MSG_UPLOAD :: u32 where "MSG_UPLOAD = 4"
definition MSG_DOWNLOAD :: u32 where "MSG_DOWNLOAD = 5"
definition MSG_LIST_FILES :: u32 where "MSG_LIST_FILES = 6"
definition MSG_RESPONSE :: u32 where "MSG_RESPONSE = 7"
definition MSG_ERROR :: u32 where "MSG_ERROR = 8"
definition MSG_BROADCAST :: u32 where "MSG_BROADCAST = 9"
definition MSG_USERLIST :: u32 where "MSG_USERLIST = 10"
definition MSG_LIST_USERS :: u32 where "MSG_LIST_USERS = 11"
definition MSG_PRIVATE :: u32 where "MSG_PRIVATE = 12"
definition MSG_FILELIST :: u32 where "MSG_FILELIST = 13"

lemmas msg_defs = MSG_LOGIN_def MSG_CHAT_def MSG_DISCONNECT_def MSG_UPLOAD_def MSG_DOWNLOAD_def
  MSG_LIST_FILES_def MSG_RESPONSE_def MSG_ERROR_def MSG_BROADCAST_def MSG_USERLIST_def
  MSG_LIST_USERS_def MSG_PRIVATE_def MSG_FILELIST_def

definition FILE_CHUNK_SIZE :: nat where "FILE_CHUNK_SIZE = 8192"
definition FILE_NAME_MAX_SIZE :: nat where "FILE_NAME_MAX_SIZE = 128"
definition FILE_MAX_SIZE :: nat where "FILE_MAX_SIZE = 50 * 1024 * 1024"
definition FILE_STORAGE_DIRECTORY :: string where "FILE_STORAGE_DIRECTORY = ''storage''"
definition FILE_DOWNLOAD_DIRECTORY :: string where "FILE_DOWNLOAD_DIRECTORY = ''downloads''"

subsection \<open>Validators\<close>

definition is_valid_message_type :: "u32 \<Rightarrow> bool" where
  "is_valid_message_type t \<longleftrightarrow>
     t = MSG_LOGIN \<or> t = MSG_CHAT \<or> t = MSG_DISCONNECT \<or> t = MSG_UPLOAD \<or> t = MSG_DOWNLOAD \<or>
     t = MSG_LIST_FILES \<or> t = MSG_RESPONSE \<or> t = MSG_ERROR \<or> t = MSG_BROADCAST \<or>
     t = MSG_USERLIST \<or> t = MSG_LIST_USERS \<or> t = MSG_PRIVATE \<or> t = MSG_FILELIST"

text \<open>The validators' loops return 0 at the first bad character and 1 at the end.\<close>

fun username_chars_ok :: "string \<Rightarrow> bool" where
  "username_chars_ok [] = True"
| "username_chars_ok (c # cs) =
     (if \<not> isalnum c \<and> c \<noteq> CHR ''_'' then False else username_chars_ok cs)"

definition is_valid_username :: "string \<Rightarrow> bool" where
  "is_valid_username username =
     (if length username = 0 \<or> length username \<ge> USERNAME_MAX_SIZE then False
      else username_chars_ok username)"

fun filename_chars_ok :: "string \<Rightarrow> bool" where
  "filename_chars_ok [] = True"
| "filename_chars_ok (c # cs) =
     (if \<not> isalnum c \<and> c \<noteq> CHR ''_'' \<and> c \<noteq> CHR ''-'' \<and> c \<noteq> CHR ''.'' then False
      else filename_chars_ok cs)"

definition is_valid_shared_filename :: "string \<Rightarrow> bool" where
  "is_valid_shared_filename filename =
     (if length filename = 0 \<or> length filename \<ge> FILE_NAME_MAX_SIZE then False
      else if \<not> isalnum (hd filename) \<and> hd filename \<noteq> CHR ''_'' then False
      else if strstr filename ''..'' then False
      else filename_chars_ok filename)"

text \<open>Evaluation compares with the large constants in binary.\<close>

lemma FILE_MAX_SIZE_less [code_unfold]: "FILE_MAX_SIZE < n \<longleftrightarrow> 52428800 < int n"
  by (simp add: FILE_MAX_SIZE_def)

lemma ULLONG_MAX_less [code_unfold]: "ULLONG_MAX < n \<longleftrightarrow> 18446744073709551615 < int n"
  by (simp add: ULLONG_MAX_def)

subsection \<open>What the validators accept\<close>

lemma valid_msg_types [simp]:
  "is_valid_message_type MSG_LOGIN" "is_valid_message_type MSG_CHAT"
  "is_valid_message_type MSG_DISCONNECT" "is_valid_message_type MSG_UPLOAD"
  "is_valid_message_type MSG_DOWNLOAD" "is_valid_message_type MSG_LIST_FILES"
  "is_valid_message_type MSG_RESPONSE" "is_valid_message_type MSG_ERROR"
  "is_valid_message_type MSG_BROADCAST" "is_valid_message_type MSG_USERLIST"
  "is_valid_message_type MSG_LIST_USERS" "is_valid_message_type MSG_PRIVATE"
  "is_valid_message_type MSG_FILELIST"
  by (simp_all add: is_valid_message_type_def)

lemma username_chars_ok_iff:
  "username_chars_ok s \<longleftrightarrow> (\<forall>c \<in> set s. isalnum c \<or> c = CHR ''_'')"
  by (induction s) auto

lemma filename_chars_ok_iff:
  "filename_chars_ok s \<longleftrightarrow>
     (\<forall>c \<in> set s. isalnum c \<or> c = CHR ''_'' \<or> c = CHR ''-'' \<or> c = CHR ''.'')"
  by (induction s) auto

lemma is_valid_username_iff:
  "is_valid_username s \<longleftrightarrow>
     0 < length s \<and> length s < 32 \<and> (\<forall>c \<in> set s. isalnum c \<or> c = CHR ''_'')"
  by (auto simp: is_valid_username_def username_chars_ok_iff USERNAME_MAX_SIZE_def)

lemma valid_username_cstr: "is_valid_username s \<Longrightarrow> is_cstr s"
  by (auto simp: is_valid_username_iff is_cstr_def NUL_def ctype_defs)

lemma valid_username_length: "is_valid_username s \<Longrightarrow> 0 < length s \<and> length s \<le> 31"
  by (auto simp: is_valid_username_iff)

lemma valid_username_chars:
  "is_valid_username s \<Longrightarrow> CHR '' '' \<notin> set s \<and> CHR 0x0A \<notin> set s \<and> CHR '':'' \<notin> set s"
  by (auto simp: is_valid_username_iff ctype_defs)

lemma is_valid_shared_filename_iff:
  "is_valid_shared_filename s \<longleftrightarrow>
     0 < length s \<and> length s < 128 \<and> (isalnum (hd s) \<or> hd s = CHR ''_'') \<and>
     \<not> (\<exists>p q. s = p @ ''..'' @ q) \<and>
     (\<forall>c \<in> set s. isalnum c \<or> c = CHR ''_'' \<or> c = CHR ''-'' \<or> c = CHR ''.'')"
  unfolding is_valid_shared_filename_def filename_chars_ok_iff FILE_NAME_MAX_SIZE_def
    strstr_iff [symmetric]
  by auto

lemma valid_filename_chars:
  assumes "is_valid_shared_filename s"
  shows "CHR ''/'' \<notin> set s" "CHR 0x5C \<notin> set s" "CHR ''|'' \<notin> set s" "CHR '' '' \<notin> set s"
    "NUL \<notin> set s"
  using assms by (auto simp: is_valid_shared_filename_iff ctype_defs NUL_def)

lemma valid_filename_cstr: "is_valid_shared_filename s \<Longrightarrow> is_cstr s"
  by (simp add: is_cstr_def valid_filename_chars)

lemma valid_filename_length:
  "is_valid_shared_filename s \<Longrightarrow> 0 < length s \<and> length s \<le> 127"
  by (auto simp: is_valid_shared_filename_iff)

lemma valid_filename_hd: "is_valid_shared_filename s \<Longrightarrow> hd s \<noteq> CHR ''.''"
  by (auto simp: is_valid_shared_filename_iff ctype_defs)

end
