(* ===== verification/Framing.thy ===== *)
theory Framing
  imports Network_IO Protocol
begin

section \<open>Application frames\<close>

text \<open>
  A message on the wire is \<open>message_header_t\<close> (type and length, both through
  \<open>htonl\<close>) followed by the payload. The repository has four copies of the code that
  sends one (\<open>send_message_raw\<close> in \<open>client_manager.c\<close>, \<open>send_message\<close> in
  \<open>client_handler.c\<close> and in the client's \<open>main.c\<close>, \<open>send_text_frame\<close> in
  \<open>upload_client.c\<close>) and two that receive one. The locales state what a sender and a
  receiver promise; every copy interprets them, and what the two ends guarantee together
  is proved once, in \<open>frame_channel\<close>.
\<close>

subsection \<open>The header\<close>

record message_header_t =
  type_field :: u32
  length_field :: u32

text \<open>The four bytes of \<open>htonl (w)\<close> in memory, and \<open>ntohl\<close> of four such bytes.\<close>

definition htonl_bytes :: "u32 \<Rightarrow> byte list" where
  "htonl_bytes w = map (\<lambda>k. char_of (unat (drop_bit k w))) [24, 16, 8, 0]"

definition ntohl_bytes :: "byte list \<Rightarrow> u32" where
  "ntohl_bytes bs = of_nat (foldl (\<lambda>v b. 256 * v + of_char b) 0 bs)"

definition header_bytes :: "message_header_t \<Rightarrow> byte list" where
  "header_bytes h = htonl_bytes (type_field h) @ htonl_bytes (length_field h)"

definition parse_header :: "byte list \<Rightarrow> message_header_t" where
  "parse_header bs = \<lparr>type_field = ntohl_bytes (take 4 bs),
     length_field = ntohl_bytes (take 4 (drop 4 bs))\<rparr>"

definition HEADER_SIZE :: nat where "HEADER_SIZE = 8"

lemma length_htonl_bytes [simp]: "length (htonl_bytes w) = 4"
  by (simp add: htonl_bytes_def)

lemma nat_base256:
  fixes n :: nat
  shows "256 * (256 * (256 * (n div 16777216) + n div 65536 mod 256) + n div 256 mod 256)
    + n mod 256 = n"
proof -
  have d2: "n div 65536 = n div 256 div 256" and d3: "n div 16777216 = n div 256 div 256 div 256"
    by (simp_all add: div_mult2_eq [symmetric])
  show ?thesis unfolding d2 d3 by simp
qed

lemma unat_drop_bit_div: "unat (drop_bit k w :: u32) = unat w div 2 ^ k"
  by (subst unat_drop_bit_eq) (rule drop_bit_eq_div)

lemma ntohl_htonl [simp]: "ntohl_bytes (htonl_bytes w) = w"
proof -
  have "unat w div 16777216 < 256" using unsigned_less [of w, where ?'a = nat] by simp
  then have top: "unat w div 16777216 mod 256 = unat w div 16777216" by simp
  have "foldl (\<lambda>v b. 256 * v + of_char b) 0 (htonl_bytes w) = unat w"
    using nat_base256 [of "unat w"]
    by (simp add: htonl_bytes_def unat_drop_bit_div top)
  then show ?thesis by (simp add: ntohl_bytes_def)
qed

lemma char_of_of_char_add: "char_of (256 * n + of_char c :: nat) = c"
  by (metis char_of_mod_256 char_of_char mod_mult_self4)

lemma div_256: "(u::nat) < 256 \<Longrightarrow> (256 * n + u) div 256 = n"
  by simp

lemma htonl_ntohl:
  assumes "length bs = 4"
  shows "htonl_bytes (ntohl_bytes bs) = bs"
proof -
  obtain a b c d where bs: "bs = [a, b, c, d]"
    using assms by (auto simp: length_Suc_conv numeral_eq_Suc)
  define v2 v3 v :: nat where "v2 = 256 * of_char a + of_char b" and "v3 = 256 * v2 + of_char c"
    and "v = 256 * v3 + of_char d"
  have lt: "of_char x < (256::nat)" for x by simp
  have "v2 < 65536" using lt [of a] lt [of b] unfolding v2_def by linarith
  then have "v3 < 16777216" using lt [of c] unfolding v3_def by linarith
  then have "v < 4294967296" using lt [of d] unfolding v_def by linarith
  then have un: "unat (of_nat v :: u32) = v" by (simp add: unat_of_nat)
  have d1: "v div 256 = v3" unfolding v_def by (rule div_256 [OF lt])
  have "v3 div 256 = v2" unfolding v3_def by (rule div_256 [OF lt])
  with d1 have d2: "v div 65536 = v2" using div_mult2_eq [of v 256 256] by simp
  have "v2 div 256 = of_char a" unfolding v2_def by (rule div_256 [OF lt])
  with d2 have d3: "v div 16777216 = of_char a" using div_mult2_eq [of v 65536 256] by simp
  have "ntohl_bytes bs = of_nat v"
    by (simp add: bs ntohl_bytes_def v_def v3_def v2_def)
  then have "htonl_bytes (ntohl_bytes bs) = [char_of (of_char a :: nat), char_of v2, char_of v3, char_of v]"
    by (simp add: htonl_bytes_def un unat_drop_bit_div d1 d2 d3)
  also have "\<dots> = bs"
    unfolding v_def v3_def v2_def char_of_of_char_add by (simp add: bs)
  finally show ?thesis .
qed

lemma parse_header_bytes [simp]: "parse_header (header_bytes h @ xs) = h"
  by (simp add: parse_header_def header_bytes_def)

lemma header_bytes_parse: "length bs = 8 \<Longrightarrow> header_bytes (parse_header bs) = bs"
  by (simp add: parse_header_def header_bytes_def htonl_ntohl)

lemma length_header_bytes [simp]: "length (header_bytes h) = 8"
  by (simp add: header_bytes_def)

subsection \<open>A whole frame\<close>

definition frame :: "u32 \<Rightarrow> byte list \<Rightarrow> byte list" where
  "frame t payload =
     header_bytes \<lparr>type_field = t, length_field = of_nat (length payload)\<rparr> @ payload"

lemma length_frame [simp]: "length (frame t p) = 8 + length p"
  by (simp add: frame_def)

lemma unat_payload_length: "length p \<le> MESSAGE_MAX_SIZE \<Longrightarrow> unat (of_nat (length p) :: u32) = length p"
  by (simp add: unat_of_nat MESSAGE_MAX_SIZE_def)

lemma take_frame [simp]: "take 8 (frame t p @ xs) =
    header_bytes \<lparr>type_field = t, length_field = of_nat (length p)\<rparr>"
  by (simp add: frame_def)

lemma drop_frame [simp]: "drop 8 (frame t p @ xs) = p @ xs"
  by (simp add: frame_def)

lemma frame_inject:
  assumes "frame t p @ xs = frame u q @ ys" and "length p \<le> MESSAGE_MAX_SIZE" "length q \<le> MESSAGE_MAX_SIZE"
  shows "t = u \<and> p = q \<and> xs = ys"
proof -
  have "parse_header (frame t p @ xs) = parse_header (frame u q @ ys)" by (simp add: assms(1))
  then have eq: "t = u" and "(of_nat (length p) :: u32) = of_nat (length q)"
    by (auto simp: frame_def)
  then have len: "length p = length q" using assms(2,3) unat_payload_length by metis
  have "p @ xs = q @ ys" using arg_cong [OF assms(1), of "drop 8"] by (simp only: drop_frame)
  with len eq show ?thesis by simp
qed

subsection \<open>Header first, payload second\<close>

lemma strict_prefix_append: "strict_prefix p q \<Longrightarrow> strict_prefix p (q @ r)"
  by (auto simp: strict_prefix_def)

lemma strict_prefix_same: "strict_prefix p q \<Longrightarrow> strict_prefix (r @ p) (r @ q)"
  by (auto simp: strict_prefix_def)

text \<open>Two consecutive \<open>send_all\<close> calls: all of both, or a proper prefix of the whole.\<close>

lemma two_sends:
  assumes "run_state (do { r \<leftarrow> send_all fd a; if r \<noteq> 0 then ret (- 1) else send_all fd b }) s = (r, s')"
  obtains w where "wrote fd w s s'" and "r = 0 \<and> w = a @ b \<or> r = -1 \<and> strict_prefix w (a @ b)"
proof -
  obtain x t where x: "run_state (send_all fd a) s = (x, t)" by fastforce
  from send_all_wrote [OF x] obtain p where p: "wrote fd p s t"
    and px: "x = 0 \<and> p = a \<or> x = -1 \<and> strict_prefix p a" by blast
  show thesis
  proof (cases "x = 0")
    case False
    with px assms x p show thesis by (auto intro: that strict_prefix_append)
  next
    case True
    with assms x have y: "run_state (send_all fd b) t = (r, s')" by simp
    from send_all_wrote [OF y] obtain q where q: "wrote fd q t s'"
      and "r = 0 \<and> q = b \<or> r = -1 \<and> strict_prefix q b" by blast
    with px True wrote_trans [OF p q] show thesis by (auto intro: that strict_prefix_same)
  qed
qed

lemma two_sends_calm:
  assumes "calm fd s"
  shows "\<exists>s'. run_state (do { r \<leftarrow> send_all fd a; if r \<noteq> 0 then ret (- 1) else send_all fd b }) s = (0, s')
    \<and> calm fd s'"
proof -
  from send_all_calm [OF assms, of a] obtain t where
    a: "run_state (send_all fd a) s = (0, t)" and "calm fd t" by blast
  from send_all_calm [OF this(2), of b] obtain s' where
    "run_state (send_all fd b) t = (0, s')" and "calm fd s'" by blast
  with a show ?thesis by simp
qed

lemma send_all_empty [simp]: "run_state (send_all fd []) s = (0, s)"
  by (simp add: send_all_def send_all_loop.simps)

lemma send_all_result:
  assumes "run_state (send_all fd a) s = (r, s')"
  shows "r = 0 \<or> r = -1"
  using send_all_wrote [OF assms] by blast

subsection \<open>Senders\<close>

locale frame_sender =
  fixes send_frame :: "int \<Rightarrow> u32 \<Rightarrow> string \<Rightarrow> ('z, int) sys"
    and accepts :: "u32 \<Rightarrow> bool"
  assumes refuse: "\<not> accepts t \<or> MESSAGE_MAX_SIZE < length p \<Longrightarrow>
      run_state (send_frame fd t p) s = (-1, s)"
    and header_then_payload: "accepts t \<Longrightarrow> length p \<le> MESSAGE_MAX_SIZE \<Longrightarrow>
      run_state (send_frame fd t p) s =
      run_state (do { r \<leftarrow> send_all fd (header_bytes \<lparr>type_field = t, length_field = of_nat (length p)\<rparr>);
                      if r \<noteq> 0 then ret (- 1) else send_all fd p }) s"
begin

text \<open>A frame goes out whole when the result is 0; otherwise a proper prefix of it went out.\<close>

lemma sends:
  assumes "accepts t" and "length p \<le> MESSAGE_MAX_SIZE"
    and "run_state (send_frame fd t p) s = (r, s')"
  obtains w where "wrote fd w s s'" and "r = 0 \<and> w = frame t p \<or> r = -1 \<and> strict_prefix w (frame t p)"
  using two_sends [OF assms(3) [unfolded header_then_payload [OF assms(1,2)]]]
  unfolding frame_def by blast

lemma lively:
  assumes "accepts t" and "length p \<le> MESSAGE_MAX_SIZE" and "calm fd s"
  obtains s' where "run_state (send_frame fd t p) s = (0, s')" and "wrote fd (frame t p) s s'"
    and "calm fd s'"
proof -
  from two_sends_calm [OF assms(3)] obtain s' where
    run: "run_state (send_frame fd t p) s = (0, s')" and "calm fd s'"
    unfolding header_then_payload [OF assms(1,2)] by blast
  from sends [OF assms(1,2) run] have "wrote fd (frame t p) s s'" by auto
  with run \<open>calm fd s'\<close> that show ?thesis by blast
qed

text \<open>Whatever happens, only a prefix of the frame reaches the wire, and only this socket's.\<close>

lemma any:
  assumes "run_state (send_frame fd t p) s = (r, s')"
  obtains w where "wrote fd w s s'" and "prefix w (frame t p)"
    and "r = 0 \<longleftrightarrow> w = frame t p" and "r = 0 \<or> r = -1"
    and "r = 0 \<Longrightarrow> accepts t \<and> length p \<le> MESSAGE_MAX_SIZE"
proof (cases "accepts t \<and> length p \<le> MESSAGE_MAX_SIZE")
  case True
  then have ok: "accepts t" "length p \<le> MESSAGE_MAX_SIZE" by auto
  from sends [OF ok assms] obtain w where "wrote fd w s s'"
    and "r = 0 \<and> w = frame t p \<or> r = -1 \<and> strict_prefix w (frame t p)" by blast
  then show ?thesis using True by (intro that [of w]) (auto simp: strict_prefix_def)
next
  case False
  with assms have "r = -1" and "s' = s" using refuse [of t p fd s] by auto
  moreover have "frame t p \<noteq> []" using length_frame [of t p] by (auto simp del: length_frame)
  ultimately show ?thesis by (intro that [of "[]"]) auto
qed

end

subsection \<open>Receivers\<close>

text \<open>All that is promised about a message that is not accepted: some of the stream is gone.\<close>

definition drew :: "int \<Rightarrow> nat \<Rightarrow> 'z os_scheme \<Rightarrow> 'z os_scheme \<Rightarrow> bool" where
  "drew fd k s s' \<longleftrightarrow>
     socks s' = (socks s)(fd := (socks s fd)\<lparr>inbox := drop k (inbox (socks s fd))\<rparr>)"

lemma took_drew: "took fd k s s' \<Longrightarrow> drew fd k s s'"
  by (simp add: took_def drew_def)

locale frame_receiver =
  fixes recv_frame :: "int \<Rightarrow> ('z, int \<times> u32 \<times> byte list) sys"
  assumes accept_sound: "run_state (recv_frame fd) s = ((0, t, p), s') \<Longrightarrow>
      is_valid_message_type t \<and> length p \<le> MESSAGE_MAX_SIZE \<and>
      inbox (socks s fd) = frame t p @ inbox (socks s' fd) \<and> took fd (8 + length p) s s'"
    and accept_complete: "calm fd s \<Longrightarrow> is_valid_message_type t \<Longrightarrow> length p \<le> MESSAGE_MAX_SIZE \<Longrightarrow>
      inbox (socks s fd) = frame t p @ rest \<Longrightarrow>
      \<exists>s'. run_state (recv_frame fd) s = ((0, t, p), s') \<and> calm fd s'"
    and reject: "run_state (recv_frame fd) s = ((r, t, p), s') \<Longrightarrow> r \<noteq> 0 \<Longrightarrow>
      (r = 1 \<or> r = -1) \<and> (\<exists>k. drew fd k s s')"
begin

text \<open>Every accepted message uses up part of the stream, so a receive loop makes progress.\<close>

lemma progress:
  assumes "run_state (recv_frame fd) s = ((0, t, p), s')"
  shows "length (inbox (socks s' fd)) < length (inbox (socks s fd))"
  using accept_sound [OF assms] by auto

lemma drew_some:
  assumes "run_state (recv_frame fd) s = ((r, t, p), s')"
  obtains k where "drew fd k s s'"
  using assms accept_sound [of fd s t p s'] reject [OF assms] by (cases "r = 0") (auto dest: took_drew)

end

text \<open>Both ends of a connection: what one end has written is what the other end reads.\<close>

locale frame_channel = frame_sender send_frame accepts + frame_receiver recv_frame
  for send_frame :: "int \<Rightarrow> u32 \<Rightarrow> string \<Rightarrow> ('z, int) sys" and accepts :: "u32 \<Rightarrow> bool"
    and recv_frame :: "int \<Rightarrow> ('y, int \<times> u32 \<times> byte list) sys" +
  assumes accepts_valid: "is_valid_message_type t \<Longrightarrow> accepts t"
begin

lemma delivered:
  assumes "run_state (send_frame fd t p) s = (0, s')" and "outbox (socks s fd) = []"
    and "is_valid_message_type t" and "calm fd' u" and "inbox (socks u fd') = outbox (socks s' fd) @ rest"
  shows "\<exists>u'. run_state (recv_frame fd') u = ((0, t, p), u') \<and> inbox (socks u' fd') = rest"
proof -
  from any [OF assms(1)] obtain "wrote fd (frame t p) s s'" and len: "length p \<le> MESSAGE_MAX_SIZE"
    by auto
  with assms(2,5) have inb: "inbox (socks u fd') = frame t p @ rest" by (simp add: wroteD(2))
  from accept_complete [OF assms(4,3) len inb] obtain u' where
    run: "run_state (recv_frame fd') u = ((0, t, p), u')" by blast
  with accept_sound [OF run] inb len show ?thesis by auto
qed

end

end
