(* ===== verification/Logger_Client.thy ===== *)
theory Logger_Client
  imports Posix
begin

section \<open>The logger protocol and the logging client\<close>

text \<open>
  \<open>include/logger/logger_protocol.h\<close> and \<open>src/logger/logger_client.c\<close>. The record
  \<open>log_os\<close> adds to the operating system the datagrams delivered to the logger daemon's
  socket, with a script of their own, so that logging cannot influence any other call.
  The format string and its arguments are the formatted text here; the short-lived
  datagram socket is not entered in the descriptor table.
\<close>

subsection \<open>logger_protocol.h\<close>

definition LOGGER_MAGIC :: u32 where "LOGGER_MAGIC = 0x53434C47"
definition LOGGER_VERSION :: u16 where "LOGGER_VERSION = 1"
definition LOGGER_MESSAGE_MAX :: nat where "LOGGER_MESSAGE_MAX = 1024"
definition LOGGER_SOURCE_MAX :: nat where "LOGGER_SOURCE_MAX = 32"

type_synonym log_level_t = int

definition LOG_DEBUG :: log_level_t where "LOG_DEBUG = 0"
definition LOG_INFO :: log_level_t where "LOG_INFO = 1"
definition LOG_WARN :: log_level_t where "LOG_WARN = 2"
definition LOG_ERROR :: log_level_t where "LOG_ERROR = 3"

lemmas log_level_defs = LOG_DEBUG_def LOG_INFO_def LOG_WARN_def LOG_ERROR_def

text \<open>The two character arrays hold exactly \<open>LOGGER_SOURCE_MAX\<close> and
  \<open>LOGGER_MESSAGE_MAX\<close> bytes.\<close>

record log_packet_t =
  magic :: u32
  version :: u16
  level :: u16
  sender_pid :: int
  source :: "byte list"
  message :: "byte list"

record log_os = os +
  log_queue :: "log_packet_t list"
  log_script :: "fault list"

type_synonym ('z, 'a) log_sys = "('z log_os_scheme, 'a) state"

subsection \<open>logger_client_log\<close>

definition zero_pad :: "nat \<Rightarrow> byte list \<Rightarrow> byte list" where
  "zero_pad n bs = bs @ replicate (n - length bs) NUL"

definition log_fault :: "('z, fault) log_sys" where
  "log_fault = State (\<lambda>s. case log_script s of [] \<Rightarrow> (NoFault, s)
     | f # fs \<Rightarrow> (f, s\<lparr>log_script := fs\<rparr>))"

definition build_packet :: "log_level_t \<Rightarrow> string \<Rightarrow> string \<Rightarrow> int \<Rightarrow> log_packet_t" where
  "build_packet lvl src text p =
     \<lparr>magic = LOGGER_MAGIC, version = LOGGER_VERSION, level = of_int lvl, sender_pid = p,
      source = zero_pad LOGGER_SOURCE_MAX src,
      message = zero_pad LOGGER_MESSAGE_MAX (snd (snprintf LOGGER_MESSAGE_MAX text))\<rparr>"

text \<open>\<open>socket\<close>, \<open>sendto\<close> and \<open>close\<close> each take one outcome; a datagram arrives whole
  or not at all.\<close>

definition logger_client_log :: "log_level_t \<Rightarrow> string \<Rightarrow> string \<Rightarrow> ('z, int) log_sys" where
  "logger_client_log lvl src text =
     (if lvl < LOG_DEBUG \<or> lvl > LOG_ERROR then ret (- 1)
      else if length src = 0 \<or> length src \<ge> LOGGER_SOURCE_MAX then ret (- 1)
      else do {
        p \<leftarrow> gets pid;
        sock \<leftarrow> log_fault;
        if sock \<noteq> NoFault then ret (- 1)
        else do {
          sent \<leftarrow> log_fault;
          (if sent = NoFault
           then modify (\<lambda>s. s\<lparr>log_queue := log_queue s @ [build_packet lvl src text p]\<rparr>)
           else ret ());
          close_result \<leftarrow> log_fault;
          if sent \<noteq> NoFault then ret (- 1)
          else if close_result \<noteq> NoFault then ret (- 1)
          else ret 0
        }
      })"

text \<open>How every component logs: a level, a source and a text, the result ignored; the second
  form formats \<open>errno\<close>.\<close>

type_synonym log_entry = "log_level_t \<times> string \<times> string"

definition log_event :: "log_entry \<Rightarrow> ('z, unit) log_sys" where
  "log_event e = (case e of (lvl, src, text) \<Rightarrow> do { _ \<leftarrow> logger_client_log lvl src text; ret () })"

definition log_event_errno :: "(errno_t \<Rightarrow> log_entry) \<Rightarrow> ('z, unit) log_sys" where
  "log_event_errno ev = do { e \<leftarrow> gets errno; log_event (ev e) }"

subsection \<open>Logging touches nothing but the log\<close>

definition log_rest :: "'z log_os_scheme \<Rightarrow> _" where
  "log_rest s = s\<lparr>log_queue := [], log_script := []\<rparr>"

lemma log_fault_frame: "state_io_rel (same log_rest) log_fault"
  by (auto simp: log_fault_def state_io_rel_def same_def log_rest_def split: list.splits)

lemma log_modify:
  "(\<And>s. log_rest (f s) = log_rest s) \<Longrightarrow> state_io_rel (same log_rest) (modify f)"
  by (rule same.io_modify) (simp add: same_def)

lemma logger_client_log_frame: "state_io_rel (same log_rest) (logger_client_log lvl src text)"
  unfolding logger_client_log_def
  by (intro same.io_sys log_fault_frame log_modify) (simp add: log_rest_def)

lemma log_event_frame:
  "state_io_rel (same log_rest) (log_event e)" "state_io_rel (same log_rest) (log_event_errno ev)"
  unfolding log_event_def log_event_errno_def by (intro same.io_sys logger_client_log_frame)+

lemma length_zero_pad: "length bs \<le> n \<Longrightarrow> length (zero_pad n bs) = n"
  by (simp add: zero_pad_def)

lemma length_build_packet:
  assumes "length src < LOGGER_SOURCE_MAX"
  shows "length (source (build_packet lvl src text p)) = LOGGER_SOURCE_MAX"
    and "length (message (build_packet lvl src text p)) = LOGGER_MESSAGE_MAX"
  using assms
  by (simp_all add: build_packet_def snprintf_def length_zero_pad LOGGER_MESSAGE_MAX_def)

end
