(* ===== verification/Client_Manager.thy ===== *)
theory Client_Manager
  imports Framing Logger_Client
begin

section \<open>The client registry and its message routing\<close>

text \<open>
  \<open>include/server/client_manager.h\<close> and \<open>src/server/client_manager.c\<close>. The record
  \<open>server\<close> adds the static variables of the server process to the operating system.
  A mutex is a flag, set while it is held; the ghost field \<open>blocked\<close> is set when the
  running thread locks a mutex that is held already, which would never return.
  \<open>pthread_mutex_lock\<close> and \<open>pthread_mutex_unlock\<close> may report an error, as the
  script decides, and then change nothing.
\<close>

subsection \<open>Data\<close>

definition MAX_CLIENTS :: nat where "MAX_CLIENTS = 64"

record client_entry_t =
  active :: bool
  socket_fd :: int
  thread_id :: nat
  client_id :: u32
  username :: string
  send_mutex :: bool

record broadcast_target_t =
  slot :: int
  target_id :: u32

record server = log_os +
  clients :: "client_entry_t list"
  clients_mutex :: bool
  next_client_id :: u32
  manager_initialized :: bool
  server_running :: bool
  server_socket :: int
  blocked :: bool

type_synonym 'a srv = "(server, 'a) state"

text \<open>A zeroed array element, as static initialisation and \<open>memset\<close> leave it.\<close>

definition zero_entry :: client_entry_t where
  "zero_entry = \<lparr>active = False, socket_fd = 0, thread_id = 0, client_id = 0, username = [],
     send_mutex = False\<rparr>"

definition upd_entry :: "nat \<Rightarrow> (client_entry_t \<Rightarrow> client_entry_t) \<Rightarrow> server \<Rightarrow> server" where
  "upd_entry i f s = s\<lparr>clients := (clients s)[i := f (clients s ! i)]\<rparr>"

subsection \<open>Mutexes\<close>

definition lock_clients :: "int srv" where
  "lock_clients = do {
     ok \<leftarrow> mtx_ok;
     if \<not> ok then ret 1
     else do {
       modify (\<lambda>s. if clients_mutex s then s\<lparr>blocked := True\<rparr> else s\<lparr>clients_mutex := True\<rparr>);
       ret 0
     }
   }"

definition unlock_clients :: "int srv" where
  "unlock_clients = do {
     ok \<leftarrow> mtx_ok;
     if \<not> ok then ret 1 else do { modify (\<lambda>s. s\<lparr>clients_mutex := False\<rparr>); ret 0 }
   }"

definition lock_send :: "int \<Rightarrow> int srv" where
  "lock_send i = do {
     ok \<leftarrow> mtx_ok;
     if \<not> ok then ret 1
     else do {
       modify (\<lambda>s. if send_mutex (clients s ! nat i) then s\<lparr>blocked := True\<rparr>
                   else upd_entry (nat i) (\<lambda>c. c\<lparr>send_mutex := True\<rparr>) s);
       ret 0
     }
   }"

definition unlock_send :: "int \<Rightarrow> int srv" where
  "unlock_send i = do {
     ok \<leftarrow> mtx_ok;
     if \<not> ok then ret 1
     else do { modify (upd_entry (nat i) (\<lambda>c. c\<lparr>send_mutex := False\<rparr>)); ret 0 }
   }"

subsection \<open>Lookup loops\<close>

text \<open>The index of the first element from index \<open>i\<close> on that satisfies \<open>p\<close>, or -1.\<close>

fun find_from :: "(client_entry_t \<Rightarrow> bool) \<Rightarrow> int \<Rightarrow> client_entry_t list \<Rightarrow> int" where
  "find_from p i [] = - 1"
| "find_from p i (c # cs) = (if p c then i else find_from p (i + 1) cs)"

definition find_free_slot :: "server \<Rightarrow> int" where
  "find_free_slot s = find_from (\<lambda>c. \<not> active c \<and> socket_fd c = - 1) 0 (clients s)"

definition find_socket_slot :: "int \<Rightarrow> server \<Rightarrow> int" where
  "find_socket_slot fd s = find_from (\<lambda>c. active c \<and> socket_fd c = fd) 0 (clients s)"

definition find_username_slot :: "string \<Rightarrow> server \<Rightarrow> int" where
  "find_username_slot name s = find_from (\<lambda>c. active c \<and> username c = name) 0 (clients s)"

subsection \<open>Sending\<close>

definition send_message_raw :: "int \<Rightarrow> u32 \<Rightarrow> string \<Rightarrow> ('z, int) sys" where
  "send_message_raw fd t payload =
     (if \<not> is_valid_message_type t then ret (- 1)
      else if length payload > MESSAGE_MAX_SIZE then ret (- 1)
      else do {
        r \<leftarrow> send_all fd (header_bytes \<lparr>type_field = t, length_field = of_nat (length payload)\<rparr>);
        if r \<noteq> 0 then ret (- 1)
        else if length payload = 0 then ret 0
        else do {
          r \<leftarrow> send_all fd payload;
          if r \<noteq> 0 then ret (- 1) else ret 0
        }
      })"

definition send_to_target :: "int \<Rightarrow> u32 \<Rightarrow> u32 \<Rightarrow> string \<Rightarrow> int srv" where
  "send_to_target i expected_client_id t payload =
     (if i < 0 \<or> i \<ge> int MAX_CLIENTS then ret (- 1)
      else do {
        l \<leftarrow> lock_clients;
        if l \<noteq> 0 then ret (- 1)
        else do {
          c \<leftarrow> gets (\<lambda>s. clients s ! nat i);
          if \<not> active c \<or> client_id c \<noteq> expected_client_id
          then do { unlock_clients; ret 1 }
          else do {
            l \<leftarrow> lock_send i;
            if l \<noteq> 0 then do { unlock_clients; ret (- 1) }
            else do {
              fd \<leftarrow> gets (\<lambda>s. socket_fd (clients s ! nat i));
              u \<leftarrow> unlock_clients;
              if u \<noteq> 0 then do { unlock_send i; ret (- 1) }
              else do {
                result \<leftarrow> send_message_raw fd t payload;
                unlock_send i;
                ret result
              }
            }
          }
        }
      })"

subsection \<open>Initialisation, registration and removal\<close>

text \<open>The loop over the array, \<open>n\<close> elements left; \<open>pthread_mutex_destroy\<close> leaves
  nothing a later step could read.\<close>

fun init_loop :: "nat \<Rightarrow> bool srv" where
  "init_loop 0 = ret True"
| "init_loop (Suc n) = do {
     modify (upd_entry (MAX_CLIENTS - Suc n) (\<lambda>c. c\<lparr>socket_fd := - 1\<rparr>));
     ok \<leftarrow> mtx_ok;
     if \<not> ok then ret False
     else do {
       modify (upd_entry (MAX_CLIENTS - Suc n) (\<lambda>c. c\<lparr>send_mutex := False\<rparr>));
       init_loop n
     }
   }"

definition client_manager_init :: "int srv" where
  "client_manager_init = do {
     l \<leftarrow> lock_clients;
     if l \<noteq> 0 then ret (- 1)
     else do {
       initialized \<leftarrow> gets manager_initialized;
       if initialized then do { unlock_clients; ret 0 }
       else do {
         modify (\<lambda>s. s\<lparr>clients := replicate MAX_CLIENTS zero_entry\<rparr>);
         done \<leftarrow> init_loop MAX_CLIENTS;
         if \<not> done then do { unlock_clients; ret (- 1) }
         else do {
           modify (\<lambda>s. s\<lparr>next_client_id := 1, manager_initialized := True\<rparr>);
           u \<leftarrow> unlock_clients;
           if u \<noteq> 0 then ret (- 1) else ret 0
         }
       }
     }
   }"

definition register_entry :: "int \<Rightarrow> int \<Rightarrow> nat \<Rightarrow> string \<Rightarrow> server \<Rightarrow> server" where
  "register_entry i fd thread name s =
     (upd_entry (nat i) (\<lambda>c. c\<lparr>active := True, socket_fd := fd, thread_id := thread,
        client_id := next_client_id s, username := strncpy_buf USERNAME_MAX_SIZE name\<rparr>) s)
     \<lparr>next_client_id := next_client_id s + 1\<rparr>"

definition client_manager_add :: "int \<Rightarrow> nat \<Rightarrow> string \<Rightarrow> int srv" where
  "client_manager_add fd thread name =
     (if \<not> is_valid_username name then ret (- 1)
      else do {
        l \<leftarrow> lock_clients;
        if l \<noteq> 0 then ret (- 1)
        else do {
          dup \<leftarrow> gets (find_username_slot name);
          if dup \<ge> 0 then do { unlock_clients; ret (- 2) }
          else do {
            i \<leftarrow> gets find_free_slot;
            if i < 0 then do { unlock_clients; ret (- 1) }
            else do {
              modify (register_entry i fd thread name);
              id \<leftarrow> gets (\<lambda>s. sint (client_id (clients s ! nat i)));
              u \<leftarrow> unlock_clients;
              if u \<noteq> 0 then ret (- 1) else ret id
            }
          }
        }
      })"

definition clear_entry :: "client_entry_t \<Rightarrow> client_entry_t" where
  "clear_entry c = c\<lparr>active := False, socket_fd := - 1, thread_id := 0, client_id := 0,
     username := []\<rparr>"

definition client_manager_remove :: "int \<Rightarrow> int srv" where
  "client_manager_remove fd = do {
     l \<leftarrow> lock_clients;
     if l \<noteq> 0 then ret (- 1)
     else do {
       i \<leftarrow> gets (find_socket_slot fd);
       if i < 0 then do { unlock_clients; ret 1 }
       else do {
         l \<leftarrow> lock_send i;
         if l \<noteq> 0 then do { unlock_clients; ret (- 1) }
         else do {
           modify (upd_entry (nat i) clear_entry);
           u \<leftarrow> unlock_clients;
           if u \<noteq> 0 then do { unlock_send i; ret (- 1) }
           else do { unlock_send i; ret 0 }
         }
       }
     }
   }"

subsection \<open>Queries\<close>

fun count_active :: "client_entry_t list \<Rightarrow> nat" where
  "count_active [] = 0"
| "count_active (c # cs) = (if active c then Suc (count_active cs) else count_active cs)"

definition client_manager_count :: "nat srv" where
  "client_manager_count = do {
     l \<leftarrow> lock_clients;
     if l \<noteq> 0 then ret 0
     else do { n \<leftarrow> gets (\<lambda>s. count_active (clients s)); unlock_clients; ret n }
   }"

definition client_manager_contains :: "int \<Rightarrow> bool srv" where
  "client_manager_contains fd = do {
     l \<leftarrow> lock_clients;
     if l \<noteq> 0 then ret False
     else do { i \<leftarrow> gets (find_socket_slot fd); unlock_clients; ret (i \<ge> 0) }
   }"

definition client_manager_username_exists :: "string \<Rightarrow> bool srv" where
  "client_manager_username_exists name =
     (if \<not> is_valid_username name then ret False
      else do {
        l \<leftarrow> lock_clients;
        if l \<noteq> 0 then ret False
        else do { i \<leftarrow> gets (find_username_slot name); unlock_clients; ret (i \<ge> 0) }
      })"

text \<open>The result and the C string left in the caller's buffer.\<close>

definition client_manager_get_username :: "int \<Rightarrow> nat \<Rightarrow> (int \<times> string) srv" where
  "client_manager_get_username fd username_size =
     (if username_size = 0 then ret (- 1, [])
      else do {
        l \<leftarrow> lock_clients;
        if l \<noteq> 0 then ret (- 1, [])
        else do {
          i \<leftarrow> gets (find_socket_slot fd);
          if i < 0 then do { unlock_clients; ret (1, []) }
          else do {
            name \<leftarrow> gets (\<lambda>s. username (clients s ! nat i));
            unlock_clients;
            ret (0, strncpy_buf username_size name)
          }
        }
      })"

text \<open>The loop of \<open>client_manager_build_userlist\<close>: the text in the buffer (\<open>used\<close> is
  its length) and the count, or \<open>None\<close> when a name does not fit.\<close>

fun userlist_loop :: "nat \<Rightarrow> client_entry_t list \<Rightarrow> string \<Rightarrow> int \<Rightarrow> (string \<times> int) option" where
  "userlist_loop buffer_size [] buf n = Some (buf, n)"
| "userlist_loop buffer_size (c # cs) buf n =
     (if \<not> active c then userlist_loop buffer_size cs buf n
      else if length buf + length (username c) + 2 > buffer_size then None
      else userlist_loop buffer_size cs (buf @ username c @ [CHR 0x0A]) (n + 1))"

definition client_manager_build_userlist :: "nat \<Rightarrow> (int \<times> string) srv" where
  "client_manager_build_userlist buffer_size =
     (if buffer_size = 0 then ret (- 1, [])
      else do {
        l \<leftarrow> lock_clients;
        if l \<noteq> 0 then ret (- 1, [])
        else do {
          res \<leftarrow> gets (\<lambda>s. userlist_loop buffer_size (clients s) [] 0);
          (case res of
             None \<Rightarrow> do { unlock_clients; ret (- 1, []) }
           | Some (buf, user_count) \<Rightarrow> do {
               u \<leftarrow> unlock_clients;
               if u \<noteq> 0 then ret (- 1, butlast buf) else ret (user_count, butlast buf)
             })
        }
      })"

subsection \<open>Routing\<close>

definition client_manager_send :: "int \<Rightarrow> u32 \<Rightarrow> string \<Rightarrow> int srv" where
  "client_manager_send fd t payload =
     (if \<not> is_valid_message_type t then ret (- 1)
      else if length payload > MESSAGE_MAX_SIZE then ret (- 1)
      else do {
        l \<leftarrow> lock_clients;
        if l \<noteq> 0 then ret (- 1)
        else do {
          i \<leftarrow> gets (find_socket_slot fd);
          if i < 0 then do { unlock_clients; ret 1 }
          else do {
            l \<leftarrow> lock_send i;
            if l \<noteq> 0 then do { unlock_clients; ret (- 1) }
            else do {
              destination_socket \<leftarrow> gets (\<lambda>s. socket_fd (clients s ! nat i));
              u \<leftarrow> unlock_clients;
              if u \<noteq> 0 then do { unlock_send i; ret (- 1) }
              else do {
                result \<leftarrow> send_message_raw destination_socket t payload;
                unlock_send i;
                ret result
              }
            }
          }
        }
      })"

definition client_manager_send_to_username :: "string \<Rightarrow> u32 \<Rightarrow> string \<Rightarrow> int srv" where
  "client_manager_send_to_username name t payload =
     (if \<not> is_valid_username name \<or> \<not> is_valid_message_type t then ret (- 1)
      else if length payload > MESSAGE_MAX_SIZE then ret (- 1)
      else do {
        l \<leftarrow> lock_clients;
        if l \<noteq> 0 then ret (- 1)
        else do {
          i \<leftarrow> gets (find_username_slot name);
          if i < 0 then do { unlock_clients; ret 1 }
          else do {
            id \<leftarrow> gets (\<lambda>s. client_id (clients s ! nat i));
            u \<leftarrow> unlock_clients;
            if u \<noteq> 0 then ret (- 1) else send_to_target i id t payload
          }
        }
      })"

text \<open>The copy loop of \<open>client_manager_send_file_stream\<close>.\<close>

lemma sys_read_script:
  assumes "run_state (sys_read fd n) s = ((r, bs), s')"
  shows "length (fs_script s') \<le> length (fs_script s)"
    and "r < 0 \<Longrightarrow> errno s' = EINTR \<Longrightarrow> length (fs_script s') < length (fs_script s)"
  using assms
  by (auto simp: sys_read_def fs_fault_def fail_def set_errno_def Let_def
      split: list.splits fault.splits option.splits fdobj.splits)

lemma send_all_fs_script: "run_state (send_all fd bs) s = (r, s') \<Longrightarrow> fs_script s' = fs_script s"
  by (erule send_all_wrote) (auto simp: wrote_def net_rest_def)

function stream_loop :: "int \<Rightarrow> int \<Rightarrow> nat \<Rightarrow> 'z os_scheme \<Rightarrow> int \<times> 'z os_scheme" where
  "stream_loop fd file_fd remaining s =
     (if remaining > 0
      then (let requested = (if remaining > FILE_CHUNK_SIZE then FILE_CHUNK_SIZE else remaining)
            in case run_state (sys_read file_fd requested) s of ((bytes_read, buffer), s1) \<Rightarrow>
              if bytes_read < 0
              then (if errno s1 = EINTR then stream_loop fd file_fd remaining s1 else (- 1, s1))
              else if bytes_read = 0 then (- 1, s1)
              else (case run_state (send_all fd buffer) s1 of (r, s2) \<Rightarrow>
                      if r \<noteq> 0 then (- 1, s2)
                      else stream_loop fd file_fd (remaining - nat bytes_read) s2))
      else (0, s))"
  by pat_completeness auto
termination
proof (relation "measure (\<lambda>(fd, file_fd, remaining, s). remaining + length (fs_script s))", goal_cases)
  case 1
  show ?case by simp
next
  case (2 fd file_fd remaining s requested p s1 bytes_read buffer)
  then show ?case using sys_read_script(2) [of file_fd requested s bytes_read buffer s1] by simp
next
  case (3 fd file_fd remaining s requested p s1 bytes_read buffer r s2)
  then show ?case
    using sys_read_script(1) [of file_fd requested s bytes_read buffer s1]
      send_all_fs_script [of fd buffer s1 r s2] by simp
qed

declare stream_loop.simps [simp del]

definition client_manager_send_file_stream ::
    "int \<Rightarrow> u32 \<Rightarrow> string \<Rightarrow> int \<Rightarrow> nat \<Rightarrow> int srv" where
  "client_manager_send_file_stream fd t metadata file_fd file_size =
     (if fd < 0 \<or> file_fd < 0 \<or> \<not> is_valid_message_type t \<or>
         length metadata > MESSAGE_MAX_SIZE \<or> file_size > FILE_MAX_SIZE
      then ret (- 1)
      else do {
        l \<leftarrow> lock_clients;
        if l \<noteq> 0 then ret (- 1)
        else do {
          i \<leftarrow> gets (find_socket_slot fd);
          if i < 0 then do { unlock_clients; ret (- 1) }
          else do {
            expected_client_id \<leftarrow> gets (\<lambda>s. client_id (clients s ! nat i));
            l \<leftarrow> lock_send i;
            if l \<noteq> 0 then do { unlock_clients; ret (- 1) }
            else do {
              c \<leftarrow> gets (\<lambda>s. clients s ! nat i);
              if \<not> active c \<or> socket_fd c \<noteq> fd \<or> client_id c \<noteq> expected_client_id
              then do { unlock_send i; unlock_clients; ret (- 1) }
              else do {
                u \<leftarrow> unlock_clients;
                if u \<noteq> 0 then do { unlock_send i; ret (- 1) }
                else do {
                  result \<leftarrow> send_message_raw fd t metadata;
                  if result \<noteq> 0 then do { unlock_send i; ret (- 1) }
                  else do {
                    r \<leftarrow> State (stream_loop fd file_fd file_size);
                    if r \<noteq> 0 then do { unlock_send i; ret (- 1) }
                    else do {
                      u \<leftarrow> unlock_send i;
                      if u \<noteq> 0 then ret (- 1) else ret 0
                    }
                  }
                }
              }
            }
          }
        }
      })"

text \<open>The snapshot loop of \<open>client_manager_broadcast\<close> and its delivery loop.\<close>

fun snapshot_from :: "int \<Rightarrow> int \<Rightarrow> client_entry_t list \<Rightarrow> broadcast_target_t list" where
  "snapshot_from sender i [] = []"
| "snapshot_from sender i (c # cs) =
     (if \<not> active c then snapshot_from sender (i + 1) cs
      else if socket_fd c = sender then snapshot_from sender (i + 1) cs
      else \<lparr>slot = i, target_id = client_id c\<rparr> # snapshot_from sender (i + 1) cs)"

fun deliver :: "broadcast_target_t list \<Rightarrow> u32 \<Rightarrow> string \<Rightarrow> nat \<Rightarrow> nat srv" where
  "deliver [] t payload successful = ret successful"
| "deliver (x # xs) t payload successful = do {
     result \<leftarrow> send_to_target (slot x) (target_id x) t payload;
     deliver xs t payload (if result = 0 then Suc successful else successful)
   }"

definition client_manager_broadcast :: "int \<Rightarrow> u32 \<Rightarrow> string \<Rightarrow> int srv" where
  "client_manager_broadcast sender t payload =
     (if \<not> is_valid_message_type t then ret (- 1)
      else if length payload > MESSAGE_MAX_SIZE then ret (- 1)
      else do {
        l \<leftarrow> lock_clients;
        if l \<noteq> 0 then ret (- 1)
        else do {
          targets \<leftarrow> gets (\<lambda>s. snapshot_from sender 0 (clients s));
          u \<leftarrow> unlock_clients;
          if u \<noteq> 0 then ret (- 1)
          else do { n \<leftarrow> deliver targets t payload 0; ret (int n) }
        }
      })"

end
