(* ===== verification/Registry.thy ===== *)
theory Registry
  imports Client_Manager
begin

section \<open>Correctness of the client registry\<close>

text \<open>
  The invariant of the client table, the exact effect of registration and removal, and the
  refinement of the table to a finite map from user names to connections. \<open>idle\<close> states
  are those in which no mutex is held and no mutex call reports an error; from such a state
  every operation returns to one.
\<close>

subsection \<open>Lookup loops\<close>

lemma find_from_neg: "0 \<le> i \<Longrightarrow> find_from p i xs < 0 \<longleftrightarrow> (\<forall>c \<in> set xs. \<not> p c)"
  by (induction xs arbitrary: i) auto

lemma find_from_nonneg: "0 \<le> i \<Longrightarrow> 0 \<le> find_from p i xs \<longleftrightarrow> (\<exists>c \<in> set xs. p c)"
  using find_from_neg [of i p xs] by auto

lemma find_from_found:
  assumes "0 \<le> i" and "0 \<le> find_from p i xs"
  shows "\<exists>k < length xs. find_from p i xs = i + int k \<and> p (xs ! k) \<and> (\<forall>m < k. \<not> p (xs ! m))"
  using assms
proof (induction xs arbitrary: i)
  case Nil
  then show ?case by simp
next
  case (Cons c cs)
  show ?case
  proof (cases "p c")
    case True
    then show ?thesis by (intro exI [of _ 0]) simp
  next
    case False
    with Cons.IH [of "i + 1"] Cons.prems obtain k where
      "k < length cs" "find_from p (i + 1) cs = i + 1 + int k" "p (cs ! k)" "\<forall>m < k. \<not> p (cs ! m)"
      by auto
    with False show ?thesis by (intro exI [of _ "Suc k"]) (auto simp: nth_Cons less_Suc_eq_0_disj)
  qed
qed

lemma find_from_props:
  assumes "0 \<le> find_from p 0 xs"
  shows "nat (find_from p 0 xs) < length xs" and "p (xs ! nat (find_from p 0 xs))"
  using find_from_found [of 0 p xs] assms by auto

lemma find_from_unique:
  assumes "k < length xs" and "p (xs ! k)" and "\<And>m. m < length xs \<Longrightarrow> p (xs ! m) \<Longrightarrow> m = k"
  shows "find_from p 0 xs = int k"
proof -
  have "0 \<le> find_from p 0 xs" using assms(1,2) by (auto simp: find_from_nonneg)
  with find_from_found [of 0 p xs] obtain j where
    "j < length xs" "find_from p 0 xs = int j" "p (xs ! j)" by auto
  with assms(3) show ?thesis by auto
qed

subsection \<open>The part of the table the mutexes do not show\<close>

definition strip :: "client_entry_t \<Rightarrow> client_entry_t" where
  "strip c = c\<lparr>send_mutex := False\<rparr>"

definition table :: "server \<Rightarrow> client_entry_t list" where
  "table s = map strip (clients s)"

lemma strip_simps [simp]:
  "active (strip c) = active c" "socket_fd (strip c) = socket_fd c"
  "thread_id (strip c) = thread_id c" "client_id (strip c) = client_id c"
  "username (strip c) = username c" "send_mutex (strip c) = False"
  by (simp_all add: strip_def)

lemma strip_send_mutex [simp]: "strip (c\<lparr>send_mutex := b\<rparr>) = strip c"
  by (simp add: strip_def)

lemma strip_id: "\<not> send_mutex c \<Longrightarrow> strip c = c"
  by (simp add: strip_def)

text \<open>Everything of the server state but the mutexes.\<close>

definition no_mutex :: "server \<Rightarrow> _" where
  "no_mutex s = s\<lparr>clients := table s, clients_mutex := False, blocked := False, mtx_script := []\<rparr>"

lemma mtx_ok_no_mutex: "state_io_rel (same no_mutex) mtx_ok"
  by (auto simp: mtx_ok_def mtx_fault_def state_io_rel_def same_def no_mutex_def table_def
      split: list.splits)

lemma mutex_frames:
  "state_io_rel (same no_mutex) lock_clients"
  "state_io_rel (same no_mutex) unlock_clients"
  "state_io_rel (same no_mutex) (lock_send i)"
  "state_io_rel (same no_mutex) (unlock_send i)"
proof -
  have tab: "map strip (xs[k := (xs ! k)\<lparr>send_mutex := b\<rparr>]) = map strip xs" for xs k b
  proof (rule nth_equalityI)
    fix j
    assume "j < length (map strip (xs[k := (xs ! k)\<lparr>send_mutex := b\<rparr>]))"
    then show "map strip (xs[k := (xs ! k)\<lparr>send_mutex := b\<rparr>]) ! j = map strip xs ! j"
      by (cases "j = k") simp_all
  qed simp
  show "state_io_rel (same no_mutex) lock_clients"
    "state_io_rel (same no_mutex) unlock_clients"
    "state_io_rel (same no_mutex) (lock_send i)"
    "state_io_rel (same no_mutex) (unlock_send i)"
    unfolding lock_clients_def unlock_clients_def lock_send_def unlock_send_def
    by (intro same.io_sys mtx_ok_no_mutex same.io_modify;
        simp add: same_def no_mutex_def table_def upd_entry_def tab)+
qed

subsection \<open>Idle states\<close>

definition idle :: "server \<Rightarrow> bool" where
  "idle s \<longleftrightarrow> mtx_script s = [] \<and> \<not> clients_mutex s \<and> \<not> blocked s \<and>
     (\<forall>c \<in> set (clients s). \<not> send_mutex c)"

lemma idleD:
  assumes "idle s"
  shows "mtx_script s = []" "\<not> clients_mutex s" "\<not> blocked s"
    "c \<in> set (clients s) \<Longrightarrow> \<not> send_mutex c" "k < length (clients s) \<Longrightarrow> \<not> send_mutex (clients s ! k)"
  using assms by (auto simp: idle_def)

lemma table_idle [simp]: "idle s \<Longrightarrow> table s = clients s"
  by (auto simp: table_def idle_def strip_id intro: map_idI)

lemma run_lock_clients:
  "mtx_script s = [] \<Longrightarrow> \<not> clients_mutex s \<Longrightarrow> run_state lock_clients s = (0, s\<lparr>clients_mutex := True\<rparr>)"
  by (simp add: lock_clients_def mtx_ok_quiet)

lemma run_unlock_clients:
  "mtx_script s = [] \<Longrightarrow> run_state unlock_clients s = (0, s\<lparr>clients_mutex := False\<rparr>)"
  by (simp add: unlock_clients_def mtx_ok_quiet)

lemma run_lock_send:
  "mtx_script s = [] \<Longrightarrow> \<not> send_mutex (clients s ! nat i) \<Longrightarrow>
   run_state (lock_send i) s = (0, upd_entry (nat i) (\<lambda>c. c\<lparr>send_mutex := True\<rparr>) s)"
  by (simp add: lock_send_def mtx_ok_quiet)

lemma run_unlock_send:
  "mtx_script s = [] \<Longrightarrow>
   run_state (unlock_send i) s = (0, upd_entry (nat i) (\<lambda>c. c\<lparr>send_mutex := False\<rparr>) s)"
  by (simp add: unlock_send_def mtx_ok_quiet)

lemma clients_mutex_restore: "\<not> clients_mutex s \<Longrightarrow> s\<lparr>clients_mutex := False\<rparr> = s"
  by (cases s) simp

lemma send_mutex_self: "\<not> send_mutex c \<Longrightarrow> c\<lparr>send_mutex := False\<rparr> = c"
  by (cases c) simp

lemma send_mutex_restore:
  "k < length (clients s) \<Longrightarrow> \<not> send_mutex (clients s ! k) \<Longrightarrow>
   upd_entry k (\<lambda>c. c\<lparr>send_mutex := False\<rparr>) (upd_entry k (\<lambda>c. c\<lparr>send_mutex := True\<rparr>) s) = s"
  by (simp add: upd_entry_def send_mutex_self)

lemmas run_mutex = run_lock_clients run_unlock_clients run_lock_send run_unlock_send

subsection \<open>The invariant\<close>

definition entries_ok :: "client_entry_t list \<Rightarrow> bool" where
  "entries_ok cs \<longleftrightarrow> length cs = MAX_CLIENTS \<and>
     (\<forall>c \<in> set cs. if active c then is_valid_username (username c) \<and> 0 \<le> socket_fd c
                   else socket_fd c = - 1)"

definition distinct_on :: "(client_entry_t \<Rightarrow> 'a) \<Rightarrow> client_entry_t list \<Rightarrow> bool" where
  "distinct_on f cs \<longleftrightarrow> (\<forall>i < length cs. \<forall>j < length cs.
     active (cs ! i) \<and> active (cs ! j) \<and> f (cs ! i) = f (cs ! j) \<longrightarrow> i = j)"

definition registry_inv :: "server \<Rightarrow> bool" where
  "registry_inv s \<longleftrightarrow> manager_initialized s \<and> entries_ok (table s) \<and>
     distinct_on username (table s) \<and> distinct_on socket_fd (table s)"

lemma no_mutex_sel:
  "clients (no_mutex s) = table s" "manager_initialized (no_mutex s) = manager_initialized s"
  "next_client_id (no_mutex s) = next_client_id s" "os.fds (no_mutex s) = fds s"
  "os.socks (no_mutex s) = socks s"
  by (simp_all add: no_mutex_def)

lemma no_mutex_eqD:
  assumes "no_mutex s' = no_mutex s"
  shows "table s' = table s" "manager_initialized s' = manager_initialized s"
    "next_client_id s' = next_client_id s" "fds s' = fds s" "socks s' = socks s"
  using assms by (metis no_mutex_sel)+

lemma registry_inv_no_mutex:
  assumes "no_mutex s' = no_mutex s"
  shows "registry_inv s' \<longleftrightarrow> registry_inv s"
  by (simp add: registry_inv_def no_mutex_eqD [OF assms])

subsection \<open>What registration and removal do, whatever the mutex calls return\<close>

lemma find_from_strip:
  "(\<And>c. p (strip c) = p c) \<Longrightarrow> find_from p i (map strip cs) = find_from p i cs"
  by (induction cs arbitrary: i) auto

lemma find_table:
  "find_free_slot s = find_from (\<lambda>c. \<not> active c \<and> socket_fd c = - 1) 0 (table s)"
  "find_socket_slot fd s = find_from (\<lambda>c. active c \<and> socket_fd c = fd) 0 (table s)"
  "find_username_slot name s = find_from (\<lambda>c. active c \<and> username c = name) 0 (table s)"
  by (simp_all add: find_free_slot_def find_socket_slot_def find_username_slot_def table_def
      find_from_strip)

lemma find_no_mutex:
  assumes "no_mutex s' = no_mutex s"
  shows "find_free_slot s' = find_free_slot s" "find_socket_slot fd s' = find_socket_slot fd s"
    "find_username_slot name s' = find_username_slot name s"
  by (simp_all add: find_table no_mutex_eqD(1) [OF assms])

lemma table_upd_entry:
  assumes "\<And>c. strip (f c) = f (strip c)"
  shows "table (upd_entry i f s) = (table s)[i := f (table s ! i)]"
proof (cases "i < length (clients s)")
  case True
  then show ?thesis by (simp add: table_def upd_entry_def map_update assms)
next
  case False
  then show ?thesis by (simp add: table_def upd_entry_def list_update_beyond)
qed

lemma no_mutex_upd_entry:
  assumes "\<And>c. strip (f c) = f (strip c)"
  shows "no_mutex (upd_entry i f s) = upd_entry i f (no_mutex s)"
proof -
  have "table (upd_entry i f s) = (table s)[i := f (table s ! i)]"
    by (rule table_upd_entry) (rule assms)
  then show ?thesis by (simp add: no_mutex_def upd_entry_def)
qed

lemma no_mutex_register:
  "no_mutex (register_entry i fd thread name s) = register_entry i fd thread name (no_mutex s)"
proof -
  let ?f = "\<lambda>c. c\<lparr>active := True, socket_fd := fd, thread_id := thread,
        client_id := next_client_id s, username := strncpy_buf USERNAME_MAX_SIZE name\<rparr>"
  have "no_mutex (upd_entry (nat i) ?f s) = upd_entry (nat i) ?f (no_mutex s)"
    by (rule no_mutex_upd_entry) (simp add: strip_def)
  moreover have "no_mutex (t\<lparr>next_client_id := n\<rparr>) = (no_mutex t)\<lparr>next_client_id := n\<rparr>" for t n
    by (simp add: no_mutex_def table_def)
  ultimately show ?thesis by (simp add: register_entry_def no_mutex_sel)
qed

lemma no_mutex_clear: "no_mutex (upd_entry i clear_entry s) = upd_entry i clear_entry (no_mutex s)"
  by (rule no_mutex_upd_entry) (simp add: strip_def clear_entry_def)

lemmas mutex_same = mutex_frames [THEN same_run]

lemma slot_props:
  "0 \<le> find_free_slot s \<Longrightarrow> nat (find_free_slot s) < length (clients s) \<and>
     \<not> active (clients s ! nat (find_free_slot s))"
  "0 \<le> find_socket_slot fd s \<Longrightarrow> nat (find_socket_slot fd s) < length (clients s) \<and>
     active (clients s ! nat (find_socket_slot fd s)) \<and>
     socket_fd (clients s ! nat (find_socket_slot fd s)) = fd"
  "0 \<le> find_username_slot name s \<Longrightarrow> nat (find_username_slot name s) < length (clients s) \<and>
     active (clients s ! nat (find_username_slot name s)) \<and>
     username (clients s ! nat (find_username_slot name s)) = name"
  unfolding find_free_slot_def find_socket_slot_def find_username_slot_def
  by (frule find_from_props(1), drule find_from_props(2), simp)+

lemma register_entry_id:
  "nat i < length (clients s) \<Longrightarrow>
   client_id (clients (register_entry i fd thread name s) ! nat i) = next_client_id s"
  by (simp add: register_entry_def upd_entry_def)

lemma client_manager_add_effect:
  assumes "run_state (client_manager_add fd thread name) s = (r, s')"
  shows "r < 0 \<and> no_mutex s' = no_mutex s \<or>
    is_valid_username name \<and> find_username_slot name s < 0 \<and> 0 \<le> find_free_slot s \<and>
    no_mutex s' = no_mutex (register_entry (find_free_slot s) fd thread name s) \<and>
    (r = -1 \<or> r = sint (next_client_id s))"
proof (cases "is_valid_username name")
  case False
  with assms show ?thesis by (simp add: client_manager_add_def)
next
  case True
  obtain l s1 where lock: "run_state lock_clients s = (l, s1)" by fastforce
  obtain u s2 where unlock: "run_state unlock_clients s1 = (u, s2)" by fastforce
  obtain v s3 where reg: "run_state unlock_clients
      (register_entry (find_free_slot s1) fd thread name s1) = (v, s3)" by fastforce
  have e1: "no_mutex s1 = no_mutex s" using mutex_same(1) [OF lock] .
  have e2: "no_mutex s2 = no_mutex s" using mutex_same(2) [OF unlock] e1 by simp
  have e3: "no_mutex s3 = no_mutex (register_entry (find_free_slot s) fd thread name s)"
    using mutex_same(2) [OF reg] e1 by (simp add: no_mutex_register find_no_mutex [OF e1])
  have id: "0 \<le> find_free_slot s \<Longrightarrow>
      client_id (clients (register_entry (find_free_slot s) fd thread name s1) ! nat (find_free_slot s))
      = next_client_id s"
    using slot_props(1) [of s1]
    by (simp add: find_no_mutex [OF e1] register_entry_id no_mutex_eqD(3) [OF e1])
  from assms lock unlock reg True show ?thesis
    using e1 e2 e3 id
    by (auto simp: client_manager_add_def find_no_mutex [OF e1] split: if_splits prod.splits)
qed

lemma client_manager_remove_effect:
  assumes "run_state (client_manager_remove fd) s = (r, s')"
  shows "r \<noteq> 0 \<and> no_mutex s' = no_mutex s \<or>
    0 \<le> find_socket_slot fd s \<and> (r = 0 \<or> r = -1) \<and>
    no_mutex s' = no_mutex (upd_entry (nat (find_socket_slot fd s)) clear_entry s)"
proof -
  obtain l s1 where lock: "run_state lock_clients s = (l, s1)" by fastforce
  have e1: "no_mutex s1 = no_mutex s" using mutex_same(1) [OF lock] .
  from assms lock show ?thesis
    by (auto simp: client_manager_remove_def find_no_mutex [OF e1] no_mutex_clear e1
        split: if_splits prod.splits dest!: mutex_same)
qed

subsection \<open>The invariant is kept\<close>

lemma distinct_on_update:
  assumes "distinct_on f cs" and "active new \<Longrightarrow> \<forall>c \<in> set cs. active c \<longrightarrow> f c \<noteq> f new"
  shows "distinct_on f (cs[k := new])"
  unfolding distinct_on_def
proof (intro allI impI)
  fix i j
  assume ij: "i < length (cs[k := new])" "j < length (cs[k := new])"
    "active (cs[k := new] ! i) \<and> active (cs[k := new] ! j) \<and>
     f (cs[k := new] ! i) = f (cs[k := new] ! j)"
  show "i = j"
  proof (cases "i = k \<or> j = k")
    case False
    with ij assms(1) show ?thesis by (auto simp: distinct_on_def)
  next
    case True
    with ij assms(2) show ?thesis by (cases "i = k"; cases "j = k") force+
  qed
qed

lemma entries_ok_update:
  assumes "entries_ok cs"
    and "if active new then is_valid_username (username new) \<and> 0 \<le> socket_fd new else socket_fd new = - 1"
  shows "entries_ok (cs[k := new])"
  using assms unfolding entries_ok_def by (auto dest!: set_update_subset_insert [THEN subsetD])

lemma table_register:
  "table (register_entry i fd thread name s) =
   (table s)[nat i := (table s ! nat i)\<lparr>active := True, socket_fd := fd, thread_id := thread,
      client_id := next_client_id s, username := strncpy_buf USERNAME_MAX_SIZE name\<rparr>]"
proof -
  let ?f = "\<lambda>c. c\<lparr>active := True, socket_fd := fd, thread_id := thread,
        client_id := next_client_id s, username := strncpy_buf USERNAME_MAX_SIZE name\<rparr>"
  have "table (upd_entry (nat i) ?f s) = (table s)[nat i := ?f (table s ! nat i)]"
    by (rule table_upd_entry) (simp add: strip_def)
  then show ?thesis by (simp add: register_entry_def table_def)
qed

lemma table_clear: "table (upd_entry i clear_entry s) = (table s)[i := clear_entry (table s ! i)]"
  by (rule table_upd_entry) (simp add: strip_def clear_entry_def)

lemma strncpy_username [simp]: "is_valid_username name \<Longrightarrow> strncpy_buf USERNAME_MAX_SIZE name = name"
  by (simp add: strncpy_buf_def USERNAME_MAX_SIZE_def is_valid_username_iff)

definition fd_unused :: "int \<Rightarrow> server \<Rightarrow> bool" where
  "fd_unused fd s \<longleftrightarrow> 0 \<le> fd \<and> find_socket_slot fd s < 0"

lemma fd_unused_iff:
  "fd_unused fd s \<longleftrightarrow> 0 \<le> fd \<and> (\<forall>c \<in> set (table s). active c \<longrightarrow> socket_fd c \<noteq> fd)"
  by (auto simp: fd_unused_def find_table find_from_neg)

lemma find_username_neg_iff:
  "find_username_slot name s < 0 \<longleftrightarrow> (\<forall>c \<in> set (table s). active c \<longrightarrow> username c \<noteq> name)"
  by (auto simp: find_table find_from_neg)

lemma registry_inv_register:
  assumes "registry_inv s" and "is_valid_username name" and "find_username_slot name s < 0"
    and "fd_unused fd s"
  shows "registry_inv (register_entry i fd thread name s)"
proof -
  have "manager_initialized (register_entry i fd thread name s) = manager_initialized s"
    by (simp add: register_entry_def upd_entry_def)
  then show ?thesis
    using assms unfolding registry_inv_def table_register fd_unused_iff find_username_neg_iff
    by (auto intro!: entries_ok_update distinct_on_update)
qed

lemma registry_inv_clear:
  assumes "registry_inv s"
  shows "registry_inv (upd_entry i clear_entry s)"
proof -
  have "manager_initialized (upd_entry i clear_entry s) = manager_initialized s"
    by (simp add: upd_entry_def)
  then show ?thesis
    using assms unfolding registry_inv_def table_clear
    by (auto intro!: entries_ok_update distinct_on_update simp: clear_entry_def)
qed

lemma add_keeps_inv:
  assumes "registry_inv s" and "fd_unused fd s"
    and "run_state (client_manager_add fd thread name) s = (r, s')"
  shows "registry_inv s'"
  using client_manager_add_effect [OF assms(3)] registry_inv_register [OF assms(1) _ _ assms(2)]
    assms(1) registry_inv_no_mutex by blast

lemma remove_keeps_inv: "state_io_rel (keeps registry_inv) (client_manager_remove fd)"
proof
  fix r s s'
  assume "run_state (client_manager_remove fd) s = (r, s')"
  from client_manager_remove_effect [OF this] show "keeps registry_inv s s'"
    unfolding keeps_def using registry_inv_clear registry_inv_no_mutex by blast
qed

subsection \<open>Exact effect from an idle state\<close>

lemma find_idle_lock [simp]:
  "find_free_slot (s\<lparr>clients_mutex := b\<rparr>) = find_free_slot s"
  "find_socket_slot fd (s\<lparr>clients_mutex := b\<rparr>) = find_socket_slot fd s"
  "find_username_slot name (s\<lparr>clients_mutex := b\<rparr>) = find_username_slot name s"
  by (simp_all add: find_free_slot_def find_socket_slot_def find_username_slot_def)

lemma register_entry_lock [simp]:
  "register_entry i fd thread name (s\<lparr>clients_mutex := b\<rparr>) =
   (register_entry i fd thread name s)\<lparr>clients_mutex := b\<rparr>"
  by (simp add: register_entry_def upd_entry_def)

lemma mutex_fields_register [simp]:
  "mtx_script (register_entry i fd thread name s) = mtx_script s"
  "clients_mutex (register_entry i fd thread name s) = clients_mutex s"
  "blocked (register_entry i fd thread name s) = blocked s"
  by (simp_all add: register_entry_def upd_entry_def)

lemma upd_entry_fields [simp]:
  "mtx_script (upd_entry i f s) = mtx_script s"
  "clients_mutex (upd_entry i f s) = clients_mutex s"
  "blocked (upd_entry i f s) = blocked s"
  "upd_entry i f (s\<lparr>clients_mutex := b\<rparr>) = (upd_entry i f s)\<lparr>clients_mutex := b\<rparr>"
  "clients (upd_entry i f s) = (clients s)[i := f (clients s ! i)]"
  by (simp_all add: upd_entry_def)

lemma upd_entry_upd_entry [simp]:
  "i < length (clients s) \<Longrightarrow> upd_entry i f (upd_entry i g s) = upd_entry i (\<lambda>c. f (g c)) s"
  by (simp add: upd_entry_def)

lemma add_idle:
  assumes "idle s"
  shows "run_state (client_manager_add fd thread name) s =
    (if \<not> is_valid_username name then (-1, s)
     else if 0 \<le> find_username_slot name s then (-2, s)
     else if find_free_slot s < 0 then (-1, s)
     else (sint (next_client_id s), register_entry (find_free_slot s) fd thread name s))"
  using idleD(1,2) [OF assms] slot_props(1) [of s]
  by (simp add: client_manager_add_def run_mutex clients_mutex_restore register_entry_id)

lemma remove_idle:
  assumes "idle s"
  shows "run_state (client_manager_remove fd) s =
    (if find_socket_slot fd s < 0 then (1, s)
     else (0, upd_entry (nat (find_socket_slot fd s)) clear_entry s))"
proof (cases "find_socket_slot fd s < 0")
  case True
  with idleD(1,2) [OF assms] show ?thesis
    by (simp add: client_manager_remove_def run_mutex clients_mutex_restore)
next
  case False
  let ?k = "nat (find_socket_slot fd s)"
  from False have k: "?k < length (clients s)" using slot_props(2) [of fd s] by simp
  with idleD(5) [OF assms] have free: "\<not> send_mutex (clients s ! ?k)" by simp
  have "(clear_entry (c\<lparr>send_mutex := True\<rparr>))\<lparr>send_mutex := False\<rparr> = clear_entry c" if "\<not> send_mutex c" for c
    using that by (simp add: clear_entry_def send_mutex_self)
  with free k have "upd_entry ?k (\<lambda>c. (clear_entry (c\<lparr>send_mutex := True\<rparr>))\<lparr>send_mutex := False\<rparr>) s =
      upd_entry ?k clear_entry s" by (simp add: upd_entry_def)
  with False k free idleD(1,2) [OF assms] show ?thesis
    by (simp add: client_manager_remove_def run_mutex clients_mutex_restore)
qed

lemma idle_upd_entry:
  assumes "idle s" and "\<And>c. send_mutex (f c) = send_mutex c"
  shows "idle (upd_entry i f s)"
proof (cases "i < length (clients s)")
  case True
  have "\<not> send_mutex (f (clients s ! i))" using idleD(5) [OF assms(1) True] assms(2) by simp
  moreover have "set ((clients s)[i := f (clients s ! i)]) \<subseteq> insert (f (clients s ! i)) (set (clients s))"
    by (rule set_update_subset_insert)
  ultimately show ?thesis using assms(1) unfolding idle_def upd_entry_fields by blast
next
  case False
  with assms(1) show ?thesis by (simp add: idle_def list_update_beyond)
qed

lemma idle_register: "idle s \<Longrightarrow> idle (register_entry i fd thread name s)"
proof -
  assume "idle s"
  then have "idle (upd_entry (nat i) (\<lambda>c. c\<lparr>active := True, socket_fd := fd, thread_id := thread,
        client_id := next_client_id s, username := strncpy_buf USERNAME_MAX_SIZE name\<rparr>) s)"
    by (rule idle_upd_entry) simp
  then show ?thesis by (simp add: idle_def register_entry_def)
qed

lemma idle_clear: "idle s \<Longrightarrow> idle (upd_entry i clear_entry s)"
  by (erule idle_upd_entry) (simp add: clear_entry_def)

subsection \<open>Initialisation\<close>

definition free_entry :: client_entry_t where
  "free_entry = zero_entry\<lparr>socket_fd := - 1\<rparr>"

lemma init_loop_ok:
  assumes "mtx_script s = []" and "n \<le> MAX_CLIENTS"
    and "clients s = replicate (MAX_CLIENTS - n) free_entry @ replicate n zero_entry"
  shows "run_state (init_loop n) s = (True, s\<lparr>clients := replicate MAX_CLIENTS free_entry\<rparr>)"
  using assms
proof (induction n arbitrary: s)
  case 0
  then show ?case by (cases s) simp
next
  case (Suc n)
  let ?k = "MAX_CLIENTS - Suc n"
  have nth: "(replicate ?k free_entry @ zero_entry # replicate n zero_entry) ! ?k = zero_entry"
    by (metis length_replicate nth_append_length)
  have upd: "(replicate ?k free_entry @ zero_entry # replicate n zero_entry)[?k := x] =
      replicate ?k free_entry @ x # replicate n zero_entry" for x
    by (metis length_replicate list_update_length)
  let ?t = "s\<lparr>clients := replicate (MAX_CLIENTS - n) free_entry @ replicate n zero_entry\<rparr>"
  have rep: "replicate ?k free_entry @ free_entry # replicate n zero_entry =
      replicate (MAX_CLIENTS - n) free_entry @ replicate n zero_entry"
    using Suc.prems(2) by (simp add: Suc_diff_Suc replicate_append_same flip: replicate_Suc append_Cons append_assoc)
  have zero: "zero_entry\<lparr>socket_fd := - 1\<rparr> = free_entry" by (simp add: free_entry_def)
  have free: "free_entry\<lparr>send_mutex := False\<rparr> = free_entry" by (simp add: free_entry_def zero_entry_def)
  have nth': "(replicate ?k free_entry @ free_entry # replicate n zero_entry) ! ?k = free_entry"
    by (metis length_replicate nth_append_length)
  have upd': "(replicate ?k free_entry @ free_entry # replicate n zero_entry)[?k := x] =
      replicate ?k free_entry @ x # replicate n zero_entry" for x
    by (metis length_replicate list_update_length)
  have "run_state (init_loop (Suc n)) s = run_state (init_loop n) ?t"
    using Suc.prems
    by (simp add: upd_entry_def nth upd nth' upd' mtx_ok_quiet rep [symmetric] zero free)
  then show ?case using Suc.IH [of ?t] Suc.prems by simp
qed

lemma client_manager_init_idle:
  assumes "mtx_script s = []" and "\<not> clients_mutex s" and "\<not> manager_initialized s"
  shows "run_state client_manager_init s =
    (0, s\<lparr>clients := replicate MAX_CLIENTS free_entry, next_client_id := 1, manager_initialized := True\<rparr>)"
  using assms
  by (simp add: client_manager_init_def run_mutex init_loop_ok clients_mutex_restore)

lemma init_establishes:
  assumes "mtx_script s = []" and "\<not> clients_mutex s" and "\<not> manager_initialized s" and "\<not> blocked s"
  shows "idle (exec client_manager_init s)" and "registry_inv (exec client_manager_init s)"
    and "count_active (clients (exec client_manager_init s)) = 0"
proof -
  have run: "exec client_manager_init s =
      s\<lparr>clients := replicate MAX_CLIENTS free_entry, next_client_id := 1, manager_initialized := True\<rparr>"
    by (simp add: client_manager_init_idle assms(1-3))
  have tab: "table (exec client_manager_init s) = replicate MAX_CLIENTS free_entry"
    by (simp add: run table_def strip_id free_entry_def zero_entry_def)
  show "idle (exec client_manager_init s)"
    using assms by (auto simp: run idle_def free_entry_def zero_entry_def)
  show "registry_inv (exec client_manager_init s)"
    unfolding registry_inv_def tab by (simp add: run entries_ok_def distinct_on_def free_entry_def zero_entry_def)
  have "count_active (replicate n free_entry) = 0" for n
    by (induction n) (simp_all add: free_entry_def zero_entry_def)
  then show "count_active (clients (exec client_manager_init s)) = 0" by (simp add: run)
qed

subsection \<open>The abstract registry: a map from user names to connections\<close>

definition registry :: "server \<Rightarrow> string \<rightharpoonup> int \<times> u32" where
  "registry s name =
     (let i = find_username_slot name s
      in if i < 0 then None
         else Some (socket_fd (clients s ! nat i), client_id (clients s ! nat i)))"

locale name_registry =
  fixes lookup :: "'s \<Rightarrow> string \<rightharpoonup> int \<times> u32"
    and add :: "int \<Rightarrow> nat \<Rightarrow> string \<Rightarrow> 's \<Rightarrow> int \<times> 's"
    and remove :: "int \<Rightarrow> 's \<Rightarrow> int \<times> 's"
    and inv :: "'s \<Rightarrow> bool" and room :: "'s \<Rightarrow> bool" and next_id :: "'s \<Rightarrow> u32"
  assumes one_name: "inv s \<Longrightarrow> lookup s m = Some (fd, i) \<Longrightarrow> lookup s n = Some (fd, j) \<Longrightarrow> m = n"
    and add_new: "inv s \<Longrightarrow> is_valid_username n \<Longrightarrow> lookup s n = None \<Longrightarrow> room s \<Longrightarrow> 0 \<le> fd \<Longrightarrow>
      \<forall>m i. lookup s m \<noteq> Some (fd, i) \<Longrightarrow>
      fst (add fd th n s) = sint (next_id s) \<and>
      lookup (snd (add fd th n s)) = (lookup s)(n \<mapsto> (fd, next_id s)) \<and> inv (snd (add fd th n s))"
    and add_invalid: "inv s \<Longrightarrow> \<not> is_valid_username n \<Longrightarrow> add fd th n s = (-1, s)"
    and add_duplicate: "inv s \<Longrightarrow> is_valid_username n \<Longrightarrow> lookup s n \<noteq> None \<Longrightarrow> add fd th n s = (-2, s)"
    and add_full: "inv s \<Longrightarrow> is_valid_username n \<Longrightarrow> lookup s n = None \<Longrightarrow> \<not> room s \<Longrightarrow>
      add fd th n s = (-1, s)"
    and remove_known: "inv s \<Longrightarrow> lookup s n = Some (fd, i) \<Longrightarrow>
      fst (remove fd s) = 0 \<and> lookup (snd (remove fd s)) = (lookup s)(n := None) \<and> inv (snd (remove fd s))"
    and remove_unknown: "inv s \<Longrightarrow> \<forall>n i. lookup s n \<noteq> Some (fd, i) \<Longrightarrow> remove fd s = (1, s)"
begin

text \<open>A session that registers and leaves gives the registry back as it was.\<close>

lemma session_restores:
  assumes "inv s" and "is_valid_username n" and "lookup s n = None" and "room s" and "0 \<le> fd"
    and "\<forall>m i. lookup s m \<noteq> Some (fd, i)"
  shows "lookup (snd (remove fd (snd (add fd th n s)))) = lookup s"
    and "inv (snd (remove fd (snd (add fd th n s))))"
proof -
  note a = add_new [OF assms, of th]
  have l: "lookup (snd (add fd th n s)) n = Some (fd, next_id s)" using a by simp
  from remove_known [OF _ l] a assms(3)
  show "lookup (snd (remove fd (snd (add fd th n s)))) = lookup s"
    and "inv (snd (remove fd (snd (add fd th n s))))" by auto
qed

text \<open>While a name is registered nobody else can take it, whatever connection they use.\<close>

lemma name_is_exclusive:
  assumes "inv s" and "is_valid_username n" and "lookup s n = None" and "room s" and "0 \<le> fd"
    and "\<forall>m i. lookup s m \<noteq> Some (fd, i)"
  shows "add fd' th' n (snd (add fd th n s)) = (-2, snd (add fd th n s))"
  using add_new [OF assms, of th] add_duplicate [OF _ assms(2)] by simp

text \<open>Any sequence of attempts keeps the invariant and never loses a name it did not remove.\<close>

lemma add_keeps_others:
  assumes "inv s" and "0 \<le> fd" and "\<forall>m i. lookup s m \<noteq> Some (fd, i)" and "lookup s m = Some x"
  shows "lookup (snd (add fd th n s)) m = Some x" and "inv (snd (add fd th n s))"
proof -
  consider "\<not> is_valid_username n" | "is_valid_username n" "lookup s n \<noteq> None"
    | "is_valid_username n" "lookup s n = None" "\<not> room s"
    | "is_valid_username n" "lookup s n = None" "room s" by blast
  then have "lookup (snd (add fd th n s)) m = Some x \<and> inv (snd (add fd th n s))"
    using assms add_invalid add_duplicate add_full add_new [OF assms(1) _ _ _ assms(2,3)]
    by cases auto
  then show "lookup (snd (add fd th n s)) m = Some x" and "inv (snd (add fd th n s))" by auto
qed

end

lemma registry_SomeI:
  assumes "registry_inv s" and "k < length (table s)" and "active (table s ! k)"
  shows "registry s (username (table s ! k)) = Some (socket_fd (table s ! k), client_id (table s ! k))"
proof -
  have "find_username_slot (username (table s ! k)) s = int k"
    unfolding find_table using assms
    by (intro find_from_unique) (auto simp: registry_inv_def distinct_on_def)
  then show ?thesis using assms(2) by (simp add: registry_def table_def)
qed

lemma registry_SomeD:
  assumes "registry s n = Some (fd, i)"
  obtains k where "k < length (table s)" "active (table s ! k)" "username (table s ! k) = n"
    "socket_fd (table s ! k) = fd" "client_id (table s ! k) = i"
proof -
  have found: "0 \<le> find_username_slot n s"
    and fd: "socket_fd (clients s ! nat (find_username_slot n s)) = fd"
      "client_id (clients s ! nat (find_username_slot n s)) = i"
    using assms by (auto simp: registry_def Let_def split: if_splits)
  show thesis using slot_props(3) [OF found] fd
    by (intro that [of "nat (find_username_slot n s)"]) (auto simp: table_def)
qed

lemma registry_None_iff: "registry s n = None \<longleftrightarrow> find_username_slot n s < 0"
  by (simp add: registry_def Let_def)

lemma registry_Some_iff:
  assumes "registry_inv s"
  shows "registry s n = Some (fd, i) \<longleftrightarrow> (\<exists>k < length (table s). active (table s ! k) \<and>
    username (table s ! k) = n \<and> socket_fd (table s ! k) = fd \<and> client_id (table s ! k) = i)"
  using registry_SomeI [OF assms] by (fastforce elim!: registry_SomeD)

lemma registry_one_name:
  assumes "registry_inv s" and "registry s m = Some (fd, i)" and "registry s n = Some (fd, j)"
  shows "m = n"
proof -
  obtain k where k: "k < length (table s)" "active (table s ! k)" "username (table s ! k) = m"
    "socket_fd (table s ! k) = fd" using assms(2) by (rule registry_SomeD)
  obtain l where l: "l < length (table s)" "active (table s ! l)" "username (table s ! l) = n"
    "socket_fd (table s ! l) = fd" using assms(3) by (rule registry_SomeD)
  have "distinct_on socket_fd (table s)" using assms(1) by (simp add: registry_inv_def)
  with k l have "k = l" by (auto simp: distinct_on_def)
  with k l show ?thesis by simp
qed

lemma registry_socket:
  assumes "registry_inv s"
  shows "(\<forall>n i. registry s n \<noteq> Some (fd, i)) \<longleftrightarrow> find_socket_slot fd s < 0"
  unfolding registry_Some_iff [OF assms] find_table(2)
  by (simp add: find_from_neg all_set_conv_all_nth) blast

lemma registry_register:
  assumes "registry_inv s" and "is_valid_username name" and "find_username_slot name s < 0"
    and "fd_unused fd s" and "0 \<le> find_free_slot s"
  shows "registry (register_entry (find_free_slot s) fd thread name s) =
    (registry s)(name \<mapsto> (fd, next_client_id s))"
proof -
  let ?k = "nat (find_free_slot s)" and ?t = "register_entry (find_free_slot s) fd thread name s"
  have k: "?k < length (table s)" and free: "\<not> active (table s ! ?k)"
    using slot_props(1) [OF assms(5)] by (auto simp: table_def)
  have inv: "registry_inv ?t" by (rule registry_inv_register [OF assms(1-4)])
  have other: "\<not> (\<exists>k < length (table s). active (table s ! k) \<and> username (table s ! k) = name)"
    using assms(3) by (auto simp: find_username_neg_iff)
  have "registry ?t n = Some (x, j) \<longleftrightarrow> ((registry s)(name \<mapsto> (fd, next_client_id s))) n = Some (x, j)"
    for n x j
  proof (cases "n = name")
    case True
    have "registry ?t name = Some (fd, next_client_id s)"
      using registry_SomeI [OF inv, of ?k] k assms(2) by (simp add: table_register)
    with True show ?thesis by auto
  next
    case False
    have "(\<exists>k < length (table ?t). active (table ?t ! k) \<and> username (table ?t ! k) = n \<and>
        socket_fd (table ?t ! k) = x \<and> client_id (table ?t ! k) = j) \<longleftrightarrow>
      (\<exists>k < length (table s). active (table s ! k) \<and> username (table s ! k) = n \<and>
        socket_fd (table s ! k) = x \<and> client_id (table s ! k) = j)"
      (is "?L \<longleftrightarrow> ?R")
    proof
      assume ?L
      with False k assms(2) show ?R by (auto simp: table_register nth_list_update split: if_splits)
    next
      assume ?R
      then obtain l where l: "l < length (table s)" "active (table s ! l)" "username (table s ! l) = n"
        "socket_fd (table s ! l) = x" "client_id (table s ! l) = j" by blast
      with free have "l \<noteq> ?k" by auto
      with l show ?L by (intro exI [of _ l]) (simp add: table_register)
    qed
    with False show ?thesis by (simp add: registry_Some_iff [OF inv] registry_Some_iff [OF assms(1)])
  qed
  then show ?thesis by (metis option.exhaust surj_pair ext)
qed

lemma registry_clear:
  assumes "registry_inv s" and "registry s name = Some (fd, i)"
  shows "registry (upd_entry (nat (find_socket_slot fd s)) clear_entry s) = (registry s)(name := None)"
proof -
  obtain k where k: "k < length (table s)" "active (table s ! k)" "username (table s ! k) = name"
    "socket_fd (table s ! k) = fd" "client_id (table s ! k) = i" using assms(2) by (rule registry_SomeD)
  have dist: "distinct_on socket_fd (table s)" "distinct_on username (table s)"
    using assms(1) by (auto simp: registry_inv_def)
  have slot: "find_socket_slot fd s = int k"
    unfolding find_table using k dist(1) by (intro find_from_unique) (auto simp: distinct_on_def)
  let ?t = "upd_entry k clear_entry s"
  have inv: "registry_inv ?t" by (rule registry_inv_clear [OF assms(1)])
  have "registry ?t n = Some (x, j) \<longleftrightarrow> ((registry s)(name := None)) n = Some (x, j)" for n x j
  proof -
    have same: "l = k" if "l < length (table s)" "active (table s ! l)" "username (table s ! l) = name" for l
      using that k dist(2) by (auto simp: distinct_on_def)
    have row: "active (table ?t ! l) \<longleftrightarrow> l \<noteq> k \<and> active (table s ! l)"
      "l \<noteq> k \<Longrightarrow> table ?t ! l = table s ! l" "length (table ?t) = length (table s)" for l
      using k(1) by (auto simp: table_clear nth_list_update clear_entry_def)
    have "registry ?t n = Some (x, j) \<longleftrightarrow> (\<exists>l < length (table s). l \<noteq> k \<and> active (table s ! l) \<and>
        username (table s ! l) = n \<and> socket_fd (table s ! l) = x \<and> client_id (table s ! l) = j)"
      unfolding registry_Some_iff [OF inv] row(1,3) using row(2) by auto
    also have "\<dots> \<longleftrightarrow> n \<noteq> name \<and> registry s n = Some (x, j)"
      unfolding registry_Some_iff [OF assms(1)] using same k(3) by blast
    finally show ?thesis by simp
  qed
  then have "registry ?t = (registry s)(name := None)" by (metis option.exhaust surj_pair ext)
  with slot show ?thesis by simp
qed

interpretation reg: name_registry registry "\<lambda>fd th n. run_state (client_manager_add fd th n)"
  "\<lambda>fd. run_state (client_manager_remove fd)" "\<lambda>s. idle s \<and> registry_inv s"
  "\<lambda>s. 0 \<le> find_free_slot s" next_client_id
proof (unfold_locales, goal_cases)
  case (1 s m fd i n j)
  then show ?case using registry_one_name by blast
next
  case (2 s n fd th)
  then have "fd_unused fd s" using registry_socket [of s fd] by (simp add: fd_unused_def)
  with 2 show ?case
    using registry_register [of s n fd th] registry_inv_register [of s n fd _ th] idle_register
    by (simp add: add_idle registry_None_iff)
next
  case (3 s n fd th)
  then show ?case by (simp add: add_idle)
next
  case (4 s n fd th)
  then show ?case by (auto simp: add_idle registry_None_iff)
next
  case (5 s n fd th)
  then show ?case by (simp add: add_idle registry_None_iff)
next
  case (6 s n fd i)
  then have "0 \<le> find_socket_slot fd s" using registry_socket [of s fd] by force
  with 6 show ?case
    using registry_clear [of s n fd i] idle_clear registry_inv_clear by (simp add: remove_idle)
next
  case (7 s fd)
  then show ?case using registry_socket [of s fd] by (simp add: remove_idle)
qed

subsection \<open>Queries\<close>

text \<open>The names in the table, in slot order.\<close>

definition names :: "client_entry_t list \<Rightarrow> string list" where
  "names cs = map username (filter active cs)"

lemma names_table [simp]: "names (table s) = names (clients s)"
proof -
  have "names (map strip cs) = names cs" for cs by (induction cs) (auto simp: names_def)
  then show ?thesis by (simp add: table_def)
qed

lemma set_names: "registry_inv s \<Longrightarrow> set (names (clients s)) = dom (registry s)"
  unfolding dom_def names_table [symmetric]
  by (auto simp: names_def in_set_conv_nth registry_Some_iff)

lemma distinct_names_aux:
  assumes "distinct_on username cs"
  shows "distinct (names cs)"
  using assms
proof (induction cs)
  case (Cons c cs)
  have rest: "distinct_on username cs"
    unfolding distinct_on_def
  proof (intro allI impI)
    fix i j
    assume "i < length cs" "j < length cs" "active (cs ! i) \<and> active (cs ! j) \<and> username (cs ! i) = username (cs ! j)"
    with Cons.prems [unfolded distinct_on_def, rule_format, of "Suc i" "Suc j"] show "i = j" by simp
  qed
  have "username c \<noteq> username d" if "active c" "d \<in> set cs" "active d" for d
  proof -
    from that obtain i where "i < length cs" "cs ! i = d" by (auto simp: in_set_conv_nth)
    with that Cons.prems [unfolded distinct_on_def, rule_format, of 0 "Suc i"] show ?thesis by auto
  qed
  with Cons.IH [OF rest] show ?case by (auto simp: names_def)
qed (simp add: names_def)

lemma distinct_names: "registry_inv s \<Longrightarrow> distinct (names (clients s))"
  using distinct_names_aux [of "table s"] by (simp add: registry_inv_def)

lemma count_active_names: "count_active cs = length (names cs)"
  by (induction cs) (auto simp: names_def)

lemma length_names: "registry_inv s \<Longrightarrow> length (names (clients s)) \<le> MAX_CLIENTS"
  using length_filter_le [of active "clients s"]
  by (simp add: names_def registry_inv_def entries_ok_def table_def)

lemma count_card: "registry_inv s \<Longrightarrow> count_active (clients s) = card (dom (registry s))"
  using distinct_card [OF distinct_names] by (simp add: count_active_names set_names)

lemma count_idle: "idle s \<Longrightarrow> run_state client_manager_count s = (count_active (clients s), s)"
  by (simp add: client_manager_count_def run_mutex idleD clients_mutex_restore)

lemma get_username_idle:
  assumes "idle s"
  shows "run_state (client_manager_get_username fd n) s =
    (if n = 0 then ((- 1, []), s)
     else if find_socket_slot fd s < 0 then ((1, []), s)
     else ((0, strncpy_buf n (username (clients s ! nat (find_socket_slot fd s)))), s))"
  using assms
  by (simp add: client_manager_get_username_def run_mutex idleD clients_mutex_restore)

lemma username_exists_idle:
  assumes "idle s"
  shows "run_state (client_manager_username_exists n) s =
    (is_valid_username n \<and> 0 \<le> find_username_slot n s, s)"
  using assms
  by (simp add: client_manager_username_exists_def run_mutex idleD clients_mutex_restore)

lemma contains_idle:
  "idle s \<Longrightarrow> run_state (client_manager_contains fd) s = (0 \<le> find_socket_slot fd s, s)"
  by (simp add: client_manager_contains_def run_mutex idleD clients_mutex_restore)

text \<open>One name per line, without the last newline.\<close>

definition lines :: "string list \<Rightarrow> string" where
  "lines xs = butlast (concat (map (\<lambda>x. x @ [CHR 0x0A]) xs))"

lemma userlist_loop_ok:
  assumes "\<forall>x \<in> set (names cs). length x < USERNAME_MAX_SIZE"
    and "length buf + USERNAME_MAX_SIZE * length (names cs) < cap"
  shows "userlist_loop cap cs buf n =
    Some (buf @ concat (map (\<lambda>x. x @ [CHR 0x0A]) (names cs)), n + int (length (names cs)))"
  using assms
  by (induction cs arbitrary: buf n) (auto simp: names_def)

lemma names_short: "registry_inv s \<Longrightarrow> x \<in> set (names (clients s)) \<Longrightarrow> length x < USERNAME_MAX_SIZE"
  unfolding names_table [symmetric]
  by (auto simp: names_def registry_inv_def entries_ok_def is_valid_username_iff USERNAME_MAX_SIZE_def)

lemma build_userlist_idle:
  assumes "idle s" and "registry_inv s" and "USERNAME_MAX_SIZE * MAX_CLIENTS < cap"
  shows "run_state (client_manager_build_userlist cap) s =
    ((int (card (dom (registry s))), lines (names (clients s))), s)"
proof -
  have "USERNAME_MAX_SIZE * length (names (clients s)) < cap"
    using assms(3) length_names [OF assms(2)] by (meson le_less_trans mult_le_mono2)
  then have "userlist_loop cap (clients s) [] 0 =
      Some (concat (map (\<lambda>x. x @ [CHR 0x0A]) (names (clients s))), int (length (names (clients s))))"
    using names_short [OF assms(2)] by (simp add: userlist_loop_ok)
  with assms show ?thesis
    using count_card [OF assms(2)]
    by (simp add: client_manager_build_userlist_def run_mutex idleD clients_mutex_restore lines_def
        count_active_names)
qed

end
