(* ===== verification/Routing.thy ===== *)
theory Routing
  imports Registry
begin

section \<open>Correctness of message routing\<close>

text \<open>
  What \<open>client_manager_send\<close>, \<open>client_manager_send_to_username\<close>,
  \<open>client_manager_send_file_stream\<close> and \<open>client_manager_broadcast\<close> put on which
  socket. From an idle state every one of them takes and releases its mutexes and returns to
  an idle state; the only other change is what was written to the sockets.
\<close>

subsection \<open>The raw sender\<close>

lemma send_message_raw_eq:
  assumes "is_valid_message_type t" and "length p \<le> MESSAGE_MAX_SIZE"
  shows "run_state (send_message_raw fd t p) s =
      run_state (do { r \<leftarrow> send_all fd (header_bytes \<lparr>type_field = t, length_field = of_nat (length p)\<rparr>);
                      if r \<noteq> 0 then ret (- 1) else send_all fd p }) s"
  using assms
  by (auto simp: send_message_raw_def split: prod.splits dest: send_all_result)

interpretation raw: frame_sender send_message_raw is_valid_message_type
proof (unfold_locales, goal_cases)
  case (1 t p fd s)
  then show ?case by (auto simp: send_message_raw_def)
next
  case (2 t p fd s)
  then show ?case by (rule send_message_raw_eq)
qed

subsection \<open>The server state and its sockets\<close>

text \<open>Writing to a socket changes neither the table nor any mutex.\<close>

lemma wrote_server:
  fixes s s' :: server
  assumes "wrote fd p s s'"
  shows "clients s' = clients s" "clients_mutex s' = clients_mutex s" "blocked s' = blocked s"
    "next_client_id s' = next_client_id s" "manager_initialized s' = manager_initialized s"
    "server_running s' = server_running s" "mtx_script s' = mtx_script s" "log_queue s' = log_queue s"
    "log_script s' = log_script s" "server_socket s' = server_socket s"
proof -
  have "os.more s' = os.more s" and "mtx_script s' = mtx_script s"
    using assms by (auto simp: wrote_def net_rest_def)
  then show "clients s' = clients s" "clients_mutex s' = clients_mutex s" "blocked s' = blocked s"
    "next_client_id s' = next_client_id s" "manager_initialized s' = manager_initialized s"
    "server_running s' = server_running s" "mtx_script s' = mtx_script s" "log_queue s' = log_queue s"
    "log_script s' = log_script s" "server_socket s' = server_socket s"
    by (cases s; cases s'; auto)+
qed

text \<open>Two mutex updates around a write cancel.\<close>

lemma wrote_under_mutex:
  fixes s s' :: server
  assumes "wrote fd p (upd_entry k (\<lambda>c. c\<lparr>send_mutex := True\<rparr>) s) s'"
    and "k < length (clients s)" and "\<not> send_mutex (clients s ! k)"
  shows "wrote fd p s (upd_entry k (\<lambda>c. c\<lparr>send_mutex := False\<rparr>) s')"
proof -
  have c: "clients s' = (clients s)[k := (clients s ! k)\<lparr>send_mutex := True\<rparr>]"
    using wrote_server(1) [OF assms(1)] by simp
  have "(clients s')[k := (clients s' ! k)\<lparr>send_mutex := False\<rparr>] = clients s"
    using assms(2,3) by (simp add: c send_mutex_self)
  with assms(1) show ?thesis
    by (cases s; cases s') (auto simp: wrote_def net_rest_def upd_entry_def)
qed

lemma idle_wrote:
  fixes s s' :: server
  assumes "wrote fd p s s'"
  shows "idle s' = idle s" "registry_inv s' = registry_inv s" "registry s' = registry s"
  by (simp_all add: wrote_server [OF assms] idle_def registry_inv_def table_def registry_def
      find_username_slot_def fun_eq_iff Let_def)

lemma net_script_irrelevant:
  fixes s :: server
  shows "idle (s\<lparr>net_script := x\<rparr>) = idle s" "registry_inv (s\<lparr>net_script := x\<rparr>) = registry_inv s"
    "registry (s\<lparr>net_script := x\<rparr>) = registry s"
  by (simp_all add: idle_def registry_inv_def table_def registry_def find_username_slot_def fun_eq_iff
      Let_def)

lemma calm_upd_entry [simp]:
  "calm fd (upd_entry k f s) = calm fd s" "calm fd (s\<lparr>clients_mutex := b\<rparr>) = calm fd s"
  by (simp_all add: calm_def is_sock_def fd_obj_def upd_entry_def)

lemma socks_upd_entry [simp]: "socks (upd_entry k f s) = socks s"
  by (simp add: upd_entry_def)

subsection \<open>Sending through a slot\<close>

text \<open>The common tail: the send mutex of slot \<open>k\<close> is taken, the message sent, the mutex released.\<close>

definition through_slot :: "nat \<Rightarrow> int srv \<Rightarrow> int srv" where
  "through_slot k m = do {
     modify (upd_entry k (\<lambda>c. c\<lparr>send_mutex := True\<rparr>));
     r \<leftarrow> m;
     modify (upd_entry k (\<lambda>c. c\<lparr>send_mutex := False\<rparr>));
     ret r
   }"

lemma through_slot_sends:
  assumes "run_state (through_slot k (send_message_raw fd t p)) s = (r, s')"
    and "idle s" and "k < length (clients s)"
  obtains w where "wrote fd w s s'" and "prefix w (frame t p)" and "r = 0 \<longleftrightarrow> w = frame t p"
    and "r = 0 \<or> r = -1"
proof -
  let ?s = "upd_entry k (\<lambda>c. c\<lparr>send_mutex := True\<rparr>) s"
  obtain u where run: "run_state (send_message_raw fd t p) ?s = (r, u)"
    and s': "s' = upd_entry k (\<lambda>c. c\<lparr>send_mutex := False\<rparr>) u"
    using assms(1) by (auto simp: through_slot_def split: prod.splits)
  from raw.any [OF run] obtain w where w: "wrote fd w ?s u" "prefix w (frame t p)"
    "r = 0 \<longleftrightarrow> w = frame t p" "r = 0 \<or> r = -1" by metis
  from wrote_under_mutex [OF w(1) assms(3)] idleD(5) [OF assms(2,3)] s' w(2-4) that show thesis by blast
qed

lemma through_slot_calm:
  assumes "idle s" and "k < length (clients s)" and "calm fd s"
    and "is_valid_message_type t" and "length p \<le> MESSAGE_MAX_SIZE"
  obtains s' where "run_state (through_slot k (send_message_raw fd t p)) s = (0, s')"
    and "wrote fd (frame t p) s s'" and "calm fd s'"
proof -
  let ?s = "upd_entry k (\<lambda>c. c\<lparr>send_mutex := True\<rparr>) s"
  from raw.lively [OF assms(4,5), of fd ?s] assms(3) obtain u where
    run: "run_state (send_message_raw fd t p) ?s = (0, u)" and w: "wrote fd (frame t p) ?s u" and "calm fd u"
    by auto
  show thesis
  proof (rule that)
    show "run_state (through_slot k (send_message_raw fd t p)) s =
        (0, upd_entry k (\<lambda>c. c\<lparr>send_mutex := False\<rparr>) u)" by (simp add: through_slot_def run)
    show "wrote fd (frame t p) s (upd_entry k (\<lambda>c. c\<lparr>send_mutex := False\<rparr>) u)"
      using wrote_under_mutex [OF w assms(2)] idleD(5) [OF assms(1,2)] by blast
    show "calm fd (upd_entry k (\<lambda>c. c\<lparr>send_mutex := False\<rparr>) u)" using \<open>calm fd u\<close> by simp
  qed
qed

lemma lock_order:
  assumes "idle s" and "k < length (clients s)"
  shows "(upd_entry k (\<lambda>c. c\<lparr>send_mutex := True\<rparr>) s)\<lparr>clients_mutex := False\<rparr> =
    upd_entry k (\<lambda>c. c\<lparr>send_mutex := True\<rparr>) s"
  using idleD(2) [OF assms(1)] by (simp add: clients_mutex_restore)

lemma mutex_script_raw:
  assumes "run_state (send_message_raw fd t p) s = (r, s')"
  shows "mtx_script s' = mtx_script s"
  using raw.any [OF assms] by (auto simp: wrote_def net_rest_def)

lemma send_to_target_idle:
  assumes "idle s" and "length (clients s) = MAX_CLIENTS"
  shows "run_state (send_to_target i j t p) s =
    (if i < 0 \<or> int MAX_CLIENTS \<le> i then (- 1, s)
     else if \<not> active (clients s ! nat i) \<or> client_id (clients s ! nat i) \<noteq> j then (1, s)
     else run_state (through_slot (nat i) (send_message_raw (socket_fd (clients s ! nat i)) t p)) s)"
proof (cases "i < 0 \<or> int MAX_CLIENTS \<le> i \<or> \<not> active (clients s ! nat i) \<or> client_id (clients s ! nat i) \<noteq> j")
  case True
  with idleD(1,2) [OF assms(1)] show ?thesis
    by (auto simp: send_to_target_def run_mutex clients_mutex_restore)
next
  case False
  then have k: "nat i < length (clients s)" using assms(2) by auto
  obtain r u where run: "run_state (send_message_raw (socket_fd (clients s ! nat i)) t p)
      (upd_entry (nat i) (\<lambda>c. c\<lparr>send_mutex := True\<rparr>) s) = (r, u)" by fastforce
  have "mtx_script u = []" using mutex_script_raw [OF run] idleD(1) [OF assms(1)] by simp
  with False k run idleD(1,2) [OF assms(1)] idleD(5) [OF assms(1) k] show ?thesis
    by (simp add: send_to_target_def run_mutex clients_mutex_restore lock_order through_slot_def)
qed

lemma client_manager_send_idle:
  assumes "idle s"
  shows "run_state (client_manager_send fd t p) s =
    (if \<not> is_valid_message_type t \<or> MESSAGE_MAX_SIZE < length p then (- 1, s)
     else if find_socket_slot fd s < 0 then (1, s)
     else run_state (through_slot (nat (find_socket_slot fd s)) (send_message_raw fd t p)) s)"
proof (cases "\<not> is_valid_message_type t \<or> MESSAGE_MAX_SIZE < length p \<or> find_socket_slot fd s < 0")
  case True
  with idleD(1,2) [OF assms] show ?thesis
    by (auto simp: client_manager_send_def run_mutex clients_mutex_restore)
next
  case False
  let ?k = "nat (find_socket_slot fd s)"
  from False have k: "?k < length (clients s)" and fd: "socket_fd (clients s ! ?k) = fd"
    using slot_props(2) [of fd s] by auto
  obtain r u where run: "run_state (send_message_raw fd t p)
      (upd_entry ?k (\<lambda>c. c\<lparr>send_mutex := True\<rparr>) s) = (r, u)" by fastforce
  have "mtx_script u = []" using mutex_script_raw [OF run] idleD(1) [OF assms] by simp
  with False k fd run idleD(1,2) [OF assms] idleD(5) [OF assms k] show ?thesis
    by (simp add: client_manager_send_def run_mutex clients_mutex_restore lock_order through_slot_def)
qed

lemma client_manager_send_to_username_idle:
  assumes "idle s" and "length (clients s) = MAX_CLIENTS"
  shows "run_state (client_manager_send_to_username n t p) s =
    (if \<not> is_valid_username n \<or> \<not> is_valid_message_type t \<or> MESSAGE_MAX_SIZE < length p then (- 1, s)
     else if find_username_slot n s < 0 then (1, s)
     else let k = nat (find_username_slot n s)
          in run_state (through_slot k (send_message_raw (socket_fd (clients s ! k)) t p)) s)"
proof (cases "find_username_slot n s < 0")
  case True
  with idleD(1,2) [OF assms(1)] show ?thesis
    by (auto simp: client_manager_send_to_username_def run_mutex clients_mutex_restore)
next
  case False
  then have "0 \<le> find_username_slot n s" by simp
  note k = slot_props(3) [OF this]
  then have "find_username_slot n s < int MAX_CLIENTS" using assms(2) False by linarith
  with False k idleD(1,2) [OF assms(1)] show ?thesis
    by (auto simp: client_manager_send_to_username_def run_mutex clients_mutex_restore
        send_to_target_idle [OF assms] Let_def)
qed

subsection \<open>Broadcast\<close>

text \<open>\<open>fanout g s s'\<close>: the only change is that every socket \<open>fd\<close> got \<open>g fd\<close>.\<close>

definition fanout :: "(int \<Rightarrow> byte list) \<Rightarrow> 'z os_scheme \<Rightarrow> 'z os_scheme \<Rightarrow> bool" where
  "fanout g s s' \<longleftrightarrow> net_rest s' = net_rest s \<and>
     socks s' = (\<lambda>fd. (socks s fd)\<lparr>outbox := outbox (socks s fd) @ g fd\<rparr>)"

lemma fanout_Nil: "fanout (\<lambda>_. []) s s"
  by (simp add: fanout_def)

lemma fanout_wrote:
  assumes "wrote fd w s t" and "fanout g t u" and "g fd = []"
  shows "fanout (g(fd := w)) s u"
  using assms by (auto simp: fanout_def wrote_def fun_eq_iff)

text \<open>The snapshot is the active entries other than the sender's, once each.\<close>

lemma snapshot_set:
  "set (snapshot_from sender i cs) =
   {\<lparr>slot = i + int k, target_id = client_id (cs ! k)\<rparr> |k. k < length cs \<and> active (cs ! k) \<and>
      socket_fd (cs ! k) \<noteq> sender}"
proof (induction cs arbitrary: i)
  case (Cons c cs)
  have split: "{\<lparr>slot = i + int k, target_id = client_id ((c # cs) ! k)\<rparr> |k. k < length (c # cs) \<and>
      active ((c # cs) ! k) \<and> socket_fd ((c # cs) ! k) \<noteq> sender} =
    (if active c \<and> socket_fd c \<noteq> sender then {\<lparr>slot = i, target_id = client_id c\<rparr>} else {}) \<union>
    {\<lparr>slot = i + 1 + int k, target_id = client_id (cs ! k)\<rparr> |k. k < length cs \<and> active (cs ! k) \<and>
      socket_fd (cs ! k) \<noteq> sender}" (is "?A = ?B \<union> ?C")
  proof (intro equalityI subsetI)
    fix x
    assume "x \<in> ?A"
    then obtain k where "x = \<lparr>slot = i + int k, target_id = client_id ((c # cs) ! k)\<rparr>"
      "k < length (c # cs)" "active ((c # cs) ! k)" "socket_fd ((c # cs) ! k) \<noteq> sender" by blast
    then show "x \<in> ?B \<union> ?C" by (cases k) auto
  next
    fix x
    assume "x \<in> ?B \<union> ?C"
    then show "x \<in> ?A"
    proof
      assume "x \<in> ?B"
      then show ?thesis by (auto split: if_splits intro!: exI [of _ 0])
    next
      assume "x \<in> ?C"
      then obtain k where "x = \<lparr>slot = i + 1 + int k, target_id = client_id (cs ! k)\<rparr>"
        "k < length cs" "active (cs ! k)" "socket_fd (cs ! k) \<noteq> sender" by blast
      then show ?thesis by (auto intro!: exI [of _ "Suc k"])
    qed
  qed
  show ?case unfolding split using Cons.IH [of "i + 1"] by simp
qed simp

lemma snapshot_distinct:
  "distinct (map slot (snapshot_from sender i cs)) \<and> (\<forall>x \<in> set (snapshot_from sender i cs). i \<le> slot x)"
proof (induction cs arbitrary: i)
  case (Cons c cs)
  have "i \<notin> slot ` set (snapshot_from sender (i + 1) cs)" using Cons.IH [of "i + 1"] by force
  with Cons.IH [of "i + 1"] show ?case by force
qed simp

text \<open>The sockets of a list of targets; targets the table still knows.\<close>

definition target_fds :: "server \<Rightarrow> broadcast_target_t list \<Rightarrow> int set" where
  "target_fds s xs = (\<lambda>x. socket_fd (clients s ! nat (slot x))) ` set xs"

definition live_target :: "server \<Rightarrow> broadcast_target_t \<Rightarrow> bool" where
  "live_target s x \<longleftrightarrow> 0 \<le> slot x \<and> slot x < int MAX_CLIENTS \<and> active (clients s ! nat (slot x)) \<and>
     client_id (clients s ! nat (slot x)) = target_id x"

lemma target_fds_simps [simp]:
  "target_fds s [] = {}"
  "target_fds s (x # xs) = insert (socket_fd (clients s ! nat (slot x))) (target_fds s xs)"
  by (simp_all add: target_fds_def)

lemma finite_target_fds [simp]: "finite (target_fds s xs)"
  by (simp add: target_fds_def)

lemma deliver_spec:
  assumes "run_state (deliver xs t p n) s = (r, s')" and "idle s" and "length (clients s) = MAX_CLIENTS"
    and "distinct_on socket_fd (clients s)" and "\<forall>x \<in> set xs. live_target s x" and "distinct (map slot xs)"
  shows "\<exists>g. fanout g s s' \<and> (\<forall>fd. prefix (g fd) (frame t p)) \<and> {fd. g fd \<noteq> []} \<subseteq> target_fds s xs \<and>
    r = n + card {fd. g fd = frame t p} \<and>
    (is_valid_message_type t \<and> length p \<le> MESSAGE_MAX_SIZE \<and> (\<forall>fd \<in> target_fds s xs. calm fd s) \<longrightarrow>
      (\<forall>fd \<in> target_fds s xs. g fd = frame t p))"
  using assms
proof (induction xs arbitrary: s n)
  case Nil
  have "frame t p \<noteq> []" using length_frame [of t p] by (auto simp del: length_frame)
  with Nil show ?case by (intro exI [of _ "\<lambda>_. []"]) (auto simp: fanout_Nil)
next
  case (Cons x xs)
  let ?k = "nat (slot x)"
  let ?fd = "socket_fd (clients s ! ?k)"
  have ne: "frame t p \<noteq> []" using length_frame [of t p] by (auto simp del: length_frame)
  have live: "live_target s x" and k: "?k < length (clients s)"
    using Cons.prems(3,5) by (auto simp: live_target_def)
  obtain q u where run: "run_state (through_slot ?k (send_message_raw ?fd t p)) s = (q, u)" by fastforce
  then have "run_state (send_to_target (slot x) (target_id x) t p) s = (q, u)"
    using live by (simp add: send_to_target_idle [OF Cons.prems(2,3)] live_target_def)
  with Cons.prems(1) have rest: "run_state (deliver xs t p (if q = 0 then Suc n else n)) u = (r, s')" by simp
  from through_slot_sends [OF run Cons.prems(2) k] obtain w where w: "wrote ?fd w s u"
    "prefix w (frame t p)" "q = 0 \<longleftrightarrow> w = frame t p" by metis
  note cl = wrote_server(1) [OF w(1)]
  have tgt: "target_fds u xs = target_fds s xs" by (simp add: target_fds_def cl)
  have "idle u" using Cons.prems(2) idle_wrote(1) [OF w(1)] by simp
  moreover have "\<forall>y \<in> set xs. live_target u y" using Cons.prems(5) by (simp add: live_target_def cl)
  ultimately obtain g where g: "fanout g u s'" "\<forall>fd. prefix (g fd) (frame t p)"
    "{fd. g fd \<noteq> []} \<subseteq> target_fds s xs"
    "r = (if q = 0 then Suc n else n) + card {fd. g fd = frame t p}"
    "is_valid_message_type t \<and> length p \<le> MESSAGE_MAX_SIZE \<and> (\<forall>fd \<in> target_fds s xs. calm fd u) \<longrightarrow>
      (\<forall>fd \<in> target_fds s xs. g fd = frame t p)"
    using Cons.IH [OF rest] Cons.prems(3,4,6) cl tgt by auto
  have new: "?fd \<notin> target_fds s xs"
  proof
    assume "?fd \<in> target_fds s xs"
    then obtain y where y: "y \<in> set xs" "socket_fd (clients s ! nat (slot y)) = ?fd"
      by (auto simp: target_fds_def)
    with Cons.prems(5) have "live_target s y" by simp
    with y live Cons.prems(3,4) have "nat (slot y) = ?k" by (auto simp: distinct_on_def live_target_def)
    with live \<open>live_target s y\<close> have "slot y = slot x" by (auto simp: live_target_def)
    with y(1) have "slot x \<in> slot ` set xs" by (metis imageI)
    with Cons.prems(6) show False by simp
  qed
  then have gfd: "g ?fd = []" using g(3) by auto
  have fin: "finite {fd. g fd = frame t p}"
    by (rule finite_subset [OF _ finite_target_fds [of s xs]]) (use g(3) ne in auto)
  have "{fd. (g(?fd := w)) fd = frame t p} =
      (if w = frame t p then insert ?fd {fd. g fd = frame t p} else {fd. g fd = frame t p})"
    using gfd ne by auto
  then have card: "r = n + card {fd. (g(?fd := w)) fd = frame t p}"
    using g(4) w(3) fin gfd ne by auto
  have calm: "\<forall>fd \<in> target_fds s (x # xs). (g(?fd := w)) fd = frame t p"
    if ok: "is_valid_message_type t" "length p \<le> MESSAGE_MAX_SIZE" "\<forall>fd \<in> target_fds s (x # xs). calm fd s"
  proof -
    from through_slot_calm [OF Cons.prems(2) k _ ok(1,2), of ?fd] ok(3) run have "q = 0" and cu: "calm ?fd u"
      by auto
    have "\<forall>fd \<in> target_fds s xs. calm fd u"
      using ok(3) cu wroteD(5,6) [OF w(1)] by (auto simp: calm_def is_sock_def fd_obj_def)
    with g(5) ok(1,2) \<open>q = 0\<close> w(3) show ?thesis by auto
  qed
  have prefixes: "\<forall>fd. prefix ((g(?fd := w)) fd) (frame t p)" using w(2) g(2) by simp
  have "{fd. (g(?fd := w)) fd \<noteq> []} \<subseteq> target_fds s (x # xs)" using g(3) by auto
  with fanout_wrote [OF w(1) g(1) gfd] prefixes card calm show ?case by blast
qed

text \<open>The connections a broadcast of \<open>sender\<close> is meant for.\<close>

definition audience :: "int \<Rightarrow> server \<Rightarrow> int set" where
  "audience sender s = {fd. \<exists>n i. registry s n = Some (fd, i)} - {sender}"

lemma audience_table:
  assumes "registry_inv s"
  shows "audience sender s = {socket_fd (table s ! k) |k. k < length (table s) \<and> active (table s ! k) \<and>
    socket_fd (table s ! k) \<noteq> sender}"
  unfolding audience_def registry_Some_iff [OF assms] by auto

lemma snapshot_audience:
  assumes "registry_inv s" and "idle s"
  shows "target_fds s (snapshot_from sender 0 (clients s)) = audience sender s"
  unfolding audience_table [OF assms(1)] table_idle [OF assms(2)] target_fds_def snapshot_set
  by (auto simp: image_iff) force

lemma snapshot_live:
  assumes "length (clients s) = MAX_CLIENTS" and "x \<in> set (snapshot_from sender 0 (clients s))"
  shows "live_target s x"
  using assms by (auto simp: snapshot_set live_target_def)

lemma broadcast_idle:
  assumes "idle s"
  shows "run_state (client_manager_broadcast sender t p) s =
    (if \<not> is_valid_message_type t \<or> MESSAGE_MAX_SIZE < length p then (- 1, s)
     else apfst int (run_state (deliver (snapshot_from sender 0 (clients s)) t p 0) s))"
  using idleD(1,2) [OF assms]
  by (auto simp: client_manager_broadcast_def run_mutex clients_mutex_restore apfst_def map_prod_def
      split: prod.splits)

lemma broadcast_spec:
  assumes "run_state (client_manager_broadcast sender t p) s = (r, s')" and "idle s" and "registry_inv s"
    and "is_valid_message_type t" and "length p \<le> MESSAGE_MAX_SIZE"
  obtains g where "fanout g s s'" and "\<And>fd. prefix (g fd) (frame t p)"
    and "\<And>fd. fd \<notin> audience sender s \<Longrightarrow> g fd = []"
    and "r = int (card {fd. g fd = frame t p})"
    and "\<forall>fd \<in> audience sender s. calm fd s \<Longrightarrow> \<forall>fd \<in> audience sender s. g fd = frame t p"
proof -
  let ?xs = "snapshot_from sender 0 (clients s)"
  have len: "length (clients s) = MAX_CLIENTS" and dist: "distinct_on socket_fd (clients s)"
    using assms(2,3) by (auto simp: registry_inv_def entries_ok_def)
  obtain n where run: "run_state (deliver ?xs t p 0) s = (n, s')" and r: "r = int n"
    using assms(1,4,5) by (auto simp: broadcast_idle [OF assms(2)] apfst_def map_prod_def split: prod.splits)
  have live: "\<forall>x \<in> set ?xs. live_target s x" using snapshot_live [OF len] by blast
  have "distinct (map slot ?xs)" using snapshot_distinct by blast
  from deliver_spec [OF run assms(2) len dist live this] assms(4,5) obtain g where
    "fanout g s s'" "\<forall>fd. prefix (g fd) (frame t p)" "{fd. g fd \<noteq> []} \<subseteq> audience sender s"
    "n = card {fd. g fd = frame t p}"
    "(\<forall>fd \<in> audience sender s. calm fd s) \<longrightarrow> (\<forall>fd \<in> audience sender s. g fd = frame t p)"
    unfolding snapshot_audience [OF assms(3,2)] by auto
  with r show thesis by (intro that [of g]) auto
qed

lemma fanout_server:
  fixes s s' :: server
  assumes "fanout g s s'"
  shows "idle s' = idle s" "registry_inv s' = registry_inv s" "registry s' = registry s"
    "clients s' = clients s"
proof -
  have "os.more s' = os.more s" and m: "mtx_script s' = mtx_script s"
    using assms by (auto simp: fanout_def net_rest_def)
  then have "clients s' = clients s" "clients_mutex s' = clients_mutex s" "blocked s' = blocked s"
    "manager_initialized s' = manager_initialized s" by (cases s; cases s'; auto)+
  with m show "idle s' = idle s" "registry_inv s' = registry_inv s" "registry s' = registry s"
    "clients s' = clients s"
    by (simp_all add: idle_def registry_inv_def table_def registry_def
      find_username_slot_def fun_eq_iff Let_def)
qed

subsection \<open>What routing leaves alone, whatever the mutex and socket calls return\<close>

definition send_rest :: "server \<Rightarrow> _" where
  "send_rest s = (fds s, dirs s, inodes s, next_ino s, ofd_locks s, mono_ns s, fs_script s,
     clk_script s, pid s, tid s, log_queue s, log_script s, table s, next_client_id s,
     manager_initialized s, server_running s, server_socket s)"

lemma send_rest_no_mutex: "no_mutex t = no_mutex s \<Longrightarrow> send_rest t = send_rest s"
proof -
  assume eq: "no_mutex t = no_mutex s"
  have "strip (strip c) = strip c" for c by (simp add: strip_def)
  then have "send_rest (no_mutex u) = send_rest u" for u
    by (simp add: send_rest_def no_mutex_def table_def)
  with eq show ?thesis by metis
qed

lemma send_rest_wrote: "wrote fd w s t \<Longrightarrow> send_rest t = send_rest s"
  using wrote_server [of fd w s t] by (simp add: wrote_def net_rest_def send_rest_def table_def)

lemma raw_send_frame: "state_io_rel (same send_rest) (send_message_raw fd t p)"
proof
  fix r and s s' :: server
  assume "run_state (send_message_raw fd t p) s = (r, s')"
  from raw.any [OF this] show "same send_rest s s'" by (metis send_rest_wrote same_def)
qed

lemma mutex_send_weaken: "state_io_rel (same no_mutex) m \<Longrightarrow> state_io_rel (same send_rest) m"
  by (erule same_weaken) (rule send_rest_no_mutex)

lemmas mutex_send_frames = mutex_frames [THEN mutex_send_weaken]

lemma routing_frames:
  "state_io_rel (same send_rest) (send_to_target i j t p)"
  "state_io_rel (same send_rest) (client_manager_send fd t p)"
  "state_io_rel (same send_rest) (client_manager_send_to_username n t p)"
  "state_io_rel (same send_rest) (deliver xs t p k)"
  "state_io_rel (same send_rest) (client_manager_broadcast fd t p)"
proof -
  note base = same.io_sys mutex_send_frames raw_send_frame
  show target: "state_io_rel (same send_rest) (send_to_target i j t p)" for i j
    unfolding send_to_target_def by (intro base)
  show "state_io_rel (same send_rest) (client_manager_send fd t p)"
    unfolding client_manager_send_def by (intro base)
  show "state_io_rel (same send_rest) (client_manager_send_to_username n t p)"
    unfolding client_manager_send_to_username_def by (intro base target)
  show deliver: "state_io_rel (same send_rest) (deliver xs t p k)" for xs k
    by (induction xs arbitrary: k) (simp_all add: same.io_return same.io_bind target)
  show "state_io_rel (same send_rest) (client_manager_broadcast fd t p)"
    unfolding client_manager_broadcast_def by (intro base deliver)
qed

subsection \<open>The registry as a state machine\<close>

text \<open>
  Any interleaving of whole operations of the client manager, with an environment that may
  change sockets and decide the outcome of every mutex and socket call. A connection that is
  registered uses a descriptor no registered client has, as the accept loop guarantees.
\<close>

inductive manager_step :: "server \<Rightarrow> server \<Rightarrow> bool" where
  add: "fd_unused fd s \<Longrightarrow> manager_step s (exec (client_manager_add fd th n) s)"
| remove: "manager_step s (exec (client_manager_remove fd) s)"
| send: "manager_step s (exec (client_manager_send fd t p) s)"
| send_to: "manager_step s (exec (client_manager_send_to_username n t p) s)"
| broadcast: "manager_step s (exec (client_manager_broadcast fd t p) s)"
| count: "manager_step s (exec client_manager_count s)"
| users: "manager_step s (exec (client_manager_build_userlist k) s)"
| environment: "manager_step s (s\<lparr>mtx_script := x, net_script := y, socks := z, fds := v\<rparr>)"

inductive_cases manager_stepE: "manager_step s s'"

lemma query_frames:
  "state_io_rel (same no_mutex) client_manager_count"
  "state_io_rel (same no_mutex) (client_manager_build_userlist k)"
  "state_io_rel (same no_mutex) (client_manager_get_username fd k)"
  "state_io_rel (same no_mutex) (client_manager_username_exists n)"
  "state_io_rel (same no_mutex) (client_manager_contains fd)"
  unfolding client_manager_count_def client_manager_build_userlist_def client_manager_get_username_def
    client_manager_username_exists_def client_manager_contains_def
  by (intro same.io_sys mutex_frames)+

lemma registry_inv_send_rest:
  assumes "send_rest s' = send_rest s"
  shows "registry_inv s' = registry_inv s"
  using assms by (simp add: registry_inv_def send_rest_def)

lemma manager_step_inv: "manager_step s s' \<Longrightarrow> registry_inv s \<Longrightarrow> registry_inv s'"
proof (induction rule: manager_step.induct)
  case (add fd s th n)
  then show ?case using add_keeps_inv [of s fd th n] by (metis prod.collapse)
next
  case (remove s fd)
  then show ?case using keeps_run [OF remove_keeps_inv] by (metis prod.collapse)
next
  case (send s fd t p)
  then show ?case using registry_inv_send_rest [OF same_exec [OF routing_frames(2)]] by blast
next
  case (send_to s n t p)
  then show ?case using registry_inv_send_rest [OF same_exec [OF routing_frames(3)]] by blast
next
  case (broadcast s fd t p)
  then show ?case using registry_inv_send_rest [OF same_exec [OF routing_frames(5)]] by blast
next
  case (count s)
  then show ?case using registry_inv_no_mutex [OF same_exec [OF query_frames(1)]] by blast
next
  case (users s k)
  then show ?case using registry_inv_no_mutex [OF same_exec [OF query_frames(2)]] by blast
next
  case (environment s x y z v)
  then show ?case by (simp add: registry_inv_def table_def)
qed

end
