(* ===== verification/Online.thy ===== *)
theory Online
  imports Routing
begin

section \<open>A small population\<close>

text \<open>
  A server process with three open sockets in which two users have logged in, built by the
  program's own operations. The component theorems are applied to it.
\<close>

definition boot :: server where
  "boot = \<lparr>errno = E0, pid = 100, tid = 7, fds = [(3, FSock), (4, FSock), (5, FSock)],
     socks = (\<lambda>_. \<lparr>inbox = [], outbox = [], shut = False\<rparr>),
     dirs = (\<lambda>_. \<lparr>dkind = DMissing, ents = []\<rparr>),
     inodes = (\<lambda>_. \<lparr>ikind = IReg, content = [], imode = 0\<rparr>), next_ino = 0, ofd_locks = [],
     mono_ns = 0, net_script = [], fs_script = [], mtx_script = [], clk_script = [],
     log_queue = [], log_script = [],
     clients = replicate MAX_CLIENTS zero_entry, clients_mutex = False, next_client_id = 0,
     manager_initialized = False, server_running = True, server_socket = 9, blocked = False\<rparr>"

definition nobody :: server where
  "nobody = boot\<lparr>clients := replicate MAX_CLIENTS free_entry, next_client_id := 1, manager_initialized := True\<rparr>"

definition alice_only :: server where
  "alice_only = register_entry 0 3 7 ''alice'' nobody"

definition online :: server where
  "online = register_entry 1 4 8 ''bob'' alice_only"

lemma boot_quiet:
  "mtx_script boot = []" "\<not> clients_mutex boot" "\<not> manager_initialized boot" "\<not> blocked boot"
  by (simp_all add: boot_def)

lemma nobody_init: "exec client_manager_init boot = nobody"
  by (simp add: client_manager_init_idle [OF boot_quiet(1-3)] nobody_def)

lemma nobody_ok: "idle nobody" "registry_inv nobody" "registry nobody = Map.empty"
proof -
  show "idle nobody" "registry_inv nobody"
    using init_establishes(1,2) [OF boot_quiet] by (simp_all add: nobody_init)
  have "find_username_slot n nobody < 0" for n
    unfolding find_username_slot_def nobody_def
    by (simp add: find_from_neg free_entry_def zero_entry_def)
  then show "registry nobody = Map.empty" by (simp add: registry_None_iff fun_eq_iff)
qed

lemma names_valid [simp]: "is_valid_username ''alice''" "is_valid_username ''bob''"
  "is_valid_username ''carol''"
  by code_simp+

lemma free_slots: "find_free_slot nobody = 0" "find_free_slot alice_only = 1" "find_free_slot online = 2"
proof -
  have rep: "replicate MAX_CLIENTS free_entry = free_entry # free_entry # free_entry # replicate 61 free_entry"
    by (simp add: MAX_CLIENTS_def numeral_eq_Suc)
  show "find_free_slot nobody = 0" "find_free_slot alice_only = 1" "find_free_slot online = 2"
    unfolding find_free_slot_def online_def alice_only_def nobody_def register_entry_def upd_entry_def
    by (simp_all add: rep) (simp_all add: free_entry_def zero_entry_def)
qed

lemma alice_run:
  "run_state (client_manager_add 3 7 ''alice'') nobody = (1, alice_only)"
  using nobody_ok registry_None_iff [of nobody "''alice''"]
  by (simp add: add_idle free_slots alice_only_def) (simp add: nobody_def)

lemma next_ids: "next_client_id nobody = 1" "next_client_id alice_only = 2"
  by (simp_all add: alice_only_def nobody_def register_entry_def)

lemma alice_ok: "idle alice_only" "registry_inv alice_only" "registry alice_only = [''alice'' \<mapsto> (3, 1)]"
  using reg.add_new [of nobody "''alice''" 3 7] nobody_ok
  by (simp_all add: alice_run free_slots next_ids)

lemma online_run: "run_state (client_manager_add 4 8 ''bob'') alice_only = (2, online)"
  using alice_ok registry_None_iff [of alice_only "''bob''"]
  by (simp add: add_idle free_slots online_def) (simp add: alice_only_def nobody_def register_entry_def upd_entry_def)

lemma online_ok: "idle online" "registry_inv online"
  "registry online = [''alice'' \<mapsto> (3, 1), ''bob'' \<mapsto> (4, 2)]"
  using reg.add_new [of alice_only "''bob''" 4 8] alice_ok
  by (simp_all add: online_run free_slots next_ids)

lemma online_audience: "audience 3 online = {4}"
proof -
  have "audience 3 online = fst ` ran (registry online) - {3}"
    by (force simp: audience_def ran_def)
  also have "\<dots> = {4, 3} - {3}" by (simp add: online_ok)
  also have "\<dots> = {4}" by (simp add: insert_Diff_if)
  finally show ?thesis .
qed

lemma online_calm: "fd \<in> {3, 4, 5} \<Longrightarrow> calm fd online"
  by (auto simp: calm_def is_sock_def fd_obj_def online_def alice_only_def nobody_def boot_def
      register_entry_def upd_entry_def)

end
