(* ===== verification/Routing_Properties.thy ===== *)
theory Routing_Properties
  imports Online
begin

section \<open>The properties of the registry and of routing\<close>

text \<open>
  What the client manager promises, each stated over its operations and applied to the
  population of \<open>Online\<close>.
\<close>

text \<open>C1: when no destination socket fails, a broadcast of a valid frame is appended exactly once
  to the stream of every registered connection other than the sender's, changes no other socket,
  leaves the registry and the mutexes as they were, and returns the number of recipients.\<close>

theorem broadcast_reaches_everyone:
  assumes "idle s" and "registry_inv s" and "is_valid_message_type t" and "length p \<le> MESSAGE_MAX_SIZE"
    and "\<forall>fd \<in> audience sender s. calm fd s"
  shows "\<exists>s'. run_state (client_manager_broadcast sender t p) s = (int (card (audience sender s)), s') \<and>
    socks s' = (\<lambda>fd. if fd \<in> audience sender s
                     then (socks s fd)\<lparr>outbox := outbox (socks s fd) @ frame t p\<rparr> else socks s fd) \<and>
    registry s' = registry s \<and> idle s' \<and> fds s' = fds s"
proof -
  obtain r s' where run: "run_state (client_manager_broadcast sender t p) s = (r, s')" by fastforce
  from broadcast_spec [OF run assms(1-4)] obtain g where g: "fanout g s s'"
    "\<And>fd. fd \<notin> audience sender s \<Longrightarrow> g fd = []" "r = int (card {fd. g fd = frame t p})"
    "\<forall>fd \<in> audience sender s. g fd = frame t p" using assms(5) by metis
  have ne: "frame t p \<noteq> []" using length_frame [of t p] by (auto simp del: length_frame)
  have "g fd = frame t p \<longleftrightarrow> fd \<in> audience sender s" for fd
    using g(2) [of fd] g(4) ne by (cases "fd \<in> audience sender s") auto
  then have "{fd. g fd = frame t p} = audience sender s" by auto
  moreover have "socks s' = (\<lambda>fd. if fd \<in> audience sender s
      then (socks s fd)\<lparr>outbox := outbox (socks s fd) @ frame t p\<rparr> else socks s fd)"
    using g(1,2,4) by (auto simp: fanout_def fun_eq_iff)
  moreover have "fds s' = fds s" using g(1) by (simp add: fanout_def net_rest_def)
  ultimately show ?thesis using run g(3) fanout_server [OF g(1)] assms(1) by simp
qed

theorem broadcast_reaches_everyone_witness:
  "\<exists>s'. run_state (client_manager_broadcast 3 MSG_BROADCAST ''alice: hi'') online = (1, s') \<and>
    outbox (socks s' 4) = frame MSG_BROADCAST ''alice: hi'' \<and> outbox (socks s' 5) = [] \<and>
    registry s' = registry online"
proof -
  have "idle online" "registry_inv online" by (fact online_ok)+
  moreover have "is_valid_message_type MSG_BROADCAST" by simp
  moreover have "length ''alice: hi'' \<le> MESSAGE_MAX_SIZE" by (simp add: MESSAGE_MAX_SIZE_def)
  moreover have "\<forall>fd \<in> audience 3 online. calm fd online" by (simp add: online_audience online_calm)
  ultimately obtain s' where
    "run_state (client_manager_broadcast 3 MSG_BROADCAST ''alice: hi'') online =
       (int (card (audience 3 online)), s')"
    "socks s' = (\<lambda>fd. if fd \<in> audience 3 online
       then (socks online fd)\<lparr>outbox := outbox (socks online fd) @ frame MSG_BROADCAST ''alice: hi''\<rparr>
       else socks online fd)" "registry s' = registry online"
    using broadcast_reaches_everyone [of online MSG_BROADCAST "''alice: hi''" 3] by auto
  moreover have "outbox (socks online fd) = []" for fd
    by (simp add: online_def alice_only_def nobody_def boot_def register_entry_def)
  ultimately show ?thesis by (simp add: online_audience)
qed

text \<open>C24: whatever the socket calls do (interruptions, short writes, broken connections), a
  broadcast writes to every registered connection other than the sender's a prefix of the one
  frame, to every other socket nothing, and returns the number of connections that got all of it.\<close>

theorem broadcast_is_contained:
  assumes "run_state (client_manager_broadcast sender t p) s = (r, s')" and "idle s" and "registry_inv s"
    and "is_valid_message_type t" and "length p \<le> MESSAGE_MAX_SIZE"
  shows "\<exists>g. (\<forall>fd. socks s' fd = (socks s fd)\<lparr>outbox := outbox (socks s fd) @ g fd\<rparr>) \<and>
    (\<forall>fd. prefix (g fd) (frame t p)) \<and> (\<forall>fd. fd \<notin> audience sender s \<longrightarrow> g fd = []) \<and>
    r = int (card {fd. g fd = frame t p}) \<and> registry s' = registry s \<and> idle s' \<and> registry_inv s'"
proof -
  from broadcast_spec [OF assms] obtain g where "fanout g s s'" "\<And>fd. prefix (g fd) (frame t p)"
    "\<And>fd. fd \<notin> audience sender s \<Longrightarrow> g fd = []" "r = int (card {fd. g fd = frame t p})" by metis
  then show ?thesis
    using fanout_server [of g s s'] assms(2,3) by (intro exI [of _ g]) (simp add: fanout_def)
qed

theorem broadcast_is_contained_witness:
  "\<exists>r s'. run_state (client_manager_broadcast 3 MSG_BROADCAST ''alice: hi'')
       (online\<lparr>net_script := [Short 3, Fault EPIPE]\<rparr>) = (r, s') \<and>
    inbox (socks s' 4) = [] \<and> outbox (socks s' 3) = [] \<and> registry s' = registry online"
proof -
  let ?s = "online\<lparr>net_script := [Short 3, Fault EPIPE]\<rparr>"
  obtain r s' where run: "run_state (client_manager_broadcast 3 MSG_BROADCAST ''alice: hi'') ?s = (r, s')"
    by fastforce
  have eq: "registry ?s = registry online" "idle ?s" "registry_inv ?s"
    using online_ok by (simp_all add: net_script_irrelevant)
  have "length ''alice: hi'' \<le> MESSAGE_MAX_SIZE" by (simp add: MESSAGE_MAX_SIZE_def)
  from broadcast_is_contained [OF run eq(2,3) _ this] obtain g where
    g: "\<forall>fd. socks s' fd = (socks ?s fd)\<lparr>outbox := outbox (socks ?s fd) @ g fd\<rparr>"
    "\<forall>fd. fd \<notin> audience 3 ?s \<longrightarrow> g fd = []" "registry s' = registry ?s" by auto
  have "3 \<notin> audience 3 ?s" by (simp add: audience_def)
  moreover have "outbox (socks online fd) = []" "inbox (socks online fd) = []" for fd
    by (simp_all add: online_def alice_only_def nobody_def boot_def register_entry_def)
  ultimately show ?thesis using run g eq(1) by (intro exI [of _ r] exI [of _ s']) simp
qed

text \<open>C11: a private message goes to the one connection registered under the name, whole when
  the result is 0 and as a proper prefix when it is -1; a name nobody has registered gives 1
  and writes nothing; no other socket is touched in any case.\<close>

theorem private_goes_to_its_owner:
  assumes "run_state (client_manager_send_to_username n t p) s = (r, s')" and "idle s" and "registry_inv s"
    and "is_valid_username n" and "is_valid_message_type t" and "length p \<le> MESSAGE_MAX_SIZE"
  shows "case registry s n of
      None \<Rightarrow> r = 1 \<and> s' = s
    | Some (fd, _) \<Rightarrow> (\<exists>w. socks s' = (socks s)(fd := (socks s fd)\<lparr>outbox := outbox (socks s fd) @ w\<rparr>) \<and>
        (r = 0 \<and> w = frame t p \<or> r = -1 \<and> strict_prefix w (frame t p))) \<and>
        registry s' = registry s \<and> idle s'"
proof -
  have len: "length (clients s) = MAX_CLIENTS" using assms(2,3) by (auto simp: registry_inv_def entries_ok_def)
  note run = assms(1) [unfolded client_manager_send_to_username_idle [OF assms(2) len]]
  show ?thesis
  proof (cases "find_username_slot n s < 0")
    case True
    with run assms(4-6) show ?thesis by (simp add: registry_def)
  next
    case False
    then have "0 \<le> find_username_slot n s" by simp
    note k = slot_props(3) [OF this]
    let ?k = "nat (find_username_slot n s)"
    from False run assms(4-6)
    have "run_state (through_slot ?k (send_message_raw (socket_fd (clients s ! ?k)) t p)) s = (r, s')"
      by (simp add: Let_def)
    from through_slot_sends [OF this assms(2)] k obtain w where
      w: "wrote (socket_fd (clients s ! ?k)) w s s'" "prefix w (frame t p)" "r = 0 \<longleftrightarrow> w = frame t p"
        "r = 0 \<or> r = -1" by metis
    with False idle_wrote [OF w(1)] assms(2) show ?thesis
      by (auto simp: registry_def Let_def wrote_def strict_prefix_def)
  qed
qed

theorem private_goes_to_its_owner_witness:
  "(\<exists>s' w. run_state (client_manager_send_to_username ''bob'' MSG_PRIVATE ''alice: psst'') online = (0, s') \<and>
      outbox (socks s' 4) = frame MSG_PRIVATE ''alice: psst'' \<and> outbox (socks s' 3) = []) \<and>
   run_state (client_manager_send_to_username ''carol'' MSG_PRIVATE ''x'') online = (1, online)"
proof
  obtain r s' where run: "run_state (client_manager_send_to_username ''bob'' MSG_PRIVATE ''alice: psst'') online = (r, s')"
    by fastforce
  have len: "length ''alice: psst'' \<le> MESSAGE_MAX_SIZE" "length ''x'' \<le> MESSAGE_MAX_SIZE"
    by (simp_all add: MESSAGE_MAX_SIZE_def)
  have out: "outbox (socks online fd) = []" for fd
    by (simp add: online_def alice_only_def nobody_def boot_def register_entry_def)
  from private_goes_to_its_owner [OF run online_ok(1,2) _ _ len(1)] obtain w where
    w: "socks s' = (socks online)(4 := (socks online 4)\<lparr>outbox := outbox (socks online 4) @ w\<rparr>)"
    "r = 0 \<and> w = frame MSG_PRIVATE ''alice: psst'' \<or> r = -1" by (auto simp: online_ok(3))
  have "r = 0"
  proof -
    have l: "length (clients online) = MAX_CLIENTS" using online_ok by (auto simp: registry_inv_def entries_ok_def)
    have k: "\<not> find_username_slot ''bob'' online < 0" "socket_fd (clients online ! nat (find_username_slot ''bob'' online)) = 4"
      using fun_cong [OF online_ok(3), of "''bob''"] by (auto simp: registry_def Let_def split: if_splits)
    then have "nat (find_username_slot ''bob'' online) < length (clients online)"
      using slot_props(3) [of "''bob''" online] by simp
    from through_slot_calm [OF online_ok(1) this, of 4 MSG_PRIVATE "''alice: psst''"] run len(1) k show ?thesis
      by (auto simp: client_manager_send_to_username_idle [OF online_ok(1) l] Let_def online_calm)
  qed
  with run w out show "\<exists>s' w. run_state (client_manager_send_to_username ''bob'' MSG_PRIVATE ''alice: psst'') online = (0, s') \<and>
      outbox (socks s' 4) = frame MSG_PRIVATE ''alice: psst'' \<and> outbox (socks s' 3) = []" by auto
  obtain r2 s2 where run2: "run_state (client_manager_send_to_username ''carol'' MSG_PRIVATE ''x'') online = (r2, s2)"
    by fastforce
  from private_goes_to_its_owner [OF run2 online_ok(1,2) _ _ len(2)]
  show "run_state (client_manager_send_to_username ''carol'' MSG_PRIVATE ''x'') online = (1, online)"
    using run2 by (simp add: online_ok(3))
qed

text \<open>C5: registration refines a map update. From an idle state with the invariant, adding a
  connection returns -1 and changes nothing for an invalid name, -2 and nothing for a name in
  use, -1 and nothing when all slots are taken; otherwise it returns the next client id and the
  registry becomes the old one with the name bound to the connection and that id.\<close>

theorem registration_refines_map:
  assumes "idle s" and "registry_inv s" and "fd_unused fd s"
  shows "let (r, s') = run_state (client_manager_add fd th n) s in
    (if \<not> is_valid_username n then r = -1 \<and> s' = s
     else if n \<in> dom (registry s) then r = -2 \<and> s' = s
     else if find_free_slot s < 0 then r = -1 \<and> s' = s
     else r = sint (next_client_id s) \<and> registry s' = (registry s)(n \<mapsto> (fd, next_client_id s)) \<and>
          idle s' \<and> registry_inv s')"
proof -
  have inv: "idle s \<and> registry_inv s" using assms by simp
  have fresh: "0 \<le> fd" "\<forall>m i. registry s m \<noteq> Some (fd, i)"
    using assms(3) registry_socket [OF assms(2), of fd] by (auto simp: fd_unused_def)
  show ?thesis
    using reg.add_invalid [OF inv, of n fd th] reg.add_duplicate [OF inv, of n fd th]
      reg.add_full [OF inv, of n fd th] reg.add_new [OF inv, of n fd th] fresh
    by (cases "run_state (client_manager_add fd th n) s"; cases "registry s n") (auto simp: domIff)
qed

theorem registration_refines_map_witness:
  "registry (exec (client_manager_add 5 9 ''carol'') online) = (registry online)(''carol'' \<mapsto> (5, 3)) \<and>
   fst (run_state (client_manager_add 5 9 ''bob'') online) = -2"
proof -
  have unused: "fd_unused 5 online"
    using registry_socket [OF online_ok(2), of 5] by (auto simp: fd_unused_def online_ok(3) split: if_splits)
  have id3: "next_client_id online = 3" by (simp add: online_def register_entry_def next_ids)
  show ?thesis
    using registration_refines_map [OF online_ok(1,2) unused, of 9 "''carol''"]
      registration_refines_map [OF online_ok(1,2) unused, of 9 "''bob''"]
    by (simp add: online_ok(3) free_slots id3 Let_def split: prod.splits)
qed



text \<open>A session that registers a free name and leaves gives the registry back exactly as
  it was, and while it lasts nobody else can register the name, on whatever connection.\<close>

theorem session_is_exclusive_and_restores:
  assumes "idle s" and "registry_inv s" and "fd_unused fd s" and "is_valid_username n"
    and "n \<notin> dom (registry s)" and "0 \<le> find_free_slot s"
  shows "registry (exec (client_manager_remove fd) (exec (client_manager_add fd th n) s)) = registry s \<and>
    run_state (client_manager_add fd' th' n) (exec (client_manager_add fd th n) s) =
      (-2, exec (client_manager_add fd th n) s)"
proof -
  have inv: "idle s \<and> registry_inv s" using assms by simp
  have fresh: "0 \<le> fd" "\<forall>m i. registry s m \<noteq> Some (fd, i)" "registry s n = None"
    using assms(3,5) registry_socket [OF assms(2), of fd] by (auto simp: fd_unused_def)
  show ?thesis
    using reg.session_restores(1) [OF inv assms(4) fresh(3) assms(6) fresh(1,2)]
      reg.name_is_exclusive [OF inv assms(4) fresh(3) assms(6) fresh(1,2)] by simp
qed

theorem session_is_exclusive_and_restores_witness:
  "registry (exec (client_manager_remove 5) (exec (client_manager_add 5 9 ''carol'') online)) =
    [''alice'' \<mapsto> (3, 1), ''bob'' \<mapsto> (4, 2)]"
proof -
  have unused: "fd_unused 5 online"
    using registry_socket [OF online_ok(2), of 5] by (auto simp: fd_unused_def online_ok(3) split: if_splits)
  then show ?thesis
    using session_is_exclusive_and_restores [OF online_ok(1,2) unused, of "''carol''" 9 6 10]
    by (simp add: online_ok(3) free_slots)
qed

text \<open>C26: the user list never overflows the handler's buffer: it is always produced, holds each
  registered name exactly once, one per line, and its count is the number of registered users.\<close>

theorem userlist_is_complete:
  assumes "idle s" and "registry_inv s"
  shows "\<exists>ns. run_state (client_manager_build_userlist (MESSAGE_MAX_SIZE + 1)) s =
      ((int (card (dom (registry s))), lines ns), s) \<and>
    distinct ns \<and> set ns = dom (registry s) \<and> length (lines ns) \<le> MESSAGE_MAX_SIZE"
proof -
  have cap: "USERNAME_MAX_SIZE * MAX_CLIENTS < MESSAGE_MAX_SIZE + 1"
    by (simp add: USERNAME_MAX_SIZE_def MAX_CLIENTS_def MESSAGE_MAX_SIZE_def)
  have "length (lines ns) \<le> USERNAME_MAX_SIZE * length ns"
    if "\<forall>x \<in> set ns. length x < USERNAME_MAX_SIZE" for ns :: "string list"
  proof -
    from that have "length (concat (map (\<lambda>x. x @ [CHR 0x0A]) ns)) \<le> USERNAME_MAX_SIZE * length ns"
      by (induction ns) auto
    then show ?thesis by (simp add: lines_def)
  qed
  then have "length (lines (names (clients s))) \<le> USERNAME_MAX_SIZE * length (names (clients s))"
    using names_short [OF assms(2)] by blast
  moreover have "USERNAME_MAX_SIZE * length (names (clients s)) \<le> USERNAME_MAX_SIZE * MAX_CLIENTS"
    using length_names [OF assms(2)] by simp
  ultimately have "length (lines (names (clients s))) \<le> MESSAGE_MAX_SIZE" using cap by linarith
  with build_userlist_idle [OF assms cap] distinct_names [OF assms(2)] set_names [OF assms(2)]
  show ?thesis by blast
qed

theorem userlist_is_complete_witness:
  "fst (fst (run_state (client_manager_build_userlist (MESSAGE_MAX_SIZE + 1)) online)) = 2"
proof -
  from userlist_is_complete [OF online_ok(1,2)]
  have "fst (fst (run_state (client_manager_build_userlist (MESSAGE_MAX_SIZE + 1)) online)) =
      int (card (dom (registry online)))" by auto
  then show ?thesis by (simp add: online_ok(3))
qed

end
