(* ===== verification/File_Lock.thy ===== *)
theory File_Lock
  imports Protocol Posix
begin

section \<open>Per-file locks\<close>

text \<open>
  \<open>include/server/file_lock.h\<close> and \<open>src/server/file_lock.c\<close>: every shared file name
  has a lock file in \<open>storage/.locks\<close>, and an open-file-description lock on it is held,
  shared by downloads and exclusive by uploads, through a descriptor of its own.
\<close>

subsection \<open>The code\<close>

definition FILE_LOCK_DIRECTORY :: string where
  "FILE_LOCK_DIRECTORY = FILE_STORAGE_DIRECTORY @ ''/.locks''"

type_synonym file_lock_mode_t = int

definition FILE_LOCK_SHARED :: file_lock_mode_t where "FILE_LOCK_SHARED = 0"
definition FILE_LOCK_EXCLUSIVE :: file_lock_mode_t where "FILE_LOCK_EXCLUSIVE = 1"

definition ensure_lock_directory :: "('z, int) sys" where
  "ensure_lock_directory = do {
     r \<leftarrow> sys_mkdir FILE_LOCK_DIRECTORY;
     if r = 0 then ret 0
     else do {
       e \<leftarrow> gets errno;
       if e \<noteq> EEXIST then ret (- 1)
       else do {
         information \<leftarrow> sys_lstat FILE_LOCK_DIRECTORY;
         (case information of
            None \<Rightarrow> ret (- 1)
          | Some (kind, _) \<Rightarrow>
              if kind \<noteq> IDir then do { set_errno ENOTDIR; ret (- 1) } else ret 0)
       }
     }
   }"

definition open_lock_directory :: "('z, int) sys" where
  "open_lock_directory = open_dir FILE_LOCK_DIRECTORY"

text \<open>\<open>while (fcntl (lock_fd, F_OFD_SETLKW, &lock) != 0)\<close>: retried after \<open>EINTR\<close>; the
  result tells whether the lock was obtained.\<close>

lemma fcntl_scripts:
  "run_state (fcntl_setlkw fd t) s = (r, s') \<Longrightarrow> r \<noteq> 0 \<Longrightarrow> errno s' = EINTR \<Longrightarrow>
     length (fs_script s') < length (fs_script s)"
  "run_state (fcntl_unlock fd) s = (r, s') \<Longrightarrow> r \<noteq> 0 \<Longrightarrow> errno s' = EINTR \<Longrightarrow>
     length (fs_script s') < length (fs_script s)"
  by (auto simp: fcntl_setlkw_def fcntl_unlock_def fs_fault_def fail_def set_errno_def
      split: list.splits fault.splits option.splits fdobj.splits if_splits)

function setlkw_loop :: "int \<Rightarrow> lock_type \<Rightarrow> 'z os_scheme \<Rightarrow> bool \<times> 'z os_scheme" where
  "setlkw_loop lock_fd l_type s =
     (case run_state (fcntl_setlkw lock_fd l_type) s of (r, s') \<Rightarrow>
        if r \<noteq> 0
        then (if errno s' = EINTR then setlkw_loop lock_fd l_type s' else (False, s'))
        else (True, s'))"
  by pat_completeness auto
termination
  by (relation "measure (\<lambda>(fd, t, s). length (fs_script s))") (auto intro: fcntl_scripts(1) [OF sym])

function unlock_loop :: "int \<Rightarrow> 'z os_scheme \<Rightarrow> int \<times> 'z os_scheme" where
  "unlock_loop lock_fd s =
     (case run_state (fcntl_unlock lock_fd) s of (unlock_result, s') \<Rightarrow>
        if unlock_result \<noteq> 0 \<and> errno s' = EINTR then unlock_loop lock_fd s'
        else (unlock_result, s'))"
  by pat_completeness auto
termination
  by (relation "measure (\<lambda>(fd, s). length (fs_script s))") (auto intro: fcntl_scripts(2) [OF sym])

declare setlkw_loop.simps [simp del] unlock_loop.simps [simp del]

text \<open>The part of \<open>file_lock_acquire\<close> after \<open>openat\<close>: check the descriptor, wait for
  the lock.\<close>

definition lock_descriptor :: "int \<Rightarrow> file_lock_mode_t \<Rightarrow> ('z, int) sys" where
  "lock_descriptor lock_fd mode = do {
     information \<leftarrow> sys_fstat lock_fd;
     if (case information of None \<Rightarrow> True | Some (kind, _) \<Rightarrow> kind \<noteq> IReg)
     then do {
       e \<leftarrow> gets errno;
       sys_close lock_fd;
       set_errno (if e = E0 then EINVAL else e);
       ret (- 1)
     }
     else do {
       got \<leftarrow> State (setlkw_loop lock_fd (if mode = FILE_LOCK_SHARED then F_RDLCK else F_WRLCK));
       if \<not> got
       then do { e \<leftarrow> gets errno; sys_close lock_fd; set_errno e; ret (- 1) }
       else ret lock_fd
     }
   }"

definition file_lock_acquire :: "string \<Rightarrow> file_lock_mode_t \<Rightarrow> ('z, int) sys" where
  "file_lock_acquire filename mode =
     (if \<not> is_valid_shared_filename filename then do { set_errno EINVAL; ret (- 1) }
      else if mode \<noteq> FILE_LOCK_SHARED \<and> mode \<noteq> FILE_LOCK_EXCLUSIVE
      then do { set_errno EINVAL; ret (- 1) }
      else do {
        r \<leftarrow> ensure_lock_directory;
        if r \<noteq> 0 then ret (- 1)
        else do {
          directory_fd \<leftarrow> open_lock_directory;
          if directory_fd < 0 then ret (- 1)
          else (let (name_written, lock_name) = snprintf (FILE_NAME_MAX_SIZE + 8) (filename @ ''.lock'')
                in if name_written < 0 \<or> name_written \<ge> int (FILE_NAME_MAX_SIZE + 8)
                   then do { sys_close directory_fd; set_errno ENAMETOOLONG; ret (- 1) }
                   else do {
                     lock_fd \<leftarrow> sys_openat directory_fd lock_name
                       [O_RDWR, O_CREAT, O_CLOEXEC, O_NOFOLLOW] 384;
                     saved_errno \<leftarrow> gets errno;
                     c \<leftarrow> sys_close directory_fd;
                     if c \<noteq> 0 \<and> lock_fd \<ge> 0 then do { sys_close lock_fd; ret (- 1) }
                     else if lock_fd < 0 then do { set_errno saved_errno; ret (- 1) }
                     else lock_descriptor lock_fd mode
                   })
        }
      })"

definition file_lock_release :: "int \<Rightarrow> ('z, int) sys" where
  "file_lock_release lock_fd =
     (if lock_fd < 0 then do { set_errno EINVAL; ret (- 1) }
      else do {
        unlock_result \<leftarrow> State (unlock_loop lock_fd);
        saved_errno \<leftarrow> gets errno;
        close_result \<leftarrow> sys_close lock_fd;
        if unlock_result \<noteq> 0 then do { set_errno saved_errno; ret (- 1) }
        else if close_result \<noteq> 0 then ret (- 1)
        else ret 0
      })"

subsection \<open>Locking touches files only\<close>

lemma lock_loop_frames:
  "state_io_rel (same fs_rest) (State (setlkw_loop fd t))"
  "state_io_rel (same fs_rest) (State (unlock_loop fd))"
proof -
  have "fs_rest (snd (setlkw_loop fd t s)) = fs_rest s" for s :: "'a os_scheme"
  proof (induction fd t s rule: setlkw_loop.induct)
    case (1 fd t s)
    obtain r s' where run: "run_state (fcntl_setlkw fd t) s = (r, s')" by fastforce
    have "fs_rest s' = fs_rest s" by (rule same_run [OF fs_frames(16) run])
    with "1.IH" [OF run [symmetric]] run show ?case by (simp add: setlkw_loop.simps [of fd t s])
  qed
  then show "state_io_rel (same fs_rest) (State (setlkw_loop fd t :: 'a os_scheme \<Rightarrow> _))"
    by (simp add: io_rel_State same_def)
  have "fs_rest (snd (unlock_loop fd s)) = fs_rest s" for s :: "'b os_scheme"
  proof (induction fd s rule: unlock_loop.induct)
    case (1 fd s)
    obtain r s' where run: "run_state (fcntl_unlock fd) s = (r, s')" by fastforce
    have "fs_rest s' = fs_rest s" by (rule same_run [OF fs_frames(17) run])
    with "1.IH" [OF run [symmetric]] run show ?case by (simp add: unlock_loop.simps [of fd s])
  qed
  then show "state_io_rel (same fs_rest) (State (unlock_loop fd :: 'b os_scheme \<Rightarrow> _))"
    by (simp add: io_rel_State same_def)
qed

lemma file_lock_frames:
  "state_io_rel (same fs_rest) ensure_lock_directory"
  "state_io_rel (same fs_rest) (file_lock_acquire filename mode)"
  "state_io_rel (same fs_rest) (file_lock_release lock_fd)"
proof -
  note base = same.io_sys fs_base fs_frames lock_loop_frames
  show dir: "state_io_rel (same fs_rest) ensure_lock_directory"
    unfolding ensure_lock_directory_def by (intro base)
  have "state_io_rel (same fs_rest) (lock_descriptor fd mode)" for fd
    unfolding lock_descriptor_def by (intro base)
  then show "state_io_rel (same fs_rest) (file_lock_acquire filename mode)"
    unfolding file_lock_acquire_def open_lock_directory_def by (intro base dir)
  show "state_io_rel (same fs_rest) (file_lock_release lock_fd)"
    unfolding file_lock_release_def by (intro base)
qed

end
