(* ===== verification/Performance_Timer.thy ===== *)
theory Performance_Timer
  imports Complex_Main Posix
begin

section \<open>The performance timer\<close>

text \<open>
  \<open>src/common/performance_timer.c\<close>. A C \<open>double\<close> is modelled as an exact rational,
  so what is proved holds up to floating-point rounding.
\<close>

record performance_timer_t =
  start_time :: "int \<times> int"
  running :: bool

definition performance_timer_start ::
    "performance_timer_t \<Rightarrow> ('z, int \<times> performance_timer_t) sys" where
  "performance_timer_start timer = do {
     now \<leftarrow> clock_gettime;
     (case now of
        None \<Rightarrow> ret (- 1, timer\<lparr>running := False\<rparr>)
      | Some ts \<Rightarrow> ret (0, timer\<lparr>start_time := ts, running := True\<rparr>))
   }"

text \<open>The second component of the result is \<open>*elapsed_seconds\<close>, when it is written.\<close>

definition performance_timer_stop ::
    "performance_timer_t \<Rightarrow> ('z, int \<times> rat option \<times> performance_timer_t) sys" where
  "performance_timer_stop timer =
     (if \<not> running timer then do { set_errno EINVAL; ret (- 1, None, timer) }
      else do {
        now \<leftarrow> clock_gettime;
        (case now of
           None \<Rightarrow> ret (- 1, None, timer)
         | Some (end_sec, end_nsec) \<Rightarrow>
             (let seconds = end_sec - fst (start_time timer);
                  nanoseconds = end_nsec - snd (start_time timer);
                  (seconds, nanoseconds) =
                    (if nanoseconds < 0 then (seconds - 1, nanoseconds + 1000000000)
                     else (seconds, nanoseconds))
              in ret (0, Some (of_int seconds + of_int nanoseconds / 1000000000),
                      timer\<lparr>running := False\<rparr>)))
      })"

definition performance_timer_mib_per_second :: "nat \<Rightarrow> rat \<Rightarrow> rat" where
  "performance_timer_mib_per_second bytes elapsed_seconds =
     (if elapsed_seconds \<le> 0 then 0
      else (of_nat bytes / (1024 * 1024)) / elapsed_seconds)"

subsection \<open>Timing is exact and never negative\<close>

text \<open>What the timer touches: the clock and \<open>errno\<close>.\<close>

definition clk_rest :: "'z os_scheme \<Rightarrow> _" where
  "clk_rest s = (fds s, socks s, dirs s, inodes s, next_ino s, ofd_locks s, net_script s, fs_script s,
     mtx_script s, pid s, tid s, os.more s)"

lemma clock_gettime_frame: "state_io_rel (same clk_rest) clock_gettime"
  by (auto simp: clock_gettime_def state_io_rel_def same_def clk_rest_def fail_none_def set_errno_def
      split: list.splits fault.splits)

lemma timer_frames:
  "state_io_rel (same clk_rest) (performance_timer_start timer)"
  "state_io_rel (same clk_rest) (performance_timer_stop timer)"
proof -
  have "state_io_rel (same clk_rest) (set_errno e)" for e
    by (auto simp: set_errno_def state_io_rel_def same_def clk_rest_def)
  note base = this clock_gettime_frame same.io_sys
  show "state_io_rel (same clk_rest) (performance_timer_start timer)"
    unfolding performance_timer_start_def by (intro base)
  show "state_io_rel (same clk_rest) (performance_timer_stop timer)"
    unfolding performance_timer_stop_def by (intro base)
qed

definition ns_of :: "int \<times> int \<Rightarrow> int" where
  "ns_of ts = fst ts * 1000000000 + snd ts"

lemma clock_gettime_Some:
  assumes "run_state clock_gettime s = (Some ts, s')"
  shows "ns_of ts = int (mono_ns s')" and "mono_ns s \<le> mono_ns s'"
proof -
  have "int (n div 1000000000) * 1000000000 + int (n mod 1000000000) = int n" for n :: nat
    by (metis div_mult_mod_eq of_nat_add of_nat_mult of_nat_numeral)
  with assms show "ns_of ts = int (mono_ns s')" and "mono_ns s \<le> mono_ns s'"
    by (auto simp: clock_gettime_def ns_of_def fail_none_def set_errno_def
        split: list.splits fault.splits)
qed

lemma timer_start_ok:
  assumes "run_state (performance_timer_start timer) s = ((0, timer'), s')"
  shows "running timer'" and "ns_of (start_time timer') = int (mono_ns s')"
proof -
  from assms obtain ts where "run_state clock_gettime s = (Some ts, s')"
    and t: "timer' = timer\<lparr>start_time := ts, running := True\<rparr>"
    by (auto simp: performance_timer_start_def split: prod.splits option.splits)
  from clock_gettime_Some(1) [OF this(1)] t
  show "running timer'" and "ns_of (start_time timer') = int (mono_ns s')" by auto
qed

text \<open>The borrow of a second leaves the difference of the two instants unchanged.\<close>

lemma timer_stop_elapsed:
  assumes "run_state (performance_timer_stop timer) s = ((r, Some e, timer'), s')"
  shows "r = 0" and "e * 1000000000 = of_int (int (mono_ns s') - ns_of (start_time timer))"
    and "\<not> running timer'" and "mono_ns s \<le> mono_ns s'"
proof -
  from assms obtain ts where c: "run_state clock_gettime s = (Some ts, s')"
    by (auto simp: performance_timer_stop_def Let_def split: prod.splits option.splits if_splits)
  from clock_gettime_Some [OF c] have ns: "int (mono_ns s') = fst ts * 1000000000 + snd ts"
    and "mono_ns s \<le> mono_ns s'" by (auto simp: ns_of_def)
  with assms c
  show "r = 0" and "e * 1000000000 = of_int (int (mono_ns s') - ns_of (start_time timer))"
    and "\<not> running timer'" and "mono_ns s \<le> mono_ns s'"
    by (auto simp: performance_timer_stop_def Let_def ns_of_def field_simps
        split: prod.splits option.splits if_splits)
qed

lemma mib_per_second_nonneg: "0 \<le> performance_timer_mib_per_second bytes e"
  by (simp add: performance_timer_mib_per_second_def)

end
