(* ===== verification/File_Events.thy ===== *)
theory File_Events
  imports Logger_Client Performance_Timer
begin

section \<open>What the file manager logs\<close>

text \<open>
  One constant per call of \<open>logger_client_log\<close> in \<open>src/server/file_manager.c\<close>,
  a function of the values it formats: the level, the source and the text.
\<close>

subsection \<open>Log messages\<close>

text \<open>\<open>%.\<dots>f\<close> of a non-negative value: rounded to the nearest, ties to even.\<close>

definition round_even :: "rat \<Rightarrow> int" where
  "round_even x = (let q = \<lfloor>x\<rfloor>; f = x - of_int q
     in if f > 1/2 \<or> (f = 1/2 \<and> odd q) then q + 1 else q)"

definition fixed_str :: "nat \<Rightarrow> rat \<Rightarrow> string" where
  "fixed_str k x = (let v = nat (round_even (x * 10 ^ k)); frac = nat_str (v mod 10 ^ k)
     in nat_str (v div 10 ^ k) @ ''.'' @ replicate (k - length frac) (CHR ''0'') @ frac)"

definition user_file :: "string \<Rightarrow> string \<Rightarrow> string" where
  "user_file u f = ''username='' @ u @ '' filename='' @ f"

definition RejectedUploadMetadata :: "string \<Rightarrow> log_entry" where
  "RejectedUploadMetadata u =
     (LOG_WARN, ''SECURITY'', ''Rejected upload metadata username='' @ u)"

definition UploadStorageUnavailable :: "errno_t \<Rightarrow> log_entry" where
  "UploadStorageUnavailable e =
     (LOG_ERROR, ''FILE_MANAGER'', ''Storage directory unavailable during upload error='' @ strerror e)"

definition UploadLockFailed :: "string \<Rightarrow> string \<Rightarrow> errno_t \<Rightarrow> log_entry" where
  "UploadLockFailed u f e =
     (LOG_ERROR, ''FILE_MANAGER'', ''Unable to acquire upload lock '' @ user_file u f @ '' error='' @ strerror e)"

definition UploadOpenFailed :: "errno_t \<Rightarrow> log_entry" where
  "UploadOpenFailed e =
     (LOG_ERROR, ''SECURITY'', ''Secure storage open failed during upload error='' @ strerror e)"

definition UploadDestinationCheckFailed :: "string \<Rightarrow> errno_t \<Rightarrow> log_entry" where
  "UploadDestinationCheckFailed f e =
     (LOG_ERROR, ''FILE_MANAGER'', ''Upload destination check failed filename='' @ f @ '' error='' @ strerror e)"

definition UploadStaleTemp :: "string \<Rightarrow> errno_t \<Rightarrow> log_entry" where
  "UploadStaleTemp f e =
     (LOG_ERROR, ''FILE_MANAGER'', ''Unable to clear stale upload temp filename='' @ f @ '' error='' @ strerror e)"

definition UploadCreateFailed :: "string \<Rightarrow> errno_t \<Rightarrow> log_entry" where
  "UploadCreateFailed f e =
     (LOG_ERROR, ''FILE_MANAGER'', ''Failed to create upload temp filename='' @ f @ '' error='' @ strerror e)"

definition UploadTimerStart :: "string \<Rightarrow> string \<Rightarrow> log_entry" where
  "UploadTimerStart u f =
     (LOG_WARN, ''PERFORMANCE'', ''Unable to start upload timer '' @ user_file u f)"

definition UploadInterrupted :: "string \<Rightarrow> string \<Rightarrow> nat \<Rightarrow> log_entry" where
  "UploadInterrupted u f n =
     (LOG_WARN, ''FILE_MANAGER'', ''Upload interrupted '' @ user_file u f @ '' remaining='' @ nat_str n)"

definition UploadWriteFailed :: "string \<Rightarrow> string \<Rightarrow> errno_t \<Rightarrow> log_entry" where
  "UploadWriteFailed u f e =
     (LOG_ERROR, ''FILE_MANAGER'', ''Upload write failed '' @ user_file u f @ '' error='' @ strerror e)"

definition UploadPerformance :: "string \<Rightarrow> string \<Rightarrow> nat \<Rightarrow> rat \<Rightarrow> rat \<Rightarrow> log_entry" where
  "UploadPerformance u f n t m =
     (LOG_INFO, ''PERFORMANCE'', ''UPLOAD '' @ user_file u f @ '' bytes='' @ nat_str n @
     '' seconds='' @ fixed_str 6 t @ '' throughput_mib_s='' @ fixed_str 3 m)"

definition UploadTimerStop :: "string \<Rightarrow> string \<Rightarrow> log_entry" where
  "UploadTimerStop u f =
     (LOG_WARN, ''PERFORMANCE'', ''Unable to stop upload timer '' @ user_file u f)"

definition UploadFinalizeFailed :: "string \<Rightarrow> errno_t \<Rightarrow> log_entry" where
  "UploadFinalizeFailed f e =
     (LOG_ERROR, ''FILE_MANAGER'', ''Upload finalize failed filename='' @ f @ '' error='' @ strerror e)"

definition UploadTempLink :: "string \<Rightarrow> errno_t \<Rightarrow> log_entry" where
  "UploadTempLink f e =
     (LOG_WARN, ''FILE_MANAGER'', ''Unable to remove upload temp link filename='' @ f @ '' error='' @ strerror e)"

definition UploadResponseFailed :: "string \<Rightarrow> string \<Rightarrow> log_entry" where
  "UploadResponseFailed u f =
     (LOG_WARN, ''FILE_MANAGER'', ''Upload stored but success response failed '' @ user_file u f)"

definition UploadSuccess :: "string \<Rightarrow> string \<Rightarrow> nat \<Rightarrow> log_entry" where
  "UploadSuccess u f n =
     (LOG_INFO, ''FILE_MANAGER'', ''Upload success '' @ user_file u f @ '' size='' @ nat_str n)"

definition UploadAborted :: "string \<Rightarrow> string \<Rightarrow> nat \<Rightarrow> rat \<Rightarrow> log_entry" where
  "UploadAborted u f n t =
     (LOG_WARN, ''PERFORMANCE'', ''UPLOAD_ABORTED '' @ user_file u f @ '' expected_bytes='' @ nat_str n @
     '' seconds='' @ fixed_str 6 t)"

definition UploadTempClose :: "string \<Rightarrow> log_entry" where
  "UploadTempClose f =
     (LOG_WARN, ''FILE_MANAGER'', ''Upload temp close failed filename='' @ f)"

definition UploadTempCleanup :: "string \<Rightarrow> errno_t \<Rightarrow> log_entry" where
  "UploadTempCleanup f e =
     (LOG_WARN, ''FILE_MANAGER'', ''Upload temp cleanup failed filename='' @ f @ '' error='' @ strerror e)"

definition UploadStorageClose :: "log_entry" where
  "UploadStorageClose =
     (LOG_WARN, ''FILE_MANAGER'', ''Storage directory close failed after upload'')"

definition UploadLockRelease :: "string \<Rightarrow> string \<Rightarrow> log_entry" where
  "UploadLockRelease u f =
     (LOG_WARN, ''FILE_MANAGER'', ''Unable to release upload lock '' @ user_file u f)"

definition RejectedDownloadFilename :: "string \<Rightarrow> log_entry" where
  "RejectedDownloadFilename u =
     (LOG_WARN, ''SECURITY'', ''Rejected download filename username='' @ u)"

definition DownloadStorageUnavailable :: "errno_t \<Rightarrow> log_entry" where
  "DownloadStorageUnavailable e =
     (LOG_ERROR, ''FILE_MANAGER'', ''Storage directory unavailable during download error='' @ strerror e)"

definition DownloadLockFailed :: "string \<Rightarrow> string \<Rightarrow> errno_t \<Rightarrow> log_entry" where
  "DownloadLockFailed u f e =
     (LOG_ERROR, ''FILE_MANAGER'', ''Unable to acquire download lock '' @ user_file u f @ '' error='' @ strerror e)"

definition DownloadOpenDirFailed :: "errno_t \<Rightarrow> log_entry" where
  "DownloadOpenDirFailed e =
     (LOG_ERROR, ''SECURITY'', ''Secure storage open failed during download error='' @ strerror e)"

definition RejectedSymlink :: "string \<Rightarrow> string \<Rightarrow> log_entry" where
  "RejectedSymlink u f =
     (LOG_WARN, ''SECURITY'', ''Rejected symbolic-link download '' @ user_file u f)"

definition DownloadOpenFailed :: "string \<Rightarrow> string \<Rightarrow> errno_t \<Rightarrow> log_entry" where
  "DownloadOpenFailed u f e =
     (LOG_WARN, ''FILE_MANAGER'', ''Download open failed '' @ user_file u f @ '' error='' @ strerror e)"

definition RejectedNonRegular :: "string \<Rightarrow> string \<Rightarrow> log_entry" where
  "RejectedNonRegular u f =
     (LOG_WARN, ''SECURITY'', ''Rejected non-regular download '' @ user_file u f)"

definition DownloadTimerStart :: "string \<Rightarrow> string \<Rightarrow> log_entry" where
  "DownloadTimerStart u f =
     (LOG_WARN, ''PERFORMANCE'', ''Unable to start download timer '' @ user_file u f)"

definition DownloadPerformance :: "string \<Rightarrow> string \<Rightarrow> nat \<Rightarrow> rat \<Rightarrow> rat \<Rightarrow> log_entry" where
  "DownloadPerformance u f n t m =
     (LOG_INFO, ''PERFORMANCE'', ''DOWNLOAD '' @ user_file u f @ '' bytes='' @ nat_str n @
     '' seconds='' @ fixed_str 6 t @ '' throughput_mib_s='' @ fixed_str 3 m)"

definition DownloadAborted :: "string \<Rightarrow> string \<Rightarrow> nat \<Rightarrow> rat \<Rightarrow> log_entry" where
  "DownloadAborted u f n t =
     (LOG_WARN, ''PERFORMANCE'', ''DOWNLOAD_ABORTED '' @ user_file u f @ '' expected_bytes='' @ nat_str n @
     '' seconds='' @ fixed_str 6 t)"

definition DownloadTimerStop :: "string \<Rightarrow> string \<Rightarrow> log_entry" where
  "DownloadTimerStop u f =
     (LOG_WARN, ''PERFORMANCE'', ''Unable to stop download timer '' @ user_file u f)"

definition DownloadStreamFailed :: "string \<Rightarrow> string \<Rightarrow> log_entry" where
  "DownloadStreamFailed u f =
     (LOG_WARN, ''FILE_MANAGER'', ''Download stream failed '' @ user_file u f)"

definition DownloadSuccess :: "string \<Rightarrow> string \<Rightarrow> nat \<Rightarrow> log_entry" where
  "DownloadSuccess u f n =
     (LOG_INFO, ''FILE_MANAGER'', ''Download success '' @ user_file u f @ '' size='' @ nat_str n)"

definition DownloadSourceClose :: "string \<Rightarrow> log_entry" where
  "DownloadSourceClose f =
     (LOG_WARN, ''FILE_MANAGER'', ''Failed closing download source filename='' @ f)"

definition DownloadStorageClose :: "log_entry" where
  "DownloadStorageClose =
     (LOG_WARN, ''FILE_MANAGER'', ''Storage directory close failed after download'')"

definition DownloadLockRelease :: "string \<Rightarrow> string \<Rightarrow> log_entry" where
  "DownloadLockRelease u f =
     (LOG_WARN, ''FILE_MANAGER'', ''Unable to release download lock '' @ user_file u f)"

definition ListOpenFailed :: "errno_t \<Rightarrow> log_entry" where
  "ListOpenFailed e =
     (LOG_ERROR, ''SECURITY'', ''Secure storage open failed during listing error='' @ strerror e)"

definition ListReadFailed :: "string \<Rightarrow> log_entry" where
  "ListReadFailed u =
     (LOG_ERROR, ''FILE_MANAGER'', ''Shared file listing failed requester='' @ u)"

definition ListRequested :: "string \<Rightarrow> int \<Rightarrow> log_entry" where
  "ListRequested u n =
     (LOG_DEBUG, ''FILE_MANAGER'', ''Shared file list requested username='' @ u @ '' count='' @ int_str n)"

end
