(* ===== verification/File_Manager.thy ===== *)
theory File_Manager
  imports Routing File_Lock File_Events
begin

section \<open>The file manager\<close>

text \<open>
  \<open>include/server/file_manager.h\<close> and \<open>src/server/file_manager.c\<close>: uploads, downloads
  and the listing of the shared files. The local variables that the cleanup labels read are
  the record \<open>upload_locals\<close> (for uploads) and a triple (for downloads); every
  \<open>goto\<close> to a label is a stage that returns them.
\<close>

subsection \<open>Helpers\<close>

lemma sys_write_script:
  assumes "run_state (sys_write fd bs) s = (r, s')"
  shows "length (fs_script s') \<le> length (fs_script s)"
    and "r < 0 \<Longrightarrow> errno s' = EINTR \<Longrightarrow> length (fs_script s') < length (fs_script s)"
  using assms
  by (auto simp: sys_write_def fs_fault_def fail_def set_errno_def Let_def
      split: list.splits fault.splits option.splits fdobj.splits)

function write_all_loop :: "int \<Rightarrow> byte list \<Rightarrow> nat \<Rightarrow> 'z os_scheme \<Rightarrow> int \<times> 'z os_scheme" where
  "write_all_loop file_fd buffer written_total s =
     (if written_total < length buffer
      then (case run_state (sys_write file_fd (drop written_total buffer)) s of (written, s') \<Rightarrow>
              if written < 0
              then (if errno s' = EINTR then write_all_loop file_fd buffer written_total s' else (- 1, s'))
              else if written = 0 then (- 1, s'\<lparr>errno := EIO\<rparr>)
              else write_all_loop file_fd buffer (written_total + nat written) s')
      else (0, s))"
  by pat_completeness auto
termination
proof (relation "measure (\<lambda>(fd, buffer, n, s). (length buffer - n) + length (fs_script s))", goal_cases)
  case 1
  show ?case by simp
next
  case (2 fd buffer n s written s')
  then show ?case using sys_write_script(2) [of fd "drop n buffer" s written s'] by simp
next
  case (3 fd buffer n s written s')
  then show ?case using sys_write_script(1) [of fd "drop n buffer" s written s'] by simp
qed

declare write_all_loop.simps [simp del]

definition write_all_file :: "int \<Rightarrow> byte list \<Rightarrow> ('z, int) sys" where
  "write_all_file file_fd buffer = State (write_all_loop file_fd buffer 0)"

definition send_error :: "int \<Rightarrow> string \<Rightarrow> int srv" where
  "send_error fd msg = do {
     r \<leftarrow> client_manager_send fd MSG_ERROR msg;
     if r \<noteq> 0 then ret (- 1) else ret 0
   }"

definition is_directory :: "stat_t \<Rightarrow> ('z, int) sys" where
  "is_directory information =
     (if fst information \<noteq> IDir then do { set_errno ENOTDIR; ret (- 1) } else ret 0)"

definition ensure_storage_directory :: "('z, int) sys" where
  "ensure_storage_directory = do {
     information \<leftarrow> sys_lstat FILE_STORAGE_DIRECTORY;
     (case information of
        Some st \<Rightarrow> is_directory st
      | None \<Rightarrow> do {
          e \<leftarrow> gets errno;
          if e \<noteq> ENOENT then ret (- 1)
          else do {
            m \<leftarrow> sys_mkdir FILE_STORAGE_DIRECTORY;
            e \<leftarrow> gets errno;
            if m \<noteq> 0 \<and> e \<noteq> EEXIST then ret (- 1)
            else do {
              information \<leftarrow> sys_lstat FILE_STORAGE_DIRECTORY;
              (case information of None \<Rightarrow> ret (- 1) | Some st \<Rightarrow> is_directory st)
            }
          }
        })
   }"

definition open_storage_directory :: "('z, int) sys" where
  "open_storage_directory = do {
     directory_fd \<leftarrow> open_dir FILE_STORAGE_DIRECTORY;
     if directory_fd < 0 then ret (- 1)
     else do {
       information \<leftarrow> sys_fstat directory_fd;
       if (case information of None \<Rightarrow> True | Some st \<Rightarrow> fst st \<noteq> IDir)
       then do {
         e \<leftarrow> gets errno;
         _ \<leftarrow> sys_close directory_fd;
         set_errno (if e = E0 then ENOTDIR else e);
         ret (- 1)
       }
       else ret directory_fd
     }
   }"

text \<open>The file name and size of a \<open>filename|filesize\<close> payload, \<open>None\<close> for -1.\<close>

definition parse_upload_metadata :: "string \<Rightarrow> nat \<Rightarrow> (string \<times> nat) option" where
  "parse_upload_metadata metadata filename_size =
     (if filename_size = 0 then None
      else case strchr metadata (CHR ''|'') of
        None \<Rightarrow> None
      | Some separator \<Rightarrow>
          if strchr (drop (Suc separator) metadata) (CHR ''|'') \<noteq> None then None
          else if separator = 0 \<or> separator \<ge> filename_size then None
          else if \<not> is_valid_shared_filename (take separator metadata) then None
          else (let size_text = drop (Suc separator) metadata
                in if size_text = [] then None
                   else case strtoull size_text of (parsed, end_pointer, range_error) \<Rightarrow>
                     if range_error \<or> end_pointer = 0 \<or> end_pointer \<noteq> length size_text \<or>
                        parsed > FILE_MAX_SIZE
                     then None
                     else Some (take separator metadata, parsed)))"

definition build_upload_temp_name :: "int \<Rightarrow> nat \<Rightarrow> ('z, string option) sys" where
  "build_upload_temp_name fd buffer_size = do {
     p \<leftarrow> gets pid;
     t \<leftarrow> gets tid;
     (let (written, buffer) = snprintf buffer_size
        (''.upload-'' @ int_str p @ ''-'' @ int_str fd @ ''-'' @ nat_str t @ ''.tmp'')
      in if written < 0 \<or> written \<ge> int buffer_size
         then do { set_errno ENAMETOOLONG; ret None }
         else ret (Some buffer))
   }"

subsection \<open>Uploads\<close>

record upload_locals =
  u_result :: int
  u_storage_fd :: int
  u_file_fd :: int
  u_temp_created :: bool
  u_temporary_name :: string
  u_timer :: "performance_timer_t option"

text \<open>\<open>u_timer\<close> is \<open>None\<close> while \<open>transfer_timer_started\<close> is 0.\<close>

definition fresh_timer :: performance_timer_t where
  "fresh_timer = \<lparr>start_time = (0, 0), running = False\<rparr>"

definition start_timer :: "log_entry \<Rightarrow> performance_timer_t option srv" where
  "start_timer ev = do {
     (r, timer) \<leftarrow> performance_timer_start fresh_timer;
     if r = 0 then ret (Some timer) else do { log_event ev; ret None }
   }"

text \<open>The receive loop: whether all promised bytes arrived, and \<open>write_failed\<close>.\<close>

function upload_loop :: "int \<Rightarrow> string \<Rightarrow> string \<Rightarrow> int \<Rightarrow> nat \<Rightarrow> bool \<Rightarrow> (bool \<times> bool) srv" where
  "upload_loop fd user filename file_fd remaining write_failed =
     (if remaining > 0
      then (let chunk_size = (if remaining > FILE_CHUNK_SIZE then FILE_CHUNK_SIZE else remaining)
            in do {
              (receive_result, buffer) \<leftarrow> recv_all fd chunk_size;
              if receive_result \<noteq> 0
              then do { log_event (UploadInterrupted user filename remaining); ret (False, write_failed) }
              else do {
                failed \<leftarrow>
                  (if \<not> write_failed
                   then do {
                     w \<leftarrow> write_all_file file_fd buffer;
                     if w \<noteq> 0
                     then do { log_event_errno (UploadWriteFailed user filename); ret True }
                     else ret False
                   }
                   else ret True);
                upload_loop fd user filename file_fd (remaining - chunk_size) failed
              }
            })
      else ret (True, write_failed))"
  by pat_completeness auto
termination
  by (relation "measure (\<lambda>(fd, user, filename, file_fd, remaining, w). remaining)")
    (auto simp: FILE_CHUNK_SIZE_def)

declare upload_loop.simps [simp del]

definition upload_stop_timer :: "string \<Rightarrow> string \<Rightarrow> nat \<Rightarrow> performance_timer_t option \<Rightarrow> unit srv" where
  "upload_stop_timer user filename file_size timer =
     (case timer of
        None \<Rightarrow> ret ()
      | Some t \<Rightarrow> do {
          (r, transfer_seconds, _) \<leftarrow> performance_timer_stop t;
          (case transfer_seconds of
             Some seconds \<Rightarrow>
               log_event (UploadPerformance user filename file_size seconds
                 (performance_timer_mib_per_second file_size seconds))
           | None \<Rightarrow> log_event (UploadTimerStop user filename))
        })"

text \<open>\<open>fsync\<close>, \<open>fchmod\<close>, \<open>close\<close>: the final value of \<open>write_failed\<close>.\<close>

definition upload_finish_file :: "int \<Rightarrow> bool \<Rightarrow> ('z, bool) sys" where
  "upload_finish_file file_fd write_failed = do {
     write_failed \<leftarrow> (if \<not> write_failed then do { r \<leftarrow> sys_fsync file_fd; ret (r \<noteq> 0) } else ret True);
     write_failed \<leftarrow> (if \<not> write_failed then do { r \<leftarrow> sys_fchmod file_fd 420; ret (r \<noteq> 0) } else ret True);
     c \<leftarrow> sys_close file_fd;
     ret (write_failed \<or> c \<noteq> 0)
   }"

text \<open>From \<open>linkat\<close> on: \<open>result\<close> and \<open>temp_created\<close>.\<close>

definition upload_publish :: "int \<Rightarrow> string \<Rightarrow> string \<Rightarrow> nat \<Rightarrow> int \<Rightarrow> string \<Rightarrow> (int \<times> bool) srv" where
  "upload_publish fd user filename file_size storage_fd temporary_name = do {
     l \<leftarrow> sys_linkat storage_fd temporary_name filename;
     if l \<noteq> 0
     then do {
       saved_errno \<leftarrow> gets errno;
       if saved_errno = EEXIST
       then do { r \<leftarrow> send_error fd ''FILE_ALREADY_EXISTS''; ret (r, True) }
       else do {
         log_event (UploadFinalizeFailed filename saved_errno);
         r \<leftarrow> send_error fd ''UPLOAD_FINALIZE_FAILED'';
         ret (r, True)
       }
     }
     else do {
       u \<leftarrow> sys_unlinkat storage_fd temporary_name;
       temp_created \<leftarrow> (if u = 0 then ret False
                       else do { log_event_errno (UploadTempLink filename); ret True });
       (let (response_written, response) = snprintf (FILE_NAME_MAX_SIZE + 64)
              (''UPLOAD_SUCCESS '' @ filename @ '' '' @ nat_str file_size)
        in if response_written < 0 \<or> response_written \<ge> int (FILE_NAME_MAX_SIZE + 64)
           then ret (- 1, temp_created)
           else do {
             r \<leftarrow> client_manager_send fd MSG_RESPONSE response;
             if r \<noteq> 0
             then do { log_event (UploadResponseFailed user filename); ret (- 1, temp_created) }
             else do { log_event (UploadSuccess user filename file_size); ret (0, temp_created) }
           })
     }
   }"

text \<open>From \<open>UPLOAD_READY\<close> on, with the temporary file open.\<close>

definition upload_transfer ::
    "int \<Rightarrow> string \<Rightarrow> string \<Rightarrow> nat \<Rightarrow> int \<Rightarrow> string \<Rightarrow> int \<Rightarrow> upload_locals srv" where
  "upload_transfer fd user filename file_size storage_fd temporary_name file_fd = do {
     let v = \<lparr>u_result = - 1, u_storage_fd = storage_fd, u_file_fd = file_fd, u_temp_created = True,
              u_temporary_name = temporary_name, u_timer = None\<rparr>;
     r \<leftarrow> client_manager_send fd MSG_RESPONSE ''UPLOAD_READY'';
     if r \<noteq> 0 then ret v
     else do {
       timer \<leftarrow> start_timer (UploadTimerStart user filename);
       (complete, write_failed) \<leftarrow> upload_loop fd user filename file_fd file_size False;
       if \<not> complete then ret (v\<lparr>u_timer := timer\<rparr>)
       else do {
         upload_stop_timer user filename file_size timer;
         write_failed \<leftarrow> upload_finish_file file_fd write_failed;
         if write_failed
         then do { r \<leftarrow> send_error fd ''UPLOAD_WRITE_FAILED'';
                   ret (v\<lparr>u_result := r, u_file_fd := - 1\<rparr>) }
         else do {
           (result, temp_created) \<leftarrow> upload_publish fd user filename file_size storage_fd temporary_name;
           ret (v\<lparr>u_result := result, u_file_fd := - 1, u_temp_created := temp_created\<rparr>)
         }
       }
     }
   }"

text \<open>From the destination check on, with the storage directory open.\<close>

definition upload_create ::
    "int \<Rightarrow> string \<Rightarrow> string \<Rightarrow> nat \<Rightarrow> int \<Rightarrow> string \<Rightarrow> upload_locals srv" where
  "upload_create fd user filename file_size storage_fd temporary_name = do {
     let v = \<lparr>u_result = 0, u_storage_fd = storage_fd, u_file_fd = - 1, u_temp_created = False,
              u_temporary_name = temporary_name, u_timer = None\<rparr>;
     u \<leftarrow> sys_unlinkat storage_fd temporary_name;
     e \<leftarrow> gets errno;
     if u \<noteq> 0 \<and> e \<noteq> ENOENT
     then do {
       log_event (UploadStaleTemp filename e);
       r \<leftarrow> send_error fd ''UPLOAD_TEMP_CLEANUP_FAILED'';
       ret (v\<lparr>u_result := r\<rparr>)
     }
     else do {
       file_fd \<leftarrow> sys_openat storage_fd temporary_name
         [O_WRONLY, O_CREAT, O_EXCL, O_CLOEXEC, O_NOFOLLOW] 384;
       if file_fd < 0
       then do {
         log_event_errno (UploadCreateFailed filename);
         r \<leftarrow> send_error fd ''UPLOAD_CREATE_FAILED'';
         ret (v\<lparr>u_result := r, u_file_fd := file_fd\<rparr>)
       }
       else upload_transfer fd user filename file_size storage_fd temporary_name file_fd
     }
   }"

definition upload_body :: "int \<Rightarrow> string \<Rightarrow> string \<Rightarrow> nat \<Rightarrow> upload_locals srv" where
  "upload_body fd user filename file_size = do {
     storage_fd \<leftarrow> open_storage_directory;
     let v = \<lparr>u_result = 0, u_storage_fd = storage_fd, u_file_fd = - 1, u_temp_created = False,
              u_temporary_name = [], u_timer = None\<rparr>;
     if storage_fd < 0
     then do {
       log_event_errno UploadOpenFailed;
       r \<leftarrow> send_error fd ''STORAGE_UNAVAILABLE'';
       ret (v\<lparr>u_result := r\<rparr>)
     }
     else do {
       destination \<leftarrow> sys_fstatat storage_fd filename;
       e \<leftarrow> gets errno;
       if destination \<noteq> None
       then do { r \<leftarrow> send_error fd ''FILE_ALREADY_EXISTS''; ret (v\<lparr>u_result := r\<rparr>) }
       else if e \<noteq> ENOENT
       then do {
         log_event (UploadDestinationCheckFailed filename e);
         r \<leftarrow> send_error fd ''UPLOAD_DESTINATION_CHECK_FAILED'';
         ret (v\<lparr>u_result := r\<rparr>)
       }
       else do {
         temp \<leftarrow> build_upload_temp_name fd FILE_NAME_MAX_SIZE;
         (case temp of
            None \<Rightarrow> do { r \<leftarrow> send_error fd ''UPLOAD_TEMP_PATH_FAILED''; ret (v\<lparr>u_result := r\<rparr>) }
          | Some temporary_name \<Rightarrow>
              upload_create fd user filename file_size storage_fd temporary_name)
       }
     }
   }"

definition upload_abort_timer :: "string \<Rightarrow> string \<Rightarrow> nat \<Rightarrow> performance_timer_t option \<Rightarrow> unit srv" where
  "upload_abort_timer user filename file_size timer =
     (case timer of
        None \<Rightarrow> ret ()
      | Some t \<Rightarrow> do {
          (r, transfer_seconds, _) \<leftarrow> performance_timer_stop t;
          (case transfer_seconds of
             Some seconds \<Rightarrow> log_event (UploadAborted user filename file_size seconds)
           | None \<Rightarrow> ret ())
        })"

definition upload_cleanup :: "string \<Rightarrow> string \<Rightarrow> nat \<Rightarrow> int \<Rightarrow> upload_locals \<Rightarrow> int srv" where
  "upload_cleanup user filename file_size lock_fd v = do {
     upload_abort_timer user filename file_size (u_timer v);
     (if u_file_fd v \<ge> 0
      then do { c \<leftarrow> sys_close (u_file_fd v);
                if c \<noteq> 0 then log_event (UploadTempClose filename) else ret () }
      else ret ());
     (if u_temp_created v \<and> u_storage_fd v \<ge> 0
      then do { u \<leftarrow> sys_unlinkat (u_storage_fd v) (u_temporary_name v);
                e \<leftarrow> gets errno;
                if u \<noteq> 0 \<and> e \<noteq> ENOENT then log_event (UploadTempCleanup filename e) else ret () }
      else ret ());
     (if u_storage_fd v \<ge> 0
      then do { c \<leftarrow> sys_close (u_storage_fd v);
                if c \<noteq> 0 then log_event UploadStorageClose else ret () }
      else ret ());
     r \<leftarrow> file_lock_release lock_fd;
     (if r \<noteq> 0 then log_event (UploadLockRelease user filename) else ret ());
     ret (u_result v)
   }"

definition file_manager_handle_upload :: "int \<Rightarrow> string \<Rightarrow> string \<Rightarrow> int srv" where
  "file_manager_handle_upload fd user metadata =
     (case parse_upload_metadata metadata FILE_NAME_MAX_SIZE of
        None \<Rightarrow> do {
          log_event (RejectedUploadMetadata user);
          send_error fd ''INVALID_UPLOAD_METADATA''
        }
      | Some (filename, file_size) \<Rightarrow> do {
          set_errno E0;
          r \<leftarrow> ensure_storage_directory;
          if r \<noteq> 0
          then do { log_event_errno UploadStorageUnavailable; send_error fd ''STORAGE_UNAVAILABLE'' }
          else do {
            lock_fd \<leftarrow> file_lock_acquire filename FILE_LOCK_EXCLUSIVE;
            if lock_fd < 0
            then do { log_event_errno (UploadLockFailed user filename); send_error fd ''FILE_LOCK_FAILED'' }
            else do {
              v \<leftarrow> upload_body fd user filename file_size;
              upload_cleanup user filename file_size lock_fd v
            }
          }
        })"

subsection \<open>Helpers that touch files only\<close>

lemma write_all_frame: "state_io_rel (same fs_rest) (write_all_file fd bs)"
proof -
  have "fs_rest (snd (write_all_loop fd bs n s)) = fs_rest s" for n and s :: "'a os_scheme"
  proof (induction fd bs n s rule: write_all_loop.induct)
    case (1 fd bs n s)
    obtain r s' where run: "run_state (sys_write fd (drop n bs)) s = (r, s')" by fastforce
    have "fs_rest s' = fs_rest s" by (rule same_run [OF fs_frames(11) run])
    moreover have "fs_rest (s'\<lparr>errno := e\<rparr>) = fs_rest s'" for e by (simp add: fs_rest_def)
    ultimately show ?case
      using "1.IH" [OF _ run [symmetric]] run by (simp add: write_all_loop.simps [of fd bs n s])
  qed
  then show ?thesis by (simp add: write_all_file_def io_rel_State same_def)
qed

lemma storage_frames:
  "state_io_rel (same fs_rest) ensure_storage_directory"
  "state_io_rel (same fs_rest) open_storage_directory"
  "state_io_rel (same fs_rest) (build_upload_temp_name fd n)"
  "state_io_rel (same fs_rest) (upload_finish_file fd b)"
  unfolding ensure_storage_directory_def is_directory_def open_storage_directory_def
    build_upload_temp_name_def upload_finish_file_def
  by (intro same.io_sys fs_base fs_frames)+

subsection \<open>Downloads\<close>

text \<open>The stages return \<open>result\<close> and \<open>file_fd\<close>.\<close>

definition download_stop_timer ::
    "string \<Rightarrow> string \<Rightarrow> nat \<Rightarrow> int \<Rightarrow> performance_timer_t option \<Rightarrow> unit srv" where
  "download_stop_timer user filename file_size stream_result timer =
     (case timer of
        None \<Rightarrow> ret ()
      | Some t \<Rightarrow> do {
          (r, transfer_seconds, _) \<leftarrow> performance_timer_stop t;
          (case transfer_seconds of
             Some seconds \<Rightarrow>
               if stream_result = 0
               then log_event (DownloadPerformance user filename file_size seconds
                      (performance_timer_mib_per_second file_size seconds))
               else log_event (DownloadAborted user filename file_size seconds)
           | None \<Rightarrow> log_event (DownloadTimerStop user filename))
        })"

definition download_stream :: "int \<Rightarrow> string \<Rightarrow> string \<Rightarrow> int \<Rightarrow> nat \<Rightarrow> int srv" where
  "download_stream fd user filename file_fd file_size =
     (let (response_written, response) = snprintf (MESSAGE_MAX_SIZE + 1)
            (''DOWNLOAD_READY '' @ filename @ ''|'' @ nat_str file_size)
      in if response_written < 0 \<or> response_written \<ge> int (MESSAGE_MAX_SIZE + 1)
         then send_error fd ''DOWNLOAD_METADATA_FAILED''
         else do {
           timer \<leftarrow> start_timer (DownloadTimerStart user filename);
           stream_result \<leftarrow> client_manager_send_file_stream fd MSG_RESPONSE response file_fd file_size;
           download_stop_timer user filename file_size stream_result timer;
           if stream_result \<noteq> 0
           then do { log_event (DownloadStreamFailed user filename); ret (- 1) }
           else do { log_event (DownloadSuccess user filename file_size); ret 0 }
         })"

definition download_file :: "int \<Rightarrow> string \<Rightarrow> string \<Rightarrow> int \<Rightarrow> int srv" where
  "download_file fd user filename file_fd = do {
     information \<leftarrow> sys_fstat file_fd;
     (case information of
        None \<Rightarrow> send_error fd ''DOWNLOAD_STAT_FAILED''
      | Some (kind, st_size) \<Rightarrow>
          if kind \<noteq> IReg
          then do { log_event (RejectedNonRegular user filename); send_error fd ''NOT_A_REGULAR_FILE'' }
          else if st_size < 0 then send_error fd ''INVALID_FILE_SIZE''
          else if nat st_size > FILE_MAX_SIZE then send_error fd ''FILE_TOO_LARGE''
          else download_stream fd user filename file_fd (nat st_size))
   }"

definition download_body :: "int \<Rightarrow> string \<Rightarrow> string \<Rightarrow> int \<Rightarrow> (int \<times> int) srv" where
  "download_body fd user filename storage_fd =
     (if storage_fd < 0
      then do {
        log_event_errno DownloadOpenDirFailed;
        r \<leftarrow> send_error fd ''STORAGE_UNAVAILABLE'';
        ret (r, - 1)
      }
      else do {
        file_fd \<leftarrow> sys_openat storage_fd filename [O_RDONLY, O_CLOEXEC, O_NOFOLLOW] 0;
        if file_fd < 0
        then do {
          saved_errno \<leftarrow> gets errno;
          r \<leftarrow> (if saved_errno = ENOENT then send_error fd ''FILE_NOT_FOUND''
               else if saved_errno = ELOOP
               then do { log_event (RejectedSymlink user filename); send_error fd ''UNSAFE_FILE_ENTRY'' }
               else do { log_event (DownloadOpenFailed user filename saved_errno);
                         send_error fd ''DOWNLOAD_OPEN_FAILED'' });
          ret (r, file_fd)
        }
        else do { r \<leftarrow> download_file fd user filename file_fd; ret (r, file_fd) }
      })"

definition download_cleanup :: "string \<Rightarrow> string \<Rightarrow> int \<Rightarrow> int \<Rightarrow> int \<Rightarrow> int \<Rightarrow> int srv" where
  "download_cleanup user filename lock_fd storage_fd file_fd result = do {
     (if file_fd \<ge> 0
      then do { c \<leftarrow> sys_close file_fd;
                if c \<noteq> 0 then log_event (DownloadSourceClose filename) else ret () }
      else ret ());
     (if storage_fd \<ge> 0
      then do { c \<leftarrow> sys_close storage_fd;
                if c \<noteq> 0 then log_event DownloadStorageClose else ret () }
      else ret ());
     r \<leftarrow> file_lock_release lock_fd;
     (if r \<noteq> 0 then log_event (DownloadLockRelease user filename) else ret ());
     ret result
   }"

definition file_manager_handle_download :: "int \<Rightarrow> string \<Rightarrow> string \<Rightarrow> int srv" where
  "file_manager_handle_download fd user filename =
     (if \<not> is_valid_shared_filename filename
      then do { log_event (RejectedDownloadFilename user); send_error fd ''INVALID_DOWNLOAD_FILENAME'' }
      else do {
        r \<leftarrow> ensure_storage_directory;
        if r \<noteq> 0
        then do { log_event_errno DownloadStorageUnavailable; send_error fd ''STORAGE_UNAVAILABLE'' }
        else do {
          lock_fd \<leftarrow> file_lock_acquire filename FILE_LOCK_SHARED;
          if lock_fd < 0
          then do { log_event_errno (DownloadLockFailed user filename); send_error fd ''FILE_LOCK_FAILED'' }
          else do {
            storage_fd \<leftarrow> open_storage_directory;
            (result, file_fd) \<leftarrow> download_body fd user filename storage_fd;
            download_cleanup user filename lock_fd storage_fd file_fd result
          }
        }
      })"

subsection \<open>Listing\<close>

text \<open>What is left to read of a directory stream.\<close>

definition dir_left :: "int \<Rightarrow> 'z os_scheme \<Rightarrow> nat" where
  "dir_left dfd s = (case fd_obj s dfd of Some (FDir p i) \<Rightarrow> length (ents (dirs s p)) - i | _ \<Rightarrow> 0)"

lemma dir_left_readdir:
  "run_state (sys_readdir dfd) s = (Some name, s') \<Longrightarrow> dir_left dfd s' < dir_left dfd s"
  by (auto simp: sys_readdir_def fs_fault_def fail_none_def set_errno_def dir_left_def fd_obj_def
      update_conv split: list.splits fault.splits option.splits fdobj.splits if_splits)

lemma dir_left_same: "fds s' = fds s \<Longrightarrow> dirs s' = dirs s \<Longrightarrow> dir_left dfd s' = dir_left dfd s"
  by (simp add: dir_left_def fd_obj_def split: option.split fdobj.split)

lemma fstatat_same:
  "run_state (sys_fstatat dfd name) s = (r, s') \<Longrightarrow> fds s' = fds s \<and> dirs s' = dirs s"
  by (auto simp: sys_fstatat_def fs_fault_def fail_none_def set_errno_def
      split: list.splits fault.splits option.splits)

lemma send_same:
  "run_state (client_manager_send fd t p) s = (r, s') \<Longrightarrow> fds s' = fds s \<and> dirs s' = dirs s"
  by (drule same_run [OF routing_frames(2)]) (simp add: send_rest_def)

text \<open>The loop: -1 when a send failed and the function returned from inside it; else 0,
  \<open>list_failed\<close> and \<open>file_count\<close>.\<close>

function list_loop :: "int \<Rightarrow> int \<Rightarrow> int \<Rightarrow> server \<Rightarrow> (int \<times> bool \<times> int) \<times> server" where
  "list_loop fd dfd file_count s =
     (case run_state (sys_readdir dfd) s of
        (None, s1) \<Rightarrow> ((0, errno s1 \<noteq> E0, file_count), s1)
      | (Some d_name, s1) \<Rightarrow>
          if \<not> is_valid_shared_filename d_name then list_loop fd dfd file_count s1
          else (case run_state (sys_fstatat dfd d_name) s1 of
              (None, s2) \<Rightarrow> list_loop fd dfd file_count s2
            | (Some (kind, st_size), s2) \<Rightarrow>
                if kind \<noteq> IReg \<or> st_size < 0 then list_loop fd dfd file_count s2
                else if nat st_size > FILE_MAX_SIZE then list_loop fd dfd file_count s2
                else (case snprintf (FILE_NAME_MAX_SIZE + 64) (d_name @ ''|'' @ nat_str (nat st_size)) of
                    (written, file_entry) \<Rightarrow>
                      if written < 0 \<or> written \<ge> int (FILE_NAME_MAX_SIZE + 64)
                      then list_loop fd dfd file_count s2
                      else (case run_state (client_manager_send fd MSG_FILELIST file_entry) s2 of
                          (r, s3) \<Rightarrow>
                            if r \<noteq> 0 then ((- 1, False, file_count), exec (sys_close dfd) s3)
                            else list_loop fd dfd (file_count + 1) s3))))"
  by pat_completeness auto
termination
proof (relation "measure (\<lambda>(fd, dfd, n, s). dir_left dfd s)", goal_cases)
  case 1
  show ?case by simp
next
  case (2 fd dfd n s x s1 name)
  then show ?case by (auto dest: dir_left_readdir [OF sym])
next
  case (3 fd dfd n s x s1 name y s2)
  then show ?case
    by (auto dest!: dir_left_readdir [OF sym] fstatat_same [OF sym] simp: dir_left_same [of s2 s1])
next
  case (4 fd dfd n s x s1 name y s2 z kind st_size)
  then show ?case
    by (auto dest!: dir_left_readdir [OF sym] fstatat_same [OF sym] simp: dir_left_same [of s2 s1])
next
  case (5 fd dfd n s x s1 name y s2 z kind st_size)
  then show ?case
    by (auto dest!: dir_left_readdir [OF sym] fstatat_same [OF sym] simp: dir_left_same [of s2 s1])
next
  case (6 fd dfd n s x s1 name y s2 z kind st_size written file_entry)
  then show ?case
    by (auto dest!: dir_left_readdir [OF sym] fstatat_same [OF sym] simp: dir_left_same [of s2 s1])
next
  case (7 fd dfd n s x s1 name y s2 z kind st_size written file_entry r s3)
  then show ?case
    by (auto dest!: dir_left_readdir [OF sym] fstatat_same [OF sym] send_same [OF sym]
        simp: dir_left_same [of s2 s1] dir_left_same [of s3 s2])
qed

declare list_loop.simps [simp del]

definition list_end :: "int \<Rightarrow> string \<Rightarrow> int \<Rightarrow> int srv" where
  "list_end fd user file_count =
     (let (end_written, end_message) = snprintf 64 (''FILE_LIST_END '' @ int_str file_count)
      in if end_written < 0 \<or> end_written \<ge> 64 then ret (- 1)
         else do {
           r \<leftarrow> client_manager_send fd MSG_RESPONSE end_message;
           if r \<noteq> 0 then ret (- 1)
           else do { log_event (ListRequested user file_count); ret 0 }
         })"

text \<open>From \<open>closedir\<close> on.\<close>

definition list_close :: "int \<Rightarrow> string \<Rightarrow> int \<Rightarrow> bool \<Rightarrow> int \<Rightarrow> int srv" where
  "list_close fd user directory_fd list_failed file_count = do {
     c \<leftarrow> sys_close directory_fd;
     if list_failed \<or> c \<noteq> 0
     then do { log_event (ListReadFailed user); send_error fd ''FILE_LIST_READ_FAILED'' }
     else list_end fd user file_count
   }"

text \<open>What runs while the directory stream is open.\<close>

definition list_opened :: "int \<Rightarrow> string \<Rightarrow> int \<Rightarrow> int srv" where
  "list_opened fd user directory_fd = do {
     r \<leftarrow> client_manager_send fd MSG_RESPONSE ''FILE_LIST_BEGIN'';
     if r \<noteq> 0 then do { _ \<leftarrow> sys_close directory_fd; ret (- 1) }
     else do {
       set_errno E0;
       (status, list_failed, file_count) \<leftarrow> State (list_loop fd directory_fd 0);
       if status \<noteq> 0 then ret (- 1)
       else list_close fd user directory_fd list_failed file_count
     }
   }"

definition file_manager_handle_list :: "int \<Rightarrow> string \<Rightarrow> int srv" where
  "file_manager_handle_list fd user = do {
     r \<leftarrow> ensure_storage_directory;
     if r \<noteq> 0 then send_error fd ''STORAGE_UNAVAILABLE''
     else do {
       directory_fd \<leftarrow> open_storage_directory;
       if directory_fd < 0
       then do { log_event_errno ListOpenFailed; send_error fd ''FILE_LIST_OPEN_FAILED'' }
       else do {
         opened \<leftarrow> sys_fdopendir directory_fd;
         if \<not> opened
         then do {
           saved_errno \<leftarrow> gets errno;
           _ \<leftarrow> sys_close directory_fd;
           set_errno saved_errno;
           send_error fd ''FILE_LIST_OPEN_FAILED''
         }
         else list_opened fd user directory_fd
       }
     }
   }"

end
