(* ===== verification/Storage.thy ===== *)
theory Storage
  imports File_Manager
begin

section \<open>The shared storage\<close>

text \<open>
  What the file calls do to the storage directory, stated so that the proofs about uploads,
  downloads and listings compose: every call is one of a few effects, up to \<open>errno\<close> and the
  outcomes it used up. \<open>stored s\<close> is the abstract storage, a map from names to files.
\<close>

subsection \<open>Effects of the calls\<close>

text \<open>\<open>blip s s'\<close>: nothing but \<open>errno\<close> and the script of file calls has changed.\<close>

definition blip :: "'z os_scheme \<Rightarrow> 'z os_scheme \<Rightarrow> bool" where
  "blip s s' \<longleftrightarrow> s' = s\<lparr>errno := errno s', fs_script := fs_script s'\<rparr>"

lemma blipI: "s' = s\<lparr>errno := e, fs_script := f\<rparr> \<Longrightarrow> blip s s'"
  by (simp add: blip_def)

lemma blip_refl [simp]: "blip s s"
  by (simp add: blip_def)

lemma blip_trans: "blip s t \<Longrightarrow> blip t u \<Longrightarrow> blip s u"
proof -
  assume "blip s t" and "blip t u"
  then obtain e f e' f' where "t = s\<lparr>errno := e, fs_script := f\<rparr>" "u = t\<lparr>errno := e', fs_script := f'\<rparr>"
    unfolding blip_def by blast
  then show ?thesis by (simp add: blip_def)
qed

lemma blipD:
  assumes "blip s s'"
  shows "fds s' = fds s" "dirs s' = dirs s" "inodes s' = inodes s" "next_ino s' = next_ino s"
    "ofd_locks s' = ofd_locks s" "socks s' = socks s" "pid s' = pid s" "tid s' = tid s"
    "os.more s' = os.more s" "mtx_script s' = mtx_script s" "net_script s' = net_script s"
    "clk_script s' = clk_script s" "mono_ns s' = mono_ns s"
proof -
  obtain e f where "s' = s\<lparr>errno := e, fs_script := f\<rparr>" using assms unfolding blip_def by blast
  then show "fds s' = fds s" "dirs s' = dirs s" "inodes s' = inodes s" "next_ino s' = next_ino s"
    "ofd_locks s' = ofd_locks s" "socks s' = socks s" "pid s' = pid s" "tid s' = tid s"
    "os.more s' = os.more s" "mtx_script s' = mtx_script s" "net_script s' = net_script s"
    "clk_script s' = clk_script s" "mono_ns s' = mono_ns s" by simp_all
qed

interpretation blip: frame_rel blip
  by unfold_locales (auto intro: blip_trans)

lemma blip_fail:
  "state_io_rel blip fs_fault" "state_io_rel blip (set_errno e)" "state_io_rel blip (fail e)"
  "state_io_rel blip (fail_none e)"
proof -
  show fs: "state_io_rel blip fs_fault"
    by (auto simp: state_io_rel_def fs_fault_def blip_def split: list.splits)
  show err: "state_io_rel blip (set_errno e)" for e
    by (auto simp: state_io_rel_def set_errno_def blip_def)
  show "state_io_rel blip (fail e)" "state_io_rel blip (fail_none e)"
    unfolding fail_def fail_none_def by (intro blip.io_sys err)+
qed

lemma blip_queries:
  "state_io_rel blip (sys_lstat path)" "state_io_rel blip (sys_fstat fd)"
  "state_io_rel blip (sys_fstatat fd name)" "state_io_rel blip (sys_fsync fd)"
  "state_io_rel blip (sys_fdopendir fd)"
  unfolding sys_lstat_def sys_fstat_def sys_fstatat_def sys_fsync_def sys_fdopendir_def
  by (intro blip.io_sys blip_fail)+

lemma lookups_update [simp]:
  "fd_obj (s\<lparr>fs_script := f\<rparr>) fd = fd_obj s fd" "fd_obj (s\<lparr>errno := e\<rparr>) fd = fd_obj s fd"
  "dir_of (s\<lparr>fs_script := f\<rparr>) fd = dir_of s fd" "dir_of (s\<lparr>errno := e\<rparr>) fd = dir_of s fd"
  "entry (s\<lparr>fs_script := f\<rparr>) p n = entry s p n" "entry (s\<lparr>errno := e\<rparr>) p n = entry s p n"
  by (simp_all add: dir_of_def fd_obj_def entry_def)

definition closed :: "int \<Rightarrow> 'z os_scheme \<Rightarrow> 'z os_scheme" where
  "closed fd s = s\<lparr>fds := AList.delete fd (fds s), ofd_locks := filter (\<lambda>l. fst l \<noteq> fd) (ofd_locks s)\<rparr>"

lemmas fs_run = fs_fault_def fail_def fail_none_def set_errno_def blip_def

lemma sys_close_spec:
  assumes "run_state (sys_close fd) s = (r, s')" and "fd_obj s fd \<noteq> None"
  shows "(r = 0 \<or> r = -1) \<and> blip (closed fd s) s'"
  using assms
  by (auto simp: sys_close_def fs_run closed_def split: list.splits fault.splits)

lemma open_dir_spec:
  assumes "run_state (open_dir path) s = (r, s')"
  shows "r = -1 \<and> blip s s' \<or>
    r = fresh_fd (fds s) \<and> dkind (dirs s path) = DDir \<and> blip (s\<lparr>fds := (r, FDir path 0) # fds s\<rparr>) s'"
  using assms
  by (auto simp: open_dir_def fs_run alloc_fd_def split: list.splits fault.splits dkind.splits)

lemma sys_mkdir_spec:
  assumes "run_state (sys_mkdir path) s = (r, s')"
  shows "r = -1 \<and> blip s s' \<or>
    r = 0 \<and> dkind (dirs s path) = DMissing \<and>
      blip (s\<lparr>dirs := (dirs s)(path := \<lparr>dkind = DDir, ents = []\<rparr>)\<rparr>) s'"
  using assms
  by (auto simp: sys_mkdir_def fs_run split: list.splits fault.splits if_splits option.splits)

lemma sys_unlinkat_spec:
  assumes "run_state (sys_unlinkat dfd name) s = (r, s')" and "dir_of s dfd = Some p"
  shows "r = -1 \<and> blip s s' \<or> r = 0 \<and> blip (del_entry p name s) s'"
  using assms
  by (auto simp: sys_unlinkat_def fs_run del_entry_def split: list.splits fault.splits option.splits if_splits)

lemma sys_linkat_spec:
  assumes "run_state (sys_linkat dfd old new) s = (r, s')" and "dir_of s dfd = Some p"
  shows "r = -1 \<and> blip s s' \<or>
    r = 0 \<and> entry s p new = None \<and> (\<exists>i. entry s p old = Some i \<and> blip (add_entry p new i s) s')"
  using assms
  by (auto simp: sys_linkat_def fs_run add_entry_def split: list.splits fault.splits option.splits if_splits)

lemma sys_openat_spec:
  assumes "run_state (sys_openat dfd name flags m) s = (r, s')" and "dir_of s dfd = Some p"
  shows "r = -1 \<and> blip s s' \<or>
    r = fresh_fd (fds s) \<and> O_CREAT \<in> set flags \<and> entry s p name = None \<and>
      blip (create_inode p name m (s\<lparr>fds := (r, FReg (next_ino s) 0) # fds s\<rparr>)) s' \<or>
    r = fresh_fd (fds s) \<and> \<not> (O_CREAT \<in> set flags \<and> O_EXCL \<in> set flags) \<and>
      (\<exists>i. entry s p name = Some i \<and> ikind (inodes s i) \<noteq> ILnk \<and>
           blip (s\<lparr>fds := (r, FReg i 0) # fds s\<rparr>) s')"
  using assms
  by (auto simp: sys_openat_def fs_run alloc_fd_def create_inode_def add_entry_def
      split: list.splits fault.splits option.splits if_splits)

lemma sys_write_spec:
  assumes "run_state (sys_write fd bs) s = (r, s')" and "fd_obj s fd = Some (FReg i off)"
  shows "r = -1 \<and> blip s s' \<or>
    0 \<le> r \<and> nat r \<le> length bs \<and>
      blip (s\<lparr>inodes := (inodes s)(i := (inodes s i)
              \<lparr>content := write_at off (take (nat r) bs) (content (inodes s i))\<rparr>),
             fds := AList.update fd (FReg i (off + nat r)) (fds s)\<rparr>) s'"
  using assms
  by (auto simp: sys_write_def fs_run Let_def min_def split: list.splits fault.splits)

lemma sys_read_spec:
  assumes "run_state (sys_read fd n) s = ((r, bs), s')" and "fd_obj s fd = Some (FReg i off)"
  shows "r = -1 \<and> bs = [] \<and> blip s s' \<or>
    0 \<le> r \<and> nat r \<le> n \<and> bs = take (nat r) (drop off (content (inodes s i))) \<and> length bs = nat r \<and>
      (r = 0 \<and> 0 < n \<longrightarrow> length (content (inodes s i)) \<le> off) \<and>
      blip (s\<lparr>fds := AList.update fd (FReg i (off + nat r)) (fds s)\<rparr>) s'"
  using assms
  by (auto simp: sys_read_def fs_run Let_def recv_amount_def min_def split: list.splits fault.splits if_splits)

lemma sys_fchmod_spec:
  assumes "run_state (sys_fchmod fd m) s = (r, s')" and "fd_obj s fd = Some (FReg i off)"
  shows "r = -1 \<and> blip s s' \<or>
    r = 0 \<and> blip (s\<lparr>inodes := (inodes s)(i := (inodes s i)\<lparr>imode := m\<rparr>)\<rparr>) s'"
  using assms
  by (auto simp: sys_fchmod_def fs_run split: list.splits fault.splits)

lemma fcntl_setlkw_spec:
  assumes "run_state (fcntl_setlkw fd t) s = (r, s')" and "fd_obj s fd = Some (FReg i off)"
  shows "r = -1 \<and> blip s s' \<or>
    r = 0 \<and> blip (s\<lparr>ofd_locks := (fd, i, t) #
      filter (\<lambda>(fd', i', t'). fd' \<noteq> fd \<and> \<not> (i' = i \<and> lock_conflict t t')) (ofd_locks s)\<rparr>) s'"
  using assms
  by (auto simp: fcntl_setlkw_def fs_run split: list.splits fault.splits)

lemma fcntl_unlock_spec:
  assumes "run_state (fcntl_unlock fd) s = (r, s')" and "fd_obj s fd \<noteq> None"
  shows "r = -1 \<and> blip s s' \<or>
    r = 0 \<and> blip (s\<lparr>ofd_locks := filter (\<lambda>l. fst l \<noteq> fd) (ofd_locks s)\<rparr>) s'"
  using assms
  by (auto simp: fcntl_unlock_def fs_run split: list.splits fault.splits)

subsection \<open>Calls that only talk\<close>

text \<open>\<open>core\<close>: descriptors, files, locks and the client table. \<open>silent\<close>: neither that nor a
  socket has changed. \<open>said fd w\<close>: \<open>w\<close> was appended to the outgoing stream of \<open>fd\<close>, no more.\<close>

definition core :: "server \<Rightarrow> _" where
  "core s = (fds s, dirs s, inodes s, next_ino s, ofd_locks s, pid s, tid s, table s,
     next_client_id s, manager_initialized s, server_running s, server_socket s)"

definition silent :: "server \<Rightarrow> server \<Rightarrow> bool" where
  "silent s s' \<longleftrightarrow> core s' = core s \<and> socks s' = socks s"

definition said :: "int \<Rightarrow> byte list \<Rightarrow> server \<Rightarrow> server \<Rightarrow> bool" where
  "said fd w s s' \<longleftrightarrow> core s' = core s \<and>
     socks s' = (socks s)(fd := (socks s fd)\<lparr>outbox := outbox (socks s fd) @ w\<rparr>)"

interpretation silent: frame_rel silent
  by unfold_locales (auto simp: silent_def)

lemma said_silent: "silent s s' \<Longrightarrow> said fd [] s s'"
  by (simp add: said_def silent_def)

lemma said_trans: "said fd v s t \<Longrightarrow> said fd w t u \<Longrightarrow> said fd (v @ w) s u"
  by (simp add: said_def)

lemma silent_said: "silent s t \<Longrightarrow> said fd w t u \<Longrightarrow> said fd w s u"
  by (simp add: said_def silent_def)

lemma said_then_silent: "said fd w s t \<Longrightarrow> silent t u \<Longrightarrow> said fd w s u"
  by (simp add: said_def silent_def)

lemma more_server:
  fixes s s' :: server
  assumes "os.more s' = os.more s"
  shows "clients s' = clients s" "clients_mutex s' = clients_mutex s" "blocked s' = blocked s"
    "next_client_id s' = next_client_id s" "manager_initialized s' = manager_initialized s"
    "server_running s' = server_running s" "server_socket s' = server_socket s"
    "log_queue s' = log_queue s" "log_script s' = log_script s" "table s' = table s"
  using assms by (cases s; cases s'; simp add: table_def)+

lemma core_no_mutex: "no_mutex t = no_mutex s \<Longrightarrow> core t = core s"
  using send_rest_no_mutex [of t s] by (simp add: send_rest_def core_def)

lemma core_log: "log_rest t = log_rest s \<Longrightarrow> core t = core s \<and> socks t = socks s"
proof -
  assume "log_rest t = log_rest s"
  moreover have "core (log_rest u) = core u \<and> socks (log_rest u) = socks u" for u :: server
    by (simp add: log_rest_def core_def table_def)
  ultimately show ?thesis by metis
qed

lemma core_clk: "clk_rest t = clk_rest s \<Longrightarrow> core t = core s \<and> socks t = socks s"
  using more_server [of t s] by (simp add: clk_rest_def core_def)

lemma core_blip: "blip s t \<Longrightarrow> core t = core s \<and> socks t = socks s"
  using more_server [of t s] blipD [of s t] by (simp add: core_def)

lemma silent_rules:
  "state_io_rel (same no_mutex) m \<Longrightarrow> state_io_rel silent m"
  "state_io_rel (same log_rest) m \<Longrightarrow> state_io_rel silent m"
  "state_io_rel (same clk_rest) m \<Longrightarrow> state_io_rel silent m"
  "state_io_rel blip m \<Longrightarrow> state_io_rel silent m"
proof -
  show "state_io_rel (same no_mutex) m \<Longrightarrow> state_io_rel silent m"
    by (erule io_rel_mono) (unfold same_def silent_def, intro conjI core_no_mutex no_mutex_eqD)
  show "state_io_rel (same log_rest) m \<Longrightarrow> state_io_rel silent m"
    by (erule io_rel_mono) (unfold same_def silent_def, rule core_log)
  show "state_io_rel (same clk_rest) m \<Longrightarrow> state_io_rel silent m"
    by (erule io_rel_mono) (unfold same_def silent_def, rule core_clk)
  show "state_io_rel blip m \<Longrightarrow> state_io_rel silent m"
    by (erule io_rel_mono) (unfold silent_def, rule core_blip)
qed

lemmas silent_base = silent.io_sys mutex_frames [THEN silent_rules(1)] log_event_frame [THEN silent_rules(2)]
  timer_frames [THEN silent_rules(3)] blip_fail [THEN silent_rules(4)] blip_queries [THEN silent_rules(4)]

lemma silent_run: "state_io_rel silent m \<Longrightarrow> run_state m s = (r, s') \<Longrightarrow> silent s s'"
  by (rule state_io_relD)

lemma silent_timers:
  "state_io_rel silent (start_timer ev)"
  "state_io_rel silent (upload_stop_timer u f n t)"
  "state_io_rel silent (upload_abort_timer u f n t)"
  "state_io_rel silent (download_stop_timer u f n r t)"
  unfolding start_timer_def upload_stop_timer_def upload_abort_timer_def download_stop_timer_def
  by (intro silent_base)+

text \<open>A send says its whole frame when it returns 0, whatever the mutexes do.\<close>

lemma said_wrote: "wrote fd w s t \<Longrightarrow> said fd w s t"
  using send_rest_wrote [of fd w s t] by (simp add: said_def core_def send_rest_def wrote_def)

lemma find_socket_core: "core t = core s \<Longrightarrow> find_socket_slot fd t = find_socket_slot fd s"
  by (simp add: find_table core_def)

lemma client_manager_send_said:
  assumes "run_state (client_manager_send fd t p) s = (r, s')"
  obtains w where "said fd w s s'" and "r = 0 \<Longrightarrow> w = frame t p"
proof -
  obtain l1 s1 where a: "run_state lock_clients s = (l1, s1)" by fastforce
  define i where "i = find_socket_slot fd s1"
  obtain u1 s1' where a': "run_state unlock_clients s1 = (u1, s1')" by fastforce
  obtain l2 s2 where b: "run_state (lock_send i) s1 = (l2, s2)" by fastforce
  obtain u3 s3 where c: "run_state unlock_clients s2 = (u3, s3)" by fastforce
  obtain u3' s3' where c': "run_state (unlock_send i) s3 = (u3', s3')" by fastforce
  obtain r4 s4 where d: "run_state (send_message_raw (socket_fd (clients s2 ! nat i)) t p) s3 = (r4, s4)"
    by fastforce
  obtain u5 s5 where e: "run_state (unlock_send i) s4 = (u5, s5)" by fastforce
  note q = silent_run [OF silent_base(13)] silent_run [OF silent_base(14)] silent_run [OF silent_base(15)]
    silent_run [OF silent_base(16)]
  have sil: "silent s s1" "silent s1 s1'" "silent s1 s2" "silent s2 s3" "silent s3 s3'" "silent s4 s5"
    using q(1) [OF a] q(2) [OF a'] q(3) [OF b] q(2) [OF c] q(4) [OF c'] q(4) [OF e] .
  have s3: "silent s s3" "silent s s3'" "silent s s1'" "silent s s2"
    using sil by (auto intro: silent.trans)
  have fd: "socket_fd (clients s2 ! nat i) = fd" if "\<not> i < 0"
    using slot_props(2) [of fd s2] that find_socket_core [of s2 s1] sil(3) by (simp add: i_def silent_def)
  from raw.any [OF d] obtain w where w: "wrote (socket_fd (clients s2 ! nat i)) w s3 s4" "r4 = 0 \<longleftrightarrow> w = frame t p"
    by metis
  have ne: "frame t p \<noteq> []" using length_frame [of t p] by (auto simp del: length_frame)
  have said: "said fd w s s5" if "\<not> i < 0"
    using said_then_silent [OF silent_said [OF s3(1) said_wrote [OF w(1)]] sil(6)] fd [OF that] by simp
  have "(s' = s \<or> s' = s1 \<or> s' = s1' \<or> s' = s3' \<or> s' = snd (run_state unlock_clients s2)) \<and> r \<noteq> 0 \<or>
      \<not> i < 0 \<and> s' = s5 \<and> r = r4"
    using assms a a' b c c' d e
    by (auto simp: client_manager_send_def i_def split: if_splits)
  then show thesis
  proof (elim disjE conjE)
    assume "\<not> i < 0" "s' = s5" "r = r4"
    with said w(2) show thesis by (intro that [of w]) auto
  qed (use that [of "[]"] said_silent sil(1) s3 c silent.refl in \<open>auto\<close>)
qed

lemma send_error_said:
  assumes "run_state (send_error fd m) s = (r, s')"
  obtains w where "said fd w s s'" and "r = 0 \<or> r = -1" and "r = 0 \<Longrightarrow> w = frame MSG_ERROR m"
proof -
  obtain r1 s1 where a: "run_state (client_manager_send fd MSG_ERROR m) s = (r1, s1)" by fastforce
  from client_manager_send_said [OF a] obtain w where "said fd w s s1" "r1 = 0 \<Longrightarrow> w = frame MSG_ERROR m"
    by metis
  with assms a that [of w] show thesis by (auto simp: send_error_def split: if_splits)
qed

subsection \<open>Receiving into a file\<close>

text \<open>\<open>grow\<close>: bytes appended to inode \<open>i\<close> through the descriptor opened last.\<close>

definition grow :: "int \<Rightarrow> nat \<Rightarrow> byte list \<Rightarrow> (int \<times> fdobj) list \<Rightarrow> 'z os_scheme \<Rightarrow> 'z os_scheme" where
  "grow ffd i b R s = s\<lparr>inodes := (inodes s)(i := (inodes s i)\<lparr>content := content (inodes s i) @ b\<rparr>),
     fds := (ffd, FReg i (length (content (inodes s i)) + length b)) # R\<rparr>"

lemma grow_Nil:
  "fds s = (ffd, FReg i (length (content (inodes s i)))) # R \<Longrightarrow> grow ffd i [] R s = s"
  by (simp add: grow_def)

lemma grow_grow: "grow ffd i c R (grow ffd i b R s) = grow ffd i (b @ c) R s"
  by (simp add: grow_def)

lemma blip_grow:
  assumes "blip s t"
  shows "blip (grow ffd i b R s) (grow ffd i b R t)"
proof -
  obtain e f where "t = s\<lparr>errno := e, fs_script := f\<rparr>" using assms unfolding blip_def by blast
  then show ?thesis by (simp add: blip_def grow_def)
qed

lemma grow_sel:
  "fds (grow ffd i b R s) = (ffd, FReg i (length (content (inodes (grow ffd i b R s) i)))) # R"
  "content (inodes (grow ffd i b R s) i) = content (inodes s i) @ b"
  "fd_obj (grow ffd i b R s) ffd = Some (FReg i (length (content (inodes s i)) + length b))"
  by (simp_all add: grow_def fd_obj_def)

definition ready :: "int \<Rightarrow> nat \<Rightarrow> (int \<times> fdobj) list \<Rightarrow> 'z os_scheme \<Rightarrow> bool" where
  "ready ffd i R s \<longleftrightarrow> fds s = (ffd, FReg i (length (content (inodes s i)))) # R"

lemma ready_grow: "ready ffd i R (grow ffd i b R s)"
  by (simp add: ready_def grow_sel)

lemma ready_blip: "blip s t \<Longrightarrow> ready ffd i R t = ready ffd i R s"
  using blipD [of s t] by (simp add: ready_def)

lemma write_all_loop_spec:
  assumes "write_all_loop ffd bs n s = (r, s')" and "n \<le> length bs" and "ready ffd i R s"
  shows "\<exists>m \<le> length bs - n. blip (grow ffd i (take m (drop n bs)) R s) s' \<and> (r = 0 \<longrightarrow> m = length bs - n)"
  using assms
proof (induction ffd bs n s rule: write_all_loop.induct)
  case (1 ffd bs n s)
  have nil: "grow ffd i [] R s = s" using "1.prems"(3) by (simp add: ready_def grow_Nil)
  show ?case
  proof (cases "n < length bs")
    case False
    with "1.prems" nil show ?thesis by (simp add: write_all_loop.simps [of ffd bs n s])
  next
    case True
    obtain k t where run: "run_state (sys_write ffd (drop n bs)) s = (k, t)" by fastforce
    have obj: "fd_obj s ffd = Some (FReg i (length (content (inodes s i))))"
      using "1.prems"(3) by (simp add: ready_def fd_obj_def)
    have step: "k = -1 \<and> blip s t \<or>
        0 \<le> k \<and> nat k \<le> length bs - n \<and> blip (grow ffd i (take (nat k) (drop n bs)) R s) t"
      using sys_write_spec [OF run obj] "1.prems"(3)
      by (auto simp: ready_def grow_def write_at_def min_def)
    note eq = "1.prems"(1) [unfolded write_all_loop.simps [of ffd bs n s]]
    consider (intr) "k < 0" "errno t = EINTR" | (err) "k < 0" "errno t \<noteq> EINTR" | (zero) "k = 0"
      | (more) "0 < k" by linarith
    then show ?thesis
    proof cases
      case intr
      with eq True run have rec: "write_all_loop ffd bs n t = (r, s')" by simp
      from step intr have b: "blip s t" by simp
      from "1.IH"(1) [OF True run [symmetric] intr rec "1.prems"(2)] "1.prems"(3) obtain m where
        m: "m \<le> length bs - n" "blip (grow ffd i (take m (drop n bs)) R t) s'" "r = 0 \<longrightarrow> m = length bs - n"
        by (auto simp: ready_blip [OF b])
      with blip_trans [OF blip_grow [OF b] m(2)] show ?thesis by blast
    next
      case err
      with eq True run step nil show ?thesis by (intro exI [of _ 0]) auto
    next
      case zero
      have "blip t (t\<lparr>errno := EIO\<rparr>)" by (simp add: blip_def)
      with zero eq True run step nil show ?thesis by (intro exI [of _ 0]) (auto intro: blip_trans)
    next
      case more
      with eq True run have rec: "write_all_loop ffd bs (n + nat k) t = (r, s')" by simp
      from step more have k: "nat k \<le> length bs - n" and b: "blip (grow ffd i (take (nat k) (drop n bs)) R s) t"
        by auto
      from more have "\<not> k < 0" "k \<noteq> 0" by auto
      moreover have "n + nat k \<le> length bs" using k True by linarith
      moreover have "ready ffd i R t" using ready_blip [OF b] ready_grow by blast
      ultimately obtain m where m: "m \<le> length bs - (n + nat k)"
        "blip (grow ffd i (take m (drop (n + nat k) bs)) R t) s'" "r = 0 \<longrightarrow> m = length bs - (n + nat k)"
        using "1.IH"(2) [OF True run [symmetric] _ _ rec] by blast
      have "take (nat k) (drop n bs) @ take m (drop (n + nat k) bs) = take (nat k + m) (drop n bs)"
        unfolding take_add drop_drop by (simp add: add.commute)
      then have "blip (grow ffd i (take (nat k + m) (drop n bs)) R s) s'"
        using blip_trans [OF blip_grow [OF b] m(2)] by (simp add: grow_grow)
      moreover have "nat k + m \<le> length bs - n" using m(1) k by linarith
      ultimately show ?thesis using m(3) k True by (intro exI [of _ "nat k + m"]) auto
    qed
  qed
qed

lemma write_all_file_spec:
  assumes "run_state (write_all_file ffd bs) s = (r, s')" and "ready ffd i R s"
  obtains b where "blip (grow ffd i b R s) s'" and "r = 0 \<Longrightarrow> b = bs"
proof -
  from write_all_loop_spec [of ffd bs 0 s r s' i R] assms obtain m where
    "m \<le> length bs" "blip (grow ffd i (take m bs) R s) s'" "r = 0 \<longrightarrow> m = length bs"
    by (auto simp: write_all_file_def)
  then show thesis by (intro that [of "take m bs"]) auto
qed

text \<open>\<open>fed\<close>: \<open>k\<close> bytes were taken from the socket and \<open>b\<close> appended to the file.\<close>

definition fed :: "int \<Rightarrow> int \<Rightarrow> nat \<Rightarrow> (int \<times> fdobj) list \<Rightarrow> nat \<Rightarrow> byte list \<Rightarrow> server \<Rightarrow> server \<Rightarrow> bool" where
  "fed fd ffd i R k b s s' \<longleftrightarrow> core s' = core (grow ffd i b R s) \<and>
     socks s' = (socks s)(fd := (socks s fd)\<lparr>inbox := drop k (inbox (socks s fd))\<rparr>)"

lemma core_grow: "core t = core s \<Longrightarrow> core (grow ffd i b R t) = core (grow ffd i b R s)"
  by (simp add: core_def grow_def table_def)

lemma fed_trans:
  assumes "fed fd ffd i R k b s t" and "fed fd ffd i R l c t u"
  shows "fed fd ffd i R (k + l) (b @ c) s u"
  using assms core_grow [of t "grow ffd i b R s" ffd i c R] by (simp add: fed_def grow_grow add.commute)

lemma fed_silent: "fed fd ffd i R k b s t \<Longrightarrow> silent t u \<Longrightarrow> fed fd ffd i R k b s u"
  by (simp add: fed_def silent_def)

lemma fed_took:
  assumes "took fd k s t" and "ready ffd i R s"
  shows "fed fd ffd i R k [] s t"
  using assms more_server [of t s]
  by (simp add: fed_def took_def net_rest_def core_def ready_def grow_Nil)

lemma fed_grow:
  assumes "blip (grow ffd i b R s) t" 
  shows "fed fd ffd i R 0 b s t"
  using core_blip [OF assms] by (simp add: fed_def grow_def)

lemma fed_ready: "fed fd ffd i R k b s t \<Longrightarrow> ready ffd i R t"
  using ready_grow [of ffd i R b s] by (simp add: fed_def core_def ready_def)

lemma fed_inbox: "fed fd ffd i R k b s t \<Longrightarrow> inbox (socks t fd) = drop k (inbox (socks s fd))"
  by (simp add: fed_def)

lemma upload_chunk:
  assumes "run_state (recv_all fd n) s = ((0, buf), s1)" and "ready ffd i R s"
    and "run_state (if \<not> w then do { x \<leftarrow> write_all_file ffd buf;
            if x \<noteq> 0 then do { log_event_errno ev; ret True } else ret False } else ret True) s1 = (w', s2)"
  obtains b where "fed fd ffd i R n b s s2" and "n \<le> length (inbox (socks s fd))"
    and "\<not> w' \<Longrightarrow> \<not> w \<and> b = take n (inbox (socks s fd))"
proof -
  from recv_all_took [OF assms(1)] have took: "took fd n s s1" and buf: "buf = take n (inbox (socks s fd))"
    and len: "n \<le> length (inbox (socks s fd))" by auto
  note f1 = fed_took [OF took assms(2)]
  show thesis
  proof (cases w)
    case True
    with assms(3) f1 len that [of "[]"] show thesis by auto
  next
    case False
    obtain x s1' where wr: "run_state (write_all_file ffd buf) s1 = (x, s1')" by fastforce
    from write_all_file_spec [OF wr fed_ready [OF f1]] obtain b where
      b: "blip (grow ffd i b R s1) s1'" "x = 0 \<Longrightarrow> b = buf" by metis
    have f2: "fed fd ffd i R n b s s1'" using fed_trans [OF f1 fed_grow [OF b(1)]] by simp
    obtain y s1'' where lg: "run_state (log_event_errno ev) s1' = (y, s1'')" by (metis surj_pair)
    have "fed fd ffd i R n b s s1''"
      using fed_silent [OF f2] lg silent_run [OF log_event_frame(2) [THEN silent_rules(2)]] by blast
    with f2 False assms(3) wr lg b(2) buf len that [of b] show thesis by (auto split: if_splits)
  qed
qed

lemma upload_loop_spec:
  assumes "run_state (upload_loop fd u f ffd n w) s = ((got_all, w'), s')" and "ready ffd i R s"
  shows "\<exists>k b. fed fd ffd i R k b s s' \<and> (got_all \<longrightarrow> k = n \<and> n \<le> length (inbox (socks s fd))) \<and>
    (got_all \<and> \<not> w' \<longrightarrow> \<not> w \<and> b = take n (inbox (socks s fd)))"
  using assms
proof (induction fd u f ffd n w arbitrary: s rule: upload_loop.induct)
  case (1 fd u f ffd n w)
  note eq = "1.prems"(1) [unfolded upload_loop.simps [of fd u f ffd n w]]
  have nil: "fed fd ffd i R 0 [] s s" using "1.prems"(2) by (simp add: fed_def grow_Nil ready_def)
  show ?case
  proof (cases "0 < n")
    case False
    with eq nil show ?thesis by (intro exI [of _ 0] exI [of _ "[]"]) auto
  next
    case True
    define c where "c = (if n > FILE_CHUNK_SIZE then FILE_CHUNK_SIZE else n)"
    have c: "c \<le> n" by (simp add: c_def)
    obtain r buf s1 where rx: "run_state (recv_all fd c) s = ((r, buf), s1)" by (metis surj_pair)
    show ?thesis
    proof (cases "r = 0")
      case False
      from recv_all_took [OF rx] obtain k where "took fd k s s1" by blast
      then have f1: "fed fd ffd i R k [] s s1" using fed_took "1.prems"(2) by blast
      obtain y s1' where lg: "run_state (log_event (UploadInterrupted u f n)) s1 = (y, s1')" by (metis surj_pair)
      have "fed fd ffd i R k [] s s1'"
        using fed_silent [OF f1] lg silent_run [OF log_event_frame(1) [THEN silent_rules(2)]] by blast
      moreover have "s' = s1' \<and> \<not> got_all"
        using eq True False rx lg by (simp add: c_def [symmetric])
      ultimately show ?thesis by auto
    next
      case r0: True
      let ?wr = "if \<not> w then do { x \<leftarrow> write_all_file ffd buf;
            if x \<noteq> 0 then do { log_event_errno (UploadWriteFailed u f); ret True } else ret False } else ret True"
      obtain w1 s2 where wr: "run_state ?wr s1 = (w1, s2)" by fastforce
      have rec: "run_state (upload_loop fd u f ffd (n - c) w1) s2 = ((got_all, w'), s')"
        using eq True rx r0 wr by (simp add: c_def [symmetric] split: if_splits)
      from upload_chunk [OF rx [unfolded r0] "1.prems"(2) wr] obtain b where
        b: "fed fd ffd i R c b s s2" "c \<le> length (inbox (socks s fd))"
          "\<not> w1 \<Longrightarrow> \<not> w \<and> b = take c (inbox (socks s fd))" by metis
      from "1.IH" [OF True c_def _ rec fed_ready [OF b(1)]] r0 obtain k d where
        k: "fed fd ffd i R k d s2 s'" "got_all \<longrightarrow> k = n - c \<and> n - c \<le> length (inbox (socks s2 fd))"
          "got_all \<and> \<not> w' \<longrightarrow> \<not> w1 \<and> d = take (n - c) (inbox (socks s2 fd))" by auto
      have "take n xs = take c xs @ take (n - c) (drop c xs)" for xs :: "byte list"
        using c by (metis le_add_diff_inverse take_add)
      then have "got_all \<and> \<not> w' \<longrightarrow> \<not> w \<and> b @ d = take n (inbox (socks s fd))"
        using k(3) b(3) fed_inbox [OF b(1)] by auto
      moreover have "got_all \<longrightarrow> c + k = n \<and> n \<le> length (inbox (socks s fd))"
        using k(2) b(2) c fed_inbox [OF b(1)] by auto
      ultimately show ?thesis using fed_trans [OF b(1) k(1)] by blast
    qed
  qed
qed

end
