(* ===== verification/Lock_Spec.thy ===== *)
theory Lock_Spec
  imports Storage
begin

section \<open>What the file locks guarantee\<close>

text \<open>
  Acquiring a lock either fails and leaves descriptors and locks as they were, or yields one
  new descriptor that holds the lock; releasing it takes both away again. Only the lock
  directory and new inodes are touched.
\<close>

subsection \<open>Opening and closing\<close>

lemma fresh_fd_new: "fresh_fd F \<notin> fst ` set F"
  by (rule fresh_fd_props)

definition wf_locks :: "'z os_scheme \<Rightarrow> bool" where
  "wf_locks s \<longleftrightarrow> (\<forall>l \<in> set (ofd_locks s). fst l \<in> fst ` set (fds s))"

lemma closed_last:
  assumes "fds s = (x, obj) # F" and "x \<notin> fst ` set F" and "\<forall>l \<in> set (ofd_locks s). fst l \<noteq> x"
  shows "closed x s = s\<lparr>fds := F\<rparr>"
proof -
  have "filter (\<lambda>l. fst l \<noteq> x) (ofd_locks s) = ofd_locks s" using assms(3) by (simp add: filter_id_conv)
  moreover have "AList.delete x F = F" using assms(2) by (simp add: delete_id)
  ultimately show ?thesis using assms(1) by (simp add: closed_def)
qed

lemma closed_second:
  assumes "fds s = (y, o') # (x, obj) # F" and "x \<notin> fst ` set F" and "x \<noteq> y"
    and "\<forall>l \<in> set (ofd_locks s). fst l \<noteq> x"
  shows "closed x s = s\<lparr>fds := (y, o') # F\<rparr>"
proof -
  have "filter (\<lambda>l. fst l \<noteq> x) (ofd_locks s) = ofd_locks s" using assms(4) by (simp add: filter_id_conv)
  moreover have "AList.delete x F = F" using assms(2) by (simp add: delete_id)
  ultimately show ?thesis using assms(1,3) by (simp add: closed_def)
qed

lemma close_last:
  assumes "run_state (sys_close x) s = (r, s')" and "fds s = (x, obj) # F" and "x \<notin> fst ` set F"
    and "\<forall>l \<in> set (ofd_locks s). fst l \<noteq> x"
  shows "(r = 0 \<or> r = -1) \<and> blip (s\<lparr>fds := F\<rparr>) s'"
  using sys_close_spec [OF assms(1)] assms(2) closed_last [OF assms(2-4)] by (simp add: fd_obj_def)

subsection \<open>The loops\<close>

definition with_lock :: "int \<Rightarrow> nat \<Rightarrow> lock_type \<Rightarrow> 'z os_scheme \<Rightarrow> 'z os_scheme" where
  "with_lock l i t s = s\<lparr>ofd_locks := (l, i, t) #
     filter (\<lambda>(fd', i', t'). fd' \<noteq> l \<and> \<not> (i' = i \<and> lock_conflict t t')) (ofd_locks s)\<rparr>"

definition without_lock :: "int \<Rightarrow> 'z os_scheme \<Rightarrow> 'z os_scheme" where
  "without_lock l s = s\<lparr>ofd_locks := filter (\<lambda>k. fst k \<noteq> l) (ofd_locks s)\<rparr>"

lemma blip_with:
  assumes "blip s t"
  shows "blip (with_lock l i k s) (with_lock l i k t)" "blip (without_lock l s) (without_lock l t)"
    "blip (s\<lparr>fds := F\<rparr>) (t\<lparr>fds := F\<rparr>)" "blip (closed l s) (closed l t)"
proof -
  obtain e f where "t = s\<lparr>errno := e, fs_script := f\<rparr>" using assms unfolding blip_def by blast
  then show "blip (with_lock l i k s) (with_lock l i k t)" "blip (without_lock l s) (without_lock l t)"
    "blip (s\<lparr>fds := F\<rparr>) (t\<lparr>fds := F\<rparr>)" "blip (closed l s) (closed l t)"
    by (simp_all add: blip_def with_lock_def without_lock_def closed_def)
qed

lemma fd_obj_blip: "blip s t \<Longrightarrow> fd_obj t fd = fd_obj s fd"
  using blipD(1) [of s t] by (simp add: fd_obj_def)

lemma setlkw_loop_spec:
  assumes "setlkw_loop l t s = (b, s')" and "fd_obj s l = Some (FReg i off)"
  shows "\<not> b \<and> blip s s' \<or> b \<and> blip (with_lock l i t s) s'"
  using assms
proof (induction l t s rule: setlkw_loop.induct)
  case (1 l t s)
  obtain r u where run: "run_state (fcntl_setlkw l t) s = (r, u)" by fastforce
  note step = fcntl_setlkw_spec [OF run "1.prems"(2), folded with_lock_def]
  show ?case
  proof (cases "r \<noteq> 0 \<and> errno u = EINTR")
    case True
    with step have b: "blip s u" by auto
    have "setlkw_loop l t u = (b, s')" using "1.prems"(1) run True by (simp add: setlkw_loop.simps [of l t s])
    with "1.IH" [OF run [symmetric] _ _ this] True "1.prems"(2) show ?thesis
      using blip_trans [OF b] blip_trans [OF blip_with(1) [OF b]] by (auto simp: fd_obj_blip [OF b])
  next
    case False
    with "1.prems"(1) run step show ?thesis by (auto simp: setlkw_loop.simps [of l t s] split: if_splits)
  qed
qed

lemma unlock_loop_spec:
  assumes "unlock_loop l s = (r, s')" and "fd_obj s l \<noteq> None"
  shows "r = -1 \<and> blip s s' \<or> r = 0 \<and> blip (without_lock l s) s'"
  using assms
proof (induction l s rule: unlock_loop.induct)
  case (1 l s)
  obtain q u where run: "run_state (fcntl_unlock l) s = (q, u)" by fastforce
  note step = fcntl_unlock_spec [OF run "1.prems"(2), folded without_lock_def]
  show ?case
  proof (cases "q \<noteq> 0 \<and> errno u = EINTR")
    case True
    with step have b: "blip s u" by auto
    have "unlock_loop l u = (r, s')" using "1.prems"(1) run True by (simp add: unlock_loop.simps [of l s])
    with "1.IH" [OF run [symmetric] _ this] True "1.prems"(2) show ?thesis
      using blip_trans [OF b] blip_trans [OF blip_with(2) [OF b]] by (auto simp: fd_obj_blip [OF b])
  next
    case False
    with "1.prems"(1) run step show ?thesis by (auto simp: unlock_loop.simps [of l s] split: if_splits)
  qed
qed

subsection \<open>Acquire and release\<close>

lemma file_lock_release_spec:
  assumes "run_state (file_lock_release l) s = (r, s')" and "fds s = (l, obj) # F" and "l \<notin> fst ` set F"
    and "0 \<le> l"
  shows "(r = 0 \<or> r = -1) \<and> blip ((without_lock l s)\<lparr>fds := F\<rparr>) s'"
proof -
  obtain q s1 where a: "unlock_loop l s = (q, s1)" by fastforce
  obtain c s2 where b: "run_state (sys_close l) s1 = (c, s2)" by fastforce
  have open_l: "fd_obj s l \<noteq> None" using assms(2) by (simp add: fd_obj_def)
  note step = unlock_loop_spec [OF a open_l]
  have "fds (without_lock l s) = fds s" by (simp add: without_lock_def)
  then have "fds s1 = fds s" using step blipD(1) by metis
  then have "fd_obj s1 l \<noteq> None" using open_l by (simp add: fd_obj_def)
  note cl = sys_close_spec [OF b this]
  have "AList.delete l F = F" using assms(3) by (simp add: delete_id)
  then have eff: "closed l s = (without_lock l s)\<lparr>fds := F\<rparr>" "closed l (without_lock l s) = (without_lock l s)\<lparr>fds := F\<rparr>"
    using assms(2) by (simp_all add: closed_def without_lock_def)
  have two: "blip ((without_lock l s)\<lparr>fds := F\<rparr>) s2" "c = 0 \<or> c = -1" "q = 0 \<or> q = -1"
    using step cl eff blip_with(4) blip_trans by metis+
  have "blip s2 (s2\<lparr>errno := e\<rparr>)" for e by (simp add: blip_def)
  with two assms(1,4) a b show ?thesis
    by (auto simp: file_lock_release_def set_errno_def split: if_splits intro: blip_trans)
qed

lemma lock_descriptor_spec:
  assumes "run_state (lock_descriptor l mode) s = (r, s')" and "fds s = (l, FReg i 0) # F"
    and "l \<notin> fst ` set F" and "\<forall>k \<in> set (ofd_locks s). fst k \<noteq> l"
  shows "r = -1 \<and> blip (s\<lparr>fds := F\<rparr>) s' \<or> r = l \<and>
    blip (with_lock l i (if mode = FILE_LOCK_SHARED then F_RDLCK else F_WRLCK) s) s'"
proof -
  let ?t = "if mode = FILE_LOCK_SHARED then F_RDLCK else F_WRLCK"
  have close: "blip (s\<lparr>fds := F\<rparr>) (u\<lparr>errno := e\<rparr>)"
    if "blip s t" "run_state (sys_close l) t = (c, u)" for t u c e
  proof -
    have "blip (t\<lparr>fds := F\<rparr>) u"
      using close_last [OF that(2), of "FReg i 0" F] assms(2-4) blipD(1,5) [OF that(1)] by simp
    moreover have "blip u (u\<lparr>errno := e\<rparr>)" by (simp add: blip_def)
    ultimately show ?thesis using blip_with(3) [OF that(1)] by (meson blip_trans)
  qed
  obtain info s1 where a: "run_state (sys_fstat l) s = (info, s1)" by fastforce
  have b1: "blip s s1" by (rule state_io_relD [OF blip_queries(2) a])
  obtain c s2 where b: "run_state (sys_close l) s1 = (c, s2)" by fastforce
  obtain g s3 where lk: "setlkw_loop l ?t s1 = (g, s3)" by fastforce
  obtain c' s4 where d: "run_state (sys_close l) s3 = (c', s4)" by fastforce
  have "fd_obj s1 l = Some (FReg i 0)" using assms(2) fd_obj_blip [OF b1] by (simp add: fd_obj_def)
  note loop = setlkw_loop_spec [OF lk this]
  consider (bad) "case info of None \<Rightarrow> True | Some (kind, _) \<Rightarrow> kind \<noteq> IReg"
    | (fail) "\<not> (case info of None \<Rightarrow> True | Some (kind, _) \<Rightarrow> kind \<noteq> IReg)" "\<not> g"
    | (ok) "\<not> (case info of None \<Rightarrow> True | Some (kind, _) \<Rightarrow> kind \<noteq> IReg)" g by blast
  then show ?thesis
  proof cases
    case bad
    with assms(1) a b close [OF b1 b] show ?thesis by (auto simp: lock_descriptor_def set_errno_def)
  next
    case fail
    with loop have b3: "blip s s3" using blip_trans [OF b1] by simp
    from fail assms(1) a lk d close [OF b3 d] show ?thesis by (auto simp: lock_descriptor_def set_errno_def)
  next
    case ok
    with loop have "blip (with_lock l i ?t s) s3" using blip_trans [OF blip_with(1) [OF b1]] by simp
    with ok assms(1) a lk show ?thesis by (simp add: lock_descriptor_def)
  qed
qed

text \<open>\<open>side s s'\<close>: of the file system only the lock directory and new inodes have changed.\<close>

definition side :: "'z os_scheme \<Rightarrow> 'z os_scheme \<Rightarrow> bool" where
  "side s s' \<longleftrightarrow> (\<forall>p. p \<noteq> FILE_LOCK_DIRECTORY \<longrightarrow> dirs s' p = dirs s p) \<and>
     (\<forall>i < next_ino s. inodes s' i = inodes s i) \<and> next_ino s \<le> next_ino s' \<and> fs_rest s' = fs_rest s"

interpretation side: frame_rel side
  by unfold_locales (auto simp: side_def)

lemma side_blip: "blip s t \<Longrightarrow> side s t"
  using blipD [of s t] by (simp add: side_def fs_rest_def)

lemma side_fds: "side s (s\<lparr>fds := F\<rparr>)" "side s (s\<lparr>ofd_locks := L\<rparr>)" "side s (with_lock l i t s)"
  by (simp_all add: side_def fs_rest_def with_lock_def)

lemma side_create: "side s (create_inode FILE_LOCK_DIRECTORY name m s)"
  by (simp add: side_def fs_rest_def create_inode_def add_entry_def)

lemma entry_create: "entry s p name = None \<Longrightarrow> entry (create_inode p name m s) p name = Some (next_ino s)"
  by (simp add: entry_def create_inode_def add_entry_def map_add_def)

lemma entry_blip: "blip s t \<Longrightarrow> entry t p n = entry s p n"
  using blipD(2) [of s t] by (simp add: entry_def)

lemma ensure_lock_directory_spec:
  assumes "run_state ensure_lock_directory s = (r, s')"
  shows "(r = 0 \<or> r = -1) \<and> side s s' \<and> fds s' = fds s \<and> ofd_locks s' = ofd_locks s"
proof -
  obtain q s1 where a: "run_state (sys_mkdir FILE_LOCK_DIRECTORY) s = (q, s1)" by fastforce
  obtain st s2 where b: "run_state (sys_lstat FILE_LOCK_DIRECTORY) s1 = (st, s2)" by fastforce
  have b2: "blip s1 s2" by (rule state_io_relD [OF blip_queries(1) b])
  have side1: "side s s1 \<and> fds s1 = fds s \<and> ofd_locks s1 = ofd_locks s"
  proof -
    let ?d = "s\<lparr>dirs := (dirs s)(FILE_LOCK_DIRECTORY := \<lparr>dkind = DDir, ents = []\<rparr>)\<rparr>"
    have "side s ?d" by (simp add: side_def fs_rest_def)
    moreover have "blip s s1 \<or> blip ?d s1" using sys_mkdir_spec [OF a] by blast
    ultimately show ?thesis using side.trans [OF _ side_blip] side_blip blipD(1,5) by fastforce
  qed
  have side2: "side s s2 \<and> fds s2 = fds s \<and> ofd_locks s2 = ofd_locks s"
    using side1 side.trans [OF _ side_blip [OF b2]] blipD(1,5) [OF b2] by simp
  have "blip s2 (s2\<lparr>errno := e\<rparr>)" for e by (simp add: blip_def)
  then have "side s (s2\<lparr>errno := e\<rparr>)" for e using side2 side.trans side_blip by blast
  with side1 side2 assms a b show ?thesis
    by (auto simp: ensure_lock_directory_def set_errno_def split: if_splits option.splits prod.splits)
qed

lemma open_lock_file:
  assumes "run_state (sys_openat d name [O_RDWR, O_CREAT, O_CLOEXEC, O_NOFOLLOW] m) s = (l, s')"
    and "fds s = (d, FDir FILE_LOCK_DIRECTORY 0) # F"
  shows "l = -1 \<and> blip s s' \<or>
    0 \<le> l \<and> l \<noteq> d \<and> l \<notin> fst ` set F \<and> side s s' \<and> ofd_locks s' = ofd_locks s \<and>
      (\<exists>i. fds s' = (l, FReg i 0) # fds s \<and> entry s' FILE_LOCK_DIRECTORY name = Some i)"
proof -
  have dir: "dir_of s d = Some FILE_LOCK_DIRECTORY" using assms(2) by (simp add: dir_of_def fd_obj_def)
  have fresh: "0 \<le> fresh_fd (fds s)" "fresh_fd (fds s) \<notin> fst ` set (fds s)"
    by (rule fresh_fd_props)+
  then have l: "fresh_fd (fds s) \<noteq> d" "fresh_fd (fds s) \<notin> fst ` set F" using assms(2) by auto
  let ?l = "fresh_fd (fds s)"
  let ?n = "s\<lparr>fds := (?l, FReg (next_ino s) 0) # fds s\<rparr>"
  from sys_openat_spec [OF assms(1) dir] show ?thesis
  proof (elim disjE conjE exE)
    assume "l = -1" "blip s s'"
    then show ?thesis by simp
  next
    assume l': "l = ?l" and none: "entry s FILE_LOCK_DIRECTORY name = None"
      and b: "blip (create_inode FILE_LOCK_DIRECTORY name m (s\<lparr>fds := (l, FReg (next_ino s) 0) # fds s\<rparr>)) s'"
    have b': "blip (create_inode FILE_LOCK_DIRECTORY name m ?n) s'" using b l' by simp
    have "side s s'" using side.trans [OF side_fds(1) side.trans [OF side_create side_blip [OF b']]] .
    moreover have "entry ?n FILE_LOCK_DIRECTORY name = None" using none by (simp add: entry_def)
    then have "entry s' FILE_LOCK_DIRECTORY name = Some (next_ino s)"
      using entry_create [of ?n FILE_LOCK_DIRECTORY name m] by (simp add: entry_blip [OF b'])
    ultimately show ?thesis using l' fresh l blipD(1,5) [OF b']
      by (simp add: create_inode_def add_entry_def)
  next
    fix i
    assume l': "l = ?l" and "entry s FILE_LOCK_DIRECTORY name = Some i"
      and b: "blip (s\<lparr>fds := (l, FReg i 0) # fds s\<rparr>) s'"
    then show ?thesis
      using side.trans [OF side_fds(1) side_blip [OF b]] fresh l blipD(1,2,5) [OF b] by (simp add: entry_def)
  qed
qed

definition lock_name :: "string \<Rightarrow> string" where
  "lock_name f = f @ ''.lock''"

text \<open>The state in which a lock is held through \<open>l\<close>.\<close>

definition locked :: "int \<Rightarrow> string \<Rightarrow> lock_type \<Rightarrow> (int \<times> fdobj) list \<Rightarrow> (int \<times> nat \<times> lock_type) list \<Rightarrow>
    'z os_scheme \<Rightarrow> bool" where
  "locked l f t F L s \<longleftrightarrow> 0 \<le> l \<and> l \<notin> fst ` set F \<and>
     (\<exists>i. fds s = (l, FReg i 0) # F \<and> entry s FILE_LOCK_DIRECTORY (lock_name f) = Some i \<and>
          ofd_locks s = (l, i, t) # filter (\<lambda>(fd', i', t'). fd' \<noteq> l \<and> \<not> (i' = i \<and> lock_conflict t t')) L)"

definition lock_type_of :: "file_lock_mode_t \<Rightarrow> lock_type" where
  "lock_type_of mode = (if mode = FILE_LOCK_SHARED then F_RDLCK else F_WRLCK)"

lemma locked_blip: "blip s t \<Longrightarrow> locked l f k F L t = locked l f k F L s"
  using blipD(1,5) [of s t] entry_blip [of s t] by (simp add: locked_def)

lemma lock_descriptor_locked:
  assumes "run_state (lock_descriptor l mode) s = (z, s')" and "fds s = (l, FReg i 0) # F"
    and "entry s FILE_LOCK_DIRECTORY (lock_name f) = Some i" and "0 \<le> l" and "l \<notin> fst ` set F"
    and "\<forall>k \<in> set (ofd_locks s). fst k \<noteq> l"
  shows "side s s' \<and> (z = -1 \<and> fds s' = F \<and> ofd_locks s' = ofd_locks s \<or>
    z = l \<and> locked l f (lock_type_of mode) F (ofd_locks s) s')"
  using lock_descriptor_spec [OF assms(1,2,5,6)]
proof (elim disjE conjE)
  assume "z = -1" and b: "blip (s\<lparr>fds := F\<rparr>) s'"
  then show ?thesis using side.trans [OF side_fds(1) side_blip [OF b]] blipD(1,5) [OF b] by simp
next
  assume z: "z = l" and b: "blip (with_lock l i (if mode = FILE_LOCK_SHARED then F_RDLCK else F_WRLCK) s) s'"
  have "locked l f (lock_type_of mode) F (ofd_locks s) (with_lock l i (lock_type_of mode) s)"
    using assms by (simp add: locked_def with_lock_def) (simp add: entry_def)
  then have "locked l f (lock_type_of mode) F (ofd_locks s) s'"
    using locked_blip [OF b] by (simp add: lock_type_of_def)
  with z show ?thesis using side.trans [OF side_fds(3) side_blip [OF b]] by simp
qed

lemma file_lock_acquire_spec:
  assumes "run_state (file_lock_acquire f mode) s = (r, s')" and "wf_locks s"
  shows "side s s' \<and> (r = -1 \<and> fds s' = fds s \<and> ofd_locks s' = ofd_locks s \<or>
    is_valid_shared_filename f \<and> locked r f (lock_type_of mode) (fds s) (ofd_locks s) s')"
proof -
  let ?F = "fds s" and ?L = "ofd_locks s"
  let ?quit = "\<lambda>t. side s t \<and> fds t = ?F \<and> ofd_locks t = ?L"
  obtain q0 s0 where a: "run_state ensure_lock_directory s = (q0, s0)" by fastforce
  note e = ensure_lock_directory_spec [OF a]
  obtain d s1 where b: "run_state (open_dir FILE_LOCK_DIRECTORY) s0 = (d, s1)" by fastforce
  obtain l s2 where c: "run_state (sys_openat d (lock_name f) [O_RDWR, O_CREAT, O_CLOEXEC, O_NOFOLLOW] 384) s1
      = (l, s2)" by fastforce
  obtain x s3 where cl: "run_state (sys_close d) s2 = (x, s3)" by fastforce
  obtain y s4 where cl2: "run_state (sys_close l) s3 = (y, s4)" by fastforce
  obtain z s5 where ld: "run_state (lock_descriptor l mode) s3 = (z, s5)" by fastforce
  have errno: "?quit t \<Longrightarrow> ?quit (t\<lparr>errno := e\<rparr>)" for t e
    using side.trans [OF _ side_blip [of t "t\<lparr>errno := e\<rparr>"]] by (simp add: blip_def)
  have quit_blip: "?quit t \<Longrightarrow> blip t u \<Longrightarrow> ?quit u" for t u
    using side.trans [OF _ side_blip] blipD(1,5) by metis
  show ?thesis
  proof (cases "is_valid_shared_filename f \<and> (mode = FILE_LOCK_SHARED \<or> mode = FILE_LOCK_EXCLUSIVE) \<and>
      q0 = 0 \<and> 0 \<le> d")
    case False
    have neg: "d < 0 \<Longrightarrow> blip s0 s1" using open_dir_spec [OF b] fresh_fd_props(2) [of "fds s0"] by auto
    have "r = -1 \<and> (s' = s\<lparr>errno := EINVAL\<rparr> \<or> s' = s0 \<or> d < 0 \<and> s' = s1)"
      using False assms(1) a b e
      by (auto simp: file_lock_acquire_def open_lock_directory_def set_errno_def split: if_splits)
    moreover have "?quit s" by (simp add: side.refl)
    ultimately show ?thesis using errno e neg quit_blip by blast
  next
    case True
    then have ok: "is_valid_shared_filename f" "q0 = 0" "0 \<le> d" by auto
    have d: "d \<notin> fst ` set ?F" and b1: "blip (s0\<lparr>fds := (d, FDir FILE_LOCK_DIRECTORY 0) # ?F\<rparr>) s1"
      using open_dir_spec [OF b] ok(3) e fresh_fd_props(1) [of ?F] by auto
    have f1: "fds s1 = (d, FDir FILE_LOCK_DIRECTORY 0) # ?F" "ofd_locks s1 = ?L" "side s s1"
      using blipD(1,5) [OF b1] e side.trans [OF _ side.trans [OF side_fds(1) side_blip [OF b1]]] by auto
    have nolock: "\<forall>k \<in> set ?L. fst k \<noteq> d" using assms(2) d by (auto simp: wf_locks_def)
    have name: "snprintf (FILE_NAME_MAX_SIZE + 8) (lock_name f) = (int (length (lock_name f)), lock_name f)"
      "\<not> int (length (lock_name f)) \<ge> int (FILE_NAME_MAX_SIZE + 8)"
      using valid_filename_length [OF ok(1)] by (simp_all add: snprintf_def lock_name_def FILE_NAME_MAX_SIZE_def) linarith
    have run: "(r, s') = (if x \<noteq> 0 \<and> 0 \<le> l then (- 1, s4)
        else if l < 0 then (- 1, s3\<lparr>errno := errno s2\<rparr>) else (z, s5))"
      using assms(1) True a b c cl cl2 ld name
      by (simp add: file_lock_acquire_def open_lock_directory_def set_errno_def lock_name_def Let_def
          split: if_splits)
    from open_lock_file [OF c f1(1)] show ?thesis
    proof (elim disjE conjE exE)
      assume l: "l = -1" and bl: "blip s1 s2"
      have "blip (s2\<lparr>fds := ?F\<rparr>) s3"
        using close_last [OF cl _ d] blipD(1,5) [OF bl] f1 nolock by simp
      then have "?quit s3" using side.trans [OF f1(3) side.trans [OF side_blip [OF bl] side.trans [OF side_fds(1) side_blip]]]
          blipD(1,5) f1(2) blipD(5) [OF bl] by fastforce
      with run l errno show ?thesis by auto
    next
      fix i
      assume l: "0 \<le> l" "l \<noteq> d" "l \<notin> fst ` set ?F" and sd: "side s1 s2" and lk: "ofd_locks s2 = ofd_locks s1"
        and f2: "fds s2 = (l, FReg i 0) # fds s1" and en: "entry s2 FILE_LOCK_DIRECTORY (lock_name f) = Some i"
      have nolock': "\<forall>k \<in> set ?L. fst k \<noteq> l" using assms(2) l(3) by (auto simp: wf_locks_def)
      have "closed d s2 = s2\<lparr>fds := (l, FReg i 0) # ?F\<rparr>"
        using closed_second [of s2 l "FReg i 0" d] f2 f1 d l nolock lk by simp
      then have b3: "blip (s2\<lparr>fds := (l, FReg i 0) # ?F\<rparr>) s3"
        using sys_close_spec [OF cl] f2 f1(1) l(2) by (simp add: fd_obj_def)
      then have s3: "fds s3 = (l, FReg i 0) # ?F" "ofd_locks s3 = ?L" "side s s3"
          "entry s3 FILE_LOCK_DIRECTORY (lock_name f) = Some i"
        using blipD(1,2,5) [OF b3] lk f1 en
          side.trans [OF f1(3) side.trans [OF sd side.trans [OF side_fds(1) side_blip [OF b3]]]]
        by (auto simp: entry_def)
      have q4: "?quit s4"
        using close_last [OF cl2 s3(1) l(3)] nolock' s3 side.trans [OF s3(3) side.trans [OF side_fds(1) side_blip]]
          blipD(1,5) by fastforce
      have "z = -1 \<and> ?quit s5 \<or> z = l \<and> side s s5 \<and> locked l f (lock_type_of mode) ?F ?L s5"
        using lock_descriptor_locked [OF ld s3(1,4) l(1,3)] nolock' s3(2,3) by (auto intro: side.trans)
      with run q4 l(1) ok(1) show ?thesis by (auto split: if_splits)
    qed
  qed
qed

end
