(* ===== verification/Upload_Spec.thy ===== *)
theory Upload_Spec
  imports Lock_Spec
begin

section \<open>What an upload does to the shared storage\<close>

text \<open>
  For every sequence of interruptions, short transfers and failures: an upload either leaves
  every shared file as it was or adds exactly the one file it was asked for, complete; it
  leaves no descriptor and no lock behind; and when it reports success to its caller the
  client's stream is aligned on the next frame.
\<close>

subsection \<open>The abstract storage\<close>

definition stored :: "'z os_scheme \<Rightarrow> string \<rightharpoonup> inode" where
  "stored s n = map_option (inodes s) (entry s FILE_STORAGE_DIRECTORY n)"

definition wf_storage :: "'z os_scheme \<Rightarrow> bool" where
  "wf_storage s \<longleftrightarrow>
     (dkind (dirs s FILE_STORAGE_DIRECTORY) = DMissing \<longrightarrow> ents (dirs s FILE_STORAGE_DIRECTORY) = []) \<and>
     (\<forall>n i. entry s FILE_STORAGE_DIRECTORY n = Some i \<longrightarrow> i < next_ino s)"

lemma lock_dir_other: "FILE_STORAGE_DIRECTORY \<noteq> FILE_LOCK_DIRECTORY"
  by (simp add: FILE_LOCK_DIRECTORY_def)

text \<open>\<open>touched X\<close>: of the shared files only names in \<open>X\<close> may have changed.\<close>

definition touched :: "string set \<Rightarrow> 'z os_scheme \<Rightarrow> 'z os_scheme \<Rightarrow> bool" where
  "touched X s s' \<longleftrightarrow> next_ino s \<le> next_ino s' \<and>
     (wf_storage s \<longrightarrow> wf_storage s' \<and> (\<forall>n. n \<notin> X \<longrightarrow> stored s' n = stored s n))"

interpretation touched: frame_rel "touched X" for X
  by unfold_locales (auto simp: touched_def)

lemma touched_mono: "touched X s t \<Longrightarrow> X \<subseteq> Y \<Longrightarrow> touched Y s t"
  by (auto simp: touched_def)

lemma touched_same:
  assumes "dirs t = dirs s" and "inodes t = inodes s" and "next_ino t = next_ino s"
  shows "touched X s t"
  using assms by (simp add: touched_def wf_storage_def stored_def entry_def)

lemma touched_blip: "blip s t \<Longrightarrow> touched X s t"
  using blipD(2-4) [of s t] by (rule touched_same)

lemma touched_core: "core t = core s \<Longrightarrow> touched X s t"
  by (rule touched_same) (simp_all add: core_def)

lemma touched_fds: "touched X s (s\<lparr>fds := F\<rparr>)" "touched X s (s\<lparr>ofd_locks := L\<rparr>)"
  by (simp_all add: touched_same)

lemma touched_side: "side s t \<Longrightarrow> touched X s t"
proof -
  assume sd: "side s t"
  then have d: "dirs t FILE_STORAGE_DIRECTORY = dirs s FILE_STORAGE_DIRECTORY"
    using lock_dir_other by (auto simp: side_def)
  then have e: "entry t FILE_STORAGE_DIRECTORY n = entry s FILE_STORAGE_DIRECTORY n" for n
    by (simp add: entry_def)
  have "wf_storage t \<and> (\<forall>n. stored t n = stored s n)" if wf: "wf_storage s"
  proof -
    have lt: "entry s FILE_STORAGE_DIRECTORY n = Some i \<Longrightarrow> i < next_ino s" for n i
      using wf by (simp add: wf_storage_def)
    have "stored t n = stored s n" for n
      using lt [of n] sd by (cases "entry s FILE_STORAGE_DIRECTORY n") (auto simp: stored_def e side_def)
    moreover have "wf_storage t" using wf sd by (fastforce simp: wf_storage_def d e side_def)
    ultimately show ?thesis by blast
  qed
  then show ?thesis using sd by (simp add: touched_def side_def)
qed

lemma entry_del: "entry (del_entry p x s) p n = (if n = x then None else entry s p n)"
  by (simp add: entry_def del_entry_def delete_conv)

lemma touched_del: "touched {x} s (del_entry FILE_STORAGE_DIRECTORY x s)"
proof -
  have "AList.delete x [] = ([] :: (string \<times> nat) list)" by simp
  then show ?thesis
    unfolding touched_def wf_storage_def stored_def entry_del
    by (auto simp: del_entry_def split: if_splits)
qed

lemma entry_add:
  "entry s p x = None \<Longrightarrow> entry (add_entry p x i s) p n = (if n = x then Some i else entry s p n)"
  by (auto simp: entry_def add_entry_def map_add_def split: option.split)

lemma touched_add:
  assumes "entry s FILE_STORAGE_DIRECTORY x = None" and "i < next_ino s"
    and "dkind (dirs s FILE_STORAGE_DIRECTORY) \<noteq> DMissing"
  shows "touched {x} s (add_entry FILE_STORAGE_DIRECTORY x i s)"
  using assms(2,3) unfolding touched_def wf_storage_def stored_def entry_add [OF assms(1)]
  by (auto simp: add_entry_def split: if_splits)

text \<open>The temporary file: inode \<open>i\<close> belongs to the name \<open>x\<close> alone.\<close>

definition owns :: "string \<Rightarrow> nat \<Rightarrow> 'z os_scheme \<Rightarrow> bool" where
  "owns x i s \<longleftrightarrow> entry s FILE_STORAGE_DIRECTORY x = Some i \<and> i < next_ino s \<and>
     (\<forall>n. n \<noteq> x \<longrightarrow> entry s FILE_STORAGE_DIRECTORY n \<noteq> Some i) \<and>
     dkind (dirs s FILE_STORAGE_DIRECTORY) \<noteq> DMissing"

lemma create_inode_touched:
  assumes "entry s FILE_STORAGE_DIRECTORY x = None" and "wf_storage s"
    and "dkind (dirs s FILE_STORAGE_DIRECTORY) \<noteq> DMissing"
  shows "touched {x} s (create_inode FILE_STORAGE_DIRECTORY x m s)"
    and "owns x (next_ino s) (create_inode FILE_STORAGE_DIRECTORY x m s)"
proof -
  let ?t = "create_inode FILE_STORAGE_DIRECTORY x m s"
  have e: "entry ?t FILE_STORAGE_DIRECTORY n = (if n = x then Some (next_ino s) else entry s FILE_STORAGE_DIRECTORY n)" for n
    using assms(1) entry_add [of s FILE_STORAGE_DIRECTORY x "next_ino s" n]
    by (simp add: create_inode_def entry_def add_entry_def)
  have sel: "inodes ?t = (inodes s)(next_ino s := \<lparr>ikind = IReg, content = [], imode = m\<rparr>)"
    "next_ino ?t = Suc (next_ino s)" "dkind (dirs ?t FILE_STORAGE_DIRECTORY) = dkind (dirs s FILE_STORAGE_DIRECTORY)"
    by (simp_all add: create_inode_def add_entry_def)
  have lt: "entry s FILE_STORAGE_DIRECTORY n = Some i \<Longrightarrow> i < next_ino s" for n i
    using assms(2) by (simp add: wf_storage_def)
  have "stored ?t n = stored s n" if "n \<noteq> x" for n
    using that lt [of n] by (cases "entry s FILE_STORAGE_DIRECTORY n") (auto simp: stored_def e sel)
  moreover have "wf_storage ?t"
    using assms(3) lt by (auto simp: wf_storage_def e sel less_Suc_eq split: if_splits)
  ultimately show "touched {x} s ?t" by (simp add: touched_def sel)
  show "owns x (next_ino s) ?t" using lt assms(3) by (auto simp: owns_def e sel)
qed

lemma owned_inode:
  assumes "owns x i s" and "dirs t = dirs s" and "next_ino t = next_ino s"
    and "\<And>j. j \<noteq> i \<Longrightarrow> inodes t j = inodes s j"
  shows "touched {x} s t" and "owns x i t"
proof -
  have e: "entry t p n = entry s p n" for p n using assms(2) by (simp add: entry_def)
  have "stored t n = stored s n" if "n \<noteq> x" for n
    using that assms(1,4) by (auto simp: stored_def e owns_def option.map_sel intro!: map_option_cong)
  then show "touched {x} s t" using assms(2,3) by (simp add: touched_def wf_storage_def e)
  show "owns x i t" using assms by (simp add: owns_def e)
qed

subsection \<open>The stages\<close>

text \<open>What no stage changes, and the outcome of an upload relative to the state before it.\<close>

definition rest :: "server \<Rightarrow> _" where
  "rest s = (ofd_locks s, pid s, tid s, table s, next_client_id s, manager_initialized s,
     server_running s, server_socket s)"

definition UPLOAD_READY :: "byte list" where
  "UPLOAD_READY = frame MSG_RESPONSE ''UPLOAD_READY''"

definition UPLOAD_SUCCESS :: "string \<Rightarrow> nat \<Rightarrow> byte list" where
  "UPLOAD_SUCCESS f n = frame MSG_RESPONSE (''UPLOAD_SUCCESS '' @ f @ '' '' @ nat_str n)"

definition conversed :: "int \<Rightarrow> nat \<Rightarrow> byte list \<Rightarrow> server \<Rightarrow> server \<Rightarrow> bool" where
  "conversed fd k w s s' \<longleftrightarrow> socks s' = (socks s)(fd := (socks s fd)
     \<lparr>inbox := drop k (inbox (socks s fd)), outbox := outbox (socks s fd) @ w\<rparr>)"

definition published :: "int \<Rightarrow> string \<Rightarrow> nat \<Rightarrow> string \<Rightarrow> server \<Rightarrow> server \<Rightarrow> bool" where
  "published fd f n tmp s s' \<longleftrightarrow> touched {tmp, f} s s' \<and> stored s f = None \<and>
     n \<le> length (inbox (socks s fd)) \<and>
     stored s' f = Some \<lparr>ikind = IReg, content = take n (inbox (socks s fd)), imode = 420\<rparr>"

definition upload_outcome :: "int \<Rightarrow> string \<Rightarrow> nat \<Rightarrow> string \<Rightarrow> int \<Rightarrow> server \<Rightarrow> server \<Rightarrow> bool" where
  "upload_outcome fd f n tmp r s s' \<longleftrightarrow> (\<exists>k w. conversed fd k w s s' \<and>
     (r = 0 \<and> k = 0 \<and> (\<exists>e. w = frame MSG_ERROR e) \<and> touched {tmp} s s' \<or>
      r = 0 \<and> k = n \<and> n \<le> length (inbox (socks s fd)) \<and>
        (\<exists>e. w = UPLOAD_READY @ frame MSG_ERROR e) \<and> touched {tmp} s s' \<or>
      r = 0 \<and> k = n \<and> n \<le> length (inbox (socks s fd)) \<and>
        w = UPLOAD_READY @ UPLOAD_SUCCESS f n \<and> published fd f n tmp s s' \<or>
      r = - 1 \<and> (touched {tmp} s s' \<or> published fd f n tmp s s')))"

lemma rest_core: "core t = core s \<Longrightarrow> rest t = rest s"
  by (simp add: core_def rest_def)

lemma rest_blip: "blip s t \<Longrightarrow> rest t = rest s"
  using core_blip rest_core by blast

lemma saidD: "said fd w s t \<Longrightarrow> core t = core s \<and> conversed fd 0 w s t"
  by (simp add: said_def conversed_def)

lemma conversed_trans: "conversed fd k v s t \<Longrightarrow> conversed fd l w t u \<Longrightarrow> conversed fd (k + l) (v @ w) s u"
  by (simp add: conversed_def add.commute)

lemma conversed_socks: "socks t = socks s \<Longrightarrow> conversed fd 0 [] s t"
  by (simp add: conversed_def)

lemma outcome_then:
  assumes "upload_outcome fd f n tmp r s t" and "socks u = socks t" and "touched {tmp} t u"
    and "wf_storage s" and "f \<noteq> tmp"
  shows "upload_outcome fd f n tmp r s u"
proof -
  have "published fd f n tmp s u" if pub: "published fd f n tmp s t"
  proof -
    have "touched {tmp, f} s u"
      using pub touched.trans [OF _ touched_mono [OF assms(3)]] by (auto simp: published_def)
    moreover have "wf_storage t" using pub assms(4) by (simp add: published_def touched_def)
    ultimately show ?thesis using pub assms(3,5) by (simp add: published_def touched_def)
  qed
  moreover have "touched {tmp} s t \<Longrightarrow> touched {tmp} s u" using assms(3) by (rule touched.trans [rotated])
  ultimately show ?thesis using assms(1,2) unfolding upload_outcome_def conversed_def by metis
qed

lemma outcome_after:
  assumes "upload_outcome fd f n tmp r t u" and "socks t = socks s" and "touched {tmp} s t"
    and "wf_storage s" and "f \<noteq> tmp"
  shows "upload_outcome fd f n tmp r s u"
proof -
  have "published fd f n tmp s u" if pub: "published fd f n tmp t u"
  proof -
    have "touched {tmp, f} s u"
      using pub touched.trans [OF touched_mono [OF assms(3)]] by (auto simp: published_def)
    with pub assms(2-5) show ?thesis by (simp add: published_def touched_def)
  qed
  moreover have "touched {tmp} t u \<Longrightarrow> touched {tmp} s u" using assms(3) by (rule touched.trans)
  ultimately show ?thesis using assms(1,2) unfolding upload_outcome_def conversed_def by metis
qed

lemma outcome_error:
  assumes "said fd w s s'" and "r = 0 \<or> r = -1" and "r = 0 \<Longrightarrow> w = frame MSG_ERROR e"
  shows "upload_outcome fd f n tmp r s s'"
  using assms saidD [OF assms(1)] touched_core unfolding upload_outcome_def by blast

lemma upload_finish_spec:
  assumes "run_state (upload_finish_file ffd w) s = (w', s')" and "ready ffd i R s"
    and "ffd \<notin> fst ` set R" and "\<forall>k \<in> set (ofd_locks s). fst k \<noteq> ffd"
  shows "\<exists>t. blip (t\<lparr>fds := R\<rparr>) s' \<and>
    (t = s \<or> t = s\<lparr>inodes := (inodes s)(i := (inodes s i)\<lparr>imode := 420\<rparr>)\<rparr>) \<and>
    (\<not> w' \<longrightarrow> \<not> w \<and> t = s\<lparr>inodes := (inodes s)(i := (inodes s i)\<lparr>imode := 420\<rparr>)\<rparr>)"
proof -
  let ?off = "length (content (inodes s i))"
  let ?m = "s\<lparr>inodes := (inodes s)(i := (inodes s i)\<lparr>imode := 420\<rparr>)\<rparr>"
  have fd: "fds s = (ffd, FReg i ?off) # R" using assms(2) by (simp add: ready_def)
  have close: "(q = 0 \<or> q = -1) \<and> blip (t\<lparr>fds := R\<rparr>) v"
    if "run_state (sys_close ffd) u = (q, v)" "blip t u" "fds t = fds s" "ofd_locks t = ofd_locks s" for q v t u
    using close_last [OF that(1), of "FReg i ?off" R] blipD(1,5) [OF that(2)] that(3,4) fd assms(3,4)
      blip_trans [OF blip_with(3) [OF that(2)]] by simp
  obtain a s1 where fs: "run_state (sys_fsync ffd) s = (a, s1)" by fastforce
  have b1: "blip s s1" by (rule state_io_relD [OF blip_queries(4) fs])
  obtain b s2 where ch: "run_state (sys_fchmod ffd 420) s1 = (b, s2)" by fastforce
  have "fd_obj s1 ffd = Some (FReg i ?off)" using fd fd_obj_blip [OF b1] by (simp add: fd_obj_def)
  from sys_fchmod_spec [OF ch this] have b2: "b = -1 \<and> blip s s2 \<or> b = 0 \<and> blip ?m s2"
  proof (elim disjE conjE)
    assume "b = 0" and bl: "blip (s1\<lparr>inodes := (inodes s1)(i := inodes s1 i\<lparr>imode := 420\<rparr>)\<rparr>) s2"
    obtain e f where "s1 = s\<lparr>errno := e, fs_script := f\<rparr>" using b1 unfolding blip_def by blast
    then have "blip ?m (s1\<lparr>inodes := (inodes s1)(i := inodes s1 i\<lparr>imode := 420\<rparr>)\<rparr>)" by (simp add: blip_def)
    from blip_trans [OF this bl] \<open>b = 0\<close> show ?thesis by simp
  qed (use blip_trans [OF b1] in blast)
  obtain c0 t0 c1 t1 c2 t2 where cl: "run_state (sys_close ffd) s = (c0, t0)"
    "run_state (sys_close ffd) s1 = (c1, t1)" "run_state (sys_close ffd) s2 = (c2, t2)" by (metis surj_pair)
  consider w | "\<not> w" "a \<noteq> 0" | "\<not> w" "a = 0" "b \<noteq> 0" | "\<not> w" "a = 0" "b = 0" by blast
  then show ?thesis
  proof cases
    case 1
    with assms(1) cl(1) close [OF cl(1) blip_refl] show ?thesis
      by (intro exI [of _ s]) (auto simp: upload_finish_file_def)
  next
    case 2
    with assms(1) fs cl(2) close [OF cl(2) b1] show ?thesis
      by (intro exI [of _ s]) (auto simp: upload_finish_file_def)
  next
    case 3
    with assms(1) fs ch cl(3) b2 close [OF cl(3), of s] show ?thesis
      by (intro exI [of _ s]) (auto simp: upload_finish_file_def)
  next
    case 4
    with assms(1) fs ch cl(3) b2 close [OF cl(3), of ?m] show ?thesis
      by (intro exI [of _ ?m]) (auto simp: upload_finish_file_def)
  qed
qed

lemma success_fits:
  assumes "is_valid_shared_filename f" and "n \<le> FILE_MAX_SIZE"
  shows "snprintf (FILE_NAME_MAX_SIZE + 64) (''UPLOAD_SUCCESS '' @ f @ '' '' @ nat_str n) =
    (int (length (''UPLOAD_SUCCESS '' @ f @ '' '' @ nat_str n)), ''UPLOAD_SUCCESS '' @ f @ '' '' @ nat_str n)"
    and "length (''UPLOAD_SUCCESS '' @ f @ '' '' @ nat_str n) < FILE_NAME_MAX_SIZE + 64"
proof -
  have "n < 10 ^ 8" using assms(2) by (simp add: FILE_MAX_SIZE_def)
  then have "length (nat_str n) \<le> 8" by (rule length_nat_str) simp
  then show len: "length (''UPLOAD_SUCCESS '' @ f @ '' '' @ nat_str n) < FILE_NAME_MAX_SIZE + 64"
    using valid_filename_length [OF assms(1)] by (simp add: FILE_NAME_MAX_SIZE_def)
  then show "snprintf (FILE_NAME_MAX_SIZE + 64) (''UPLOAD_SUCCESS '' @ f @ '' '' @ nat_str n) =
    (int (length (''UPLOAD_SUCCESS '' @ f @ '' '' @ nat_str n)), ''UPLOAD_SUCCESS '' @ f @ '' '' @ nat_str n)"
    by (rule snprintf_fits)
qed

text \<open>After \<open>linkat\<close>: the reply, with the temporary name removed or not.\<close>

lemma unlinked_temp:
  assumes "run_state (sys_unlinkat sfd tmp) s = (q, s1)" and "dir_of s sfd = Some FILE_STORAGE_DIRECTORY"
  shows "touched {tmp} s s1" "fds s1 = fds s" "rest s1 = rest s" "socks s1 = socks s"
    "dkind (dirs s1 FILE_STORAGE_DIRECTORY) = dkind (dirs s FILE_STORAGE_DIRECTORY)"
proof -
  let ?d = "del_entry FILE_STORAGE_DIRECTORY tmp s"
  have eff: "fds ?d = fds s" "rest ?d = rest s" "socks ?d = socks s"
    "dkind (dirs ?d FILE_STORAGE_DIRECTORY) = dkind (dirs s FILE_STORAGE_DIRECTORY)"
    by (simp_all add: del_entry_def rest_def table_def)
  have "blip s s1 \<or> blip ?d s1" using sys_unlinkat_spec [OF assms] by blast
  then show "touched {tmp} s s1" "fds s1 = fds s" "rest s1 = rest s" "socks s1 = socks s"
    "dkind (dirs s1 FILE_STORAGE_DIRECTORY) = dkind (dirs s FILE_STORAGE_DIRECTORY)"
    using touched_blip touched.trans [OF touched_del touched_blip] blipD(1,2,6) rest_blip eff by metis+
qed

lemma upload_reply_spec:
  assumes "run_state (do {
       u \<leftarrow> sys_unlinkat sfd tmp;
       temp_created \<leftarrow> (if u = 0 then ret False
                       else do { log_event_errno (UploadTempLink f); ret True });
       (let (response_written, response) = snprintf (FILE_NAME_MAX_SIZE + 64)
              (''UPLOAD_SUCCESS '' @ f @ '' '' @ nat_str n)
        in if response_written < 0 \<or> response_written \<ge> int (FILE_NAME_MAX_SIZE + 64)
           then ret (- 1, temp_created)
           else do {
             r \<leftarrow> client_manager_send fd MSG_RESPONSE response;
             if r \<noteq> 0
             then do { log_event (UploadResponseFailed user f); ret (- 1, temp_created) }
             else do { log_event (UploadSuccess user f n); ret (0, temp_created) }
           }) }) s = ((res :: int, tc), s')"
    and "dir_of s sfd = Some FILE_STORAGE_DIRECTORY" and "is_valid_shared_filename f" and "n \<le> FILE_MAX_SIZE"
  obtains w where "conversed fd 0 w s s'" and "touched {tmp} s s'" and "fds s' = fds s" and "rest s' = rest s"
    and "res = 0 \<or> res = -1" and "res = 0 \<Longrightarrow> w = UPLOAD_SUCCESS f n"
proof -
  obtain q s1 where ul: "run_state (sys_unlinkat sfd tmp) s = (q, s1)" by fastforce
  note t1 = unlinked_temp [OF ul assms(2)]
  define s2 where "s2 = (if q = 0 then s1 else exec (log_event_errno (UploadTempLink f)) s1)"
  have sil2: "silent s1 s2"
    using io_rel_exec [OF log_event_frame(2) [THEN silent_rules(2)]] silent.refl by (simp add: s2_def)
  obtain r s3 where sd: "run_state (client_manager_send fd MSG_RESPONSE
      (''UPLOAD_SUCCESS '' @ f @ '' '' @ nat_str n)) s2 = (r, s3)" by fastforce
  from client_manager_send_said [OF sd] obtain w where w: "said fd w s2 s3"
    "r = 0 \<Longrightarrow> w = UPLOAD_SUCCESS f n" unfolding UPLOAD_SUCCESS_def by metis
  define s4 where "s4 = exec (log_event (if r \<noteq> 0 then UploadResponseFailed user f else UploadSuccess user f n)) s3"
  have sil4: "silent s3 s4"
    using io_rel_exec [OF log_event_frame(1) [THEN silent_rules(2)]] by (simp add: s4_def)
  have fin: "s' = s4 \<and> res = (if r \<noteq> 0 then -1 else 0)"
  proof -
    have fits: "\<not> (int (length (''UPLOAD_SUCCESS '' @ f @ '' '' @ nat_str n)) < 0)"
      "\<not> (int (length (''UPLOAD_SUCCESS '' @ f @ '' '' @ nat_str n)) \<ge> int (FILE_NAME_MAX_SIZE + 64))"
      using success_fits(2) [OF assms(3,4)] by linarith+
    show ?thesis
      using assms(1) ul sd success_fits(1) [OF assms(3,4)] fits
      by (simp add: s2_def s4_def Let_def split: if_splits prod.splits)
  qed
  have "said fd w s1 s4" using silent_said [OF sil2 said_then_silent [OF w(1) sil4]] .
  then have "core s4 = core s1" "conversed fd 0 w s1 s4" using saidD by blast+
  then have "touched {tmp} s s4" "rest s4 = rest s" "fds s4 = fds s" "conversed fd 0 w s s4"
    using t1 touched.trans [OF t1(1) touched_core] rest_core [of s4 s1]
      conversed_trans [OF conversed_socks [OF t1(4)]] by (simp_all add: core_def)
  with fin w(2) show thesis by (cases "r = 0") (auto intro!: that [of w])
qed

lemma upload_publish_spec:
  assumes "run_state (upload_publish fd user f n sfd tmp) s = ((res, tc), s')"
    and "dir_of s sfd = Some FILE_STORAGE_DIRECTORY" and "owns tmp i s" and "f \<noteq> tmp" and "wf_storage s"
    and "is_valid_shared_filename f" and "n \<le> FILE_MAX_SIZE"
  obtains w where "conversed fd 0 w s s'" and "fds s' = fds s" and "rest s' = rest s" and "res = 0 \<or> res = -1"
    and "touched {tmp} s s' \<and> (res = 0 \<longrightarrow> (\<exists>e. w = frame MSG_ERROR e)) \<or>
      touched {tmp, f} s s' \<and> stored s f = None \<and> stored s' f = Some (inodes s i) \<and>
        (res = 0 \<longrightarrow> w = UPLOAD_SUCCESS f n)"
proof -
  obtain l s1 where lk: "run_state (sys_linkat sfd tmp f) s = (l, s1)" by fastforce
  have i: "entry s FILE_STORAGE_DIRECTORY tmp = Some i" using assms(3) by (simp add: owns_def)
  from sys_linkat_spec [OF lk assms(2)] i consider (fail) "l = -1" "blip s s1"
    | (ok) "l = 0" "entry s FILE_STORAGE_DIRECTORY f = None" "blip (add_entry FILE_STORAGE_DIRECTORY f i s) s1"
    by auto
  then show thesis
  proof cases
    case fail
    define m where "m = (if errno s1 = EEXIST then ''FILE_ALREADY_EXISTS'' else ''UPLOAD_FINALIZE_FAILED'')"
    define s2 where "s2 = (if errno s1 = EEXIST then s1 else exec (log_event (UploadFinalizeFailed f (errno s1))) s1)"
    have sil: "silent s1 s2"
      using io_rel_exec [OF log_event_frame(1) [THEN silent_rules(2)]] silent.refl by (simp add: s2_def)
    obtain r s3 where er: "run_state (send_error fd m) s2 = (r, s3)" by fastforce
    from send_error_said [OF er] obtain w where w: "said fd w s2 s3" "r = 0 \<or> r = -1"
      "r = 0 \<Longrightarrow> w = frame MSG_ERROR m" by metis
    have "silent s s1" using core_blip [OF fail(2)] by (simp add: silent_def)
    then have sd: "said fd w s s3" using silent_said silent.trans [OF _ sil] w(1) by blast
    have "s' = s3 \<and> res = r"
      using assms(1) lk fail(1) er unfolding upload_publish_def
      by (simp add: m_def s2_def split: if_splits prod.splits)
    moreover have "core s3 = core s" "conversed fd 0 w s s3" using saidD [OF sd] by blast+
    ultimately show thesis using w(2,3) touched_core [of s3 s] rest_core [of s3 s]
      by (intro that [of w]) (auto simp: core_def)
  next
    case ok
    let ?a = "add_entry FILE_STORAGE_DIRECTORY f i s"
    have d1: "dir_of s1 sfd = Some FILE_STORAGE_DIRECTORY"
      using assms(2) blipD(1) [OF ok(3)] by (simp add: dir_of_def fd_obj_def add_entry_def)
    from upload_reply_spec [OF _ d1 assms(6,7), of tmp fd user res tc s'] assms(1) lk ok(1)
    obtain w where w: "conversed fd 0 w s1 s'" "touched {tmp} s1 s'" "fds s' = fds s1" "rest s' = rest s1"
      "res = 0 \<or> res = -1" "res = 0 \<Longrightarrow> w = UPLOAD_SUCCESS f n"
      unfolding upload_publish_def by auto
    have eff: "fds ?a = fds s" "rest ?a = rest s" "socks ?a = socks s" "inodes ?a = inodes s"
      by (simp_all add: add_entry_def rest_def table_def)
    have t1: "touched {f} s s1"
      using touched.trans [OF touched_add [OF ok(2)] touched_blip [OF ok(3)]] assms(3) by (simp add: owns_def)
    have "stored s1 f = Some (inodes s i)"
      using entry_add [OF ok(2), of i f] entry_blip [OF ok(3)] blipD(3) [OF ok(3)] eff(4) by (simp add: stored_def)
    moreover have "wf_storage s1" using t1 assms(5) by (simp add: touched_def)
    ultimately have pub: "stored s' f = Some (inodes s i)" using w(2) assms(4) by (simp add: touched_def)
    have "touched {tmp, f} s s'"
      by (rule touched.trans [OF touched_mono [OF t1] touched_mono [OF w(2)]]) auto
    moreover have "socks s1 = socks s" using blipD(6) [OF ok(3)] eff by simp
    then have "conversed fd 0 w s s'" using conversed_trans [OF conversed_socks w(1)] by simp
    moreover have "fds s' = fds s" "rest s' = rest s"
      using w(3,4) blipD(1) [OF ok(3)] rest_blip [OF ok(3)] eff by simp_all
    moreover have "stored s f = None" using ok(2) by (simp add: stored_def)
    ultimately show thesis using pub w(5,6) by (intro that [of w]) auto
  qed
qed

text \<open>The transfer, from \<open>UPLOAD_READY\<close> to the last reply.\<close>

lemma outcome_failed:
  assumes "conversed fd k w s s'" and "touched {tmp} s s'"
  shows "upload_outcome fd f n tmp (- 1) s s'"
  using assms unfolding upload_outcome_def by blast

lemma transfer_fed:
  assumes "fed fd ffd i R k b s t" and "owns tmp i s"
  shows "touched {tmp} s t" and "owns tmp i t" and "rest t = rest s" and "conversed fd k [] s t"
    and "inodes t i = (inodes s i)\<lparr>content := content (inodes s i) @ b\<rparr>"
proof -
  have c: "dirs t = dirs s" "next_ino t = next_ino s" "rest t = rest s"
    "inodes t = (inodes s)(i := (inodes s i)\<lparr>content := content (inodes s i) @ b\<rparr>)"
    using assms(1) by (simp_all add: fed_def core_def rest_def grow_def table_def)
  show "touched {tmp} s t" "owns tmp i t" using owned_inode [OF assms(2) c(1,2)] c(4) by auto
  show "rest t = rest s" "inodes t i = (inodes s i)\<lparr>content := content (inodes s i) @ b\<rparr>" using c by auto
  show "conversed fd k [] s t" using assms(1) by (simp add: fed_def conversed_def)
qed

lemma finish_fed:
  assumes "blip (t'\<lparr>fds := R\<rparr>) u" and "owns tmp i t"
    and "t' = t \<or> t' = t\<lparr>inodes := (inodes t)(i := (inodes t i)\<lparr>imode := 420\<rparr>)\<rparr>"
  shows "touched {tmp} t u" and "owns tmp i u" and "rest u = rest t" and "socks u = socks t" and "fds u = R"
    and "inodes u i = inodes t' i"
proof -
  have c: "dirs u = dirs t" "next_ino u = next_ino t" "socks u = socks t" "fds u = R" "inodes u = inodes t'"
    using blipD [OF assms(1)] assms(3) by auto
  have "rest u = rest (t'\<lparr>fds := R\<rparr>)" by (rule rest_blip [OF assms(1)])
  then show "rest u = rest t" using assms(3) by (auto simp: rest_def table_def)
  show "touched {tmp} t u" "owns tmp i u"
    using owned_inode [OF assms(2) c(1,2)] c(5) assms(3) by auto
  show "socks u = socks t" "fds u = R" "inodes u i = inodes t' i" using c by auto
qed

text \<open>\<open>underway\<close>: of the shared storage only the temporary file has changed, \<open>k\<close> bytes have been read
  from the client and \<open>w\<close> has been sent to it.\<close>

definition underway :: "int \<Rightarrow> string \<Rightarrow> nat \<Rightarrow> nat \<Rightarrow> byte list \<Rightarrow> server \<Rightarrow> server \<Rightarrow> bool" where
  "underway fd tmp i k w s t \<longleftrightarrow> touched {tmp} s t \<and> owns tmp i t \<and> rest t = rest s \<and> conversed fd k w s t"

lemma underway_core:
  assumes "underway fd tmp i k w s t" and "core u = core t" and "conversed fd l x t u"
  shows "underway fd tmp i (k + l) (w @ x) s u"
  using assms(1) touched.trans [OF _ touched_core [OF assms(2)]] rest_core [OF assms(2)] conversed_trans [OF _ assms(3)] assms(2)
  by (auto simp: underway_def core_def owns_def entry_def)

lemma underway_silent: "underway fd tmp i k w s t \<Longrightarrow> silent t u \<Longrightarrow> underway fd tmp i k w s u"
  using underway_core [of fd tmp i k w s t u 0 "[]"] conversed_socks [of u t fd] by (simp add: silent_def)

lemma underway_said: "underway fd tmp i k w s t \<Longrightarrow> said fd x t u \<Longrightarrow> underway fd tmp i k (w @ x) s u"
  using underway_core [of fd tmp i k w s t u 0 x] saidD [of fd x t u] by simp

lemma transfer_received:
  assumes "run_state (client_manager_send fd MSG_RESPONSE ''UPLOAD_READY'') s = (q, s1)"
    and "run_state (start_timer (UploadTimerStart user f)) s1 = (tm, s2)"
    and "run_state (upload_loop fd user f ffd n False) s2 = ((g, w1), s3)" and "ready ffd i R s" and "owns tmp i s"
  obtains k w where "underway fd tmp i 0 w s s1" and "fds s1 = fds s" and "underway fd tmp i k w s s3" and "ready ffd i R s3"
    and "q = 0 \<Longrightarrow> w = UPLOAD_READY" and "g \<Longrightarrow> k = n \<and> n \<le> length (inbox (socks s fd))"
    and "g \<Longrightarrow> \<not> w1 \<Longrightarrow>
      inodes s3 i = (inodes s i)\<lparr>content := content (inodes s i) @ take n (inbox (socks s fd))\<rparr>"
proof -
  from client_manager_send_said [OF assms(1)] obtain w where w: "said fd w s s1" "q = 0 \<Longrightarrow> w = UPLOAD_READY"
    unfolding UPLOAD_READY_def by metis
  have "underway fd tmp i 0 [] s s" using assms(5) touched.refl conversed_socks [of s s] by (simp add: underway_def)
  from underway_said [OF this w(1)] have u1: "underway fd tmp i 0 w s s1" by simp
  have sil2: "silent s1 s2" using assms(2) by (rule silent_run [OF silent_timers(1)])
  note u2 = underway_silent [OF u1 sil2]
  have c2: "core s2 = core s" "inbox (socks s2 fd) = inbox (socks s fd)"
    using sil2 saidD [OF w(1)] by (simp_all add: silent_def conversed_def)
  have "ready ffd i R s2" using c2(1) assms(4) by (simp add: core_def ready_def)
  from upload_loop_spec [OF assms(3) this] c2(2) obtain k b where fed: "fed fd ffd i R k b s2 s3"
    and all: "g \<Longrightarrow> k = n \<and> n \<le> length (inbox (socks s fd))"
    and ok: "g \<and> \<not> w1 \<Longrightarrow> b = take n (inbox (socks s fd))" by auto
  have "owns tmp i s2" using u2 by (simp add: underway_def)
  note f3 = transfer_fed [OF fed this]
  have u3: "underway fd tmp i k w s s3"
    using u2 f3(2,3) touched.trans [OF _ f3(1)] conversed_trans [OF _ f3(4), of 0 w s] by (simp add: underway_def)
  have "fds s1 = fds s" using saidD [OF w(1)] by (simp add: core_def)
  moreover have "inodes s2 = inodes s" using c2(1) by (simp add: core_def)
  ultimately show thesis using that [OF u1 _ u3 fed_ready [OF fed] w(2) all] f3(5) ok by simp
qed

lemma transfer_finished:
  assumes "run_state (upload_stop_timer user f n tm) s3 = (x, s4)" and "run_state (upload_finish_file ffd w1) s4 = (w2, s5)"
    and "underway fd tmp i k w s s3" and "ready ffd i R s3" and "ffd \<notin> fst ` set R" and "\<forall>k \<in> set (ofd_locks s). fst k \<noteq> ffd"
  shows "underway fd tmp i k w s s5" and "fds s5 = R" and "\<not> w2 \<Longrightarrow> \<not> w1 \<and> inodes s5 i = (inodes s3 i)\<lparr>imode := 420\<rparr>"
proof -
  have sil: "silent s3 s4" using assms(1) by (rule silent_run [OF silent_timers(2)])
  note u4 = underway_silent [OF assms(3) sil]
  have s4: "ready ffd i R s4" "inodes s4 = inodes s3" "owns tmp i s4" "ofd_locks s4 = ofd_locks s"
    using sil assms(4) u4 by (simp_all add: silent_def core_def ready_def underway_def rest_def)
  from upload_finish_spec [OF assms(2) s4(1) assms(5)] s4(4) assms(6) obtain t where
    t: "blip (t\<lparr>fds := R\<rparr>) s5" "t = s4 \<or> t = s4\<lparr>inodes := (inodes s4)(i := (inodes s4 i)\<lparr>imode := 420\<rparr>)\<rparr>"
      "\<not> w2 \<longrightarrow> \<not> w1 \<and> t = s4\<lparr>inodes := (inodes s4)(i := (inodes s4 i)\<lparr>imode := 420\<rparr>)\<rparr>" by auto
  note f5 = finish_fed [OF t(1) s4(3) t(2)]
  show "underway fd tmp i k w s s5"
    using u4 f5(2,3) touched.trans [OF _ f5(1)] conversed_trans [OF _ conversed_socks [OF f5(4)]] by (fastforce simp: underway_def)
  show "fds s5 = R" by (rule f5(5))
  show "\<not> w2 \<Longrightarrow> \<not> w1 \<and> inodes s5 i = (inodes s3 i)\<lparr>imode := 420\<rparr>" using f5(6) t(3) s4(2) by simp
qed

lemma transfer_refused:
  assumes "run_state (send_error fd m) s5 = (r, s6)" and "underway fd tmp i n UPLOAD_READY s s5"
    and "n \<le> length (inbox (socks s fd))"
  shows "upload_outcome fd f n tmp r s s6 \<and> rest s6 = rest s \<and> fds s6 = fds s5"
proof -
  from send_error_said [OF assms(1)] obtain x where x: "said fd x s5 s6" "r = 0 \<or> r = -1"
    "r = 0 \<Longrightarrow> x = frame MSG_ERROR m" by metis
  have "underway fd tmp i n (UPLOAD_READY @ x) s s6" by (rule underway_said [OF assms(2) x(1)])
  then have u: "touched {tmp} s s6" "rest s6 = rest s" "conversed fd n (UPLOAD_READY @ x) s s6" by (simp_all add: underway_def)
  have "fds s6 = fds s5" using saidD [OF x(1)] by (simp add: core_def)
  moreover have "upload_outcome fd f n tmp r s s6"
    unfolding upload_outcome_def using u(1,3) x(2,3) assms(3) by blast
  ultimately show ?thesis using u(2) by blast
qed

lemma transfer_published:
  assumes "run_state (upload_publish fd user f n sfd tmp) s5 = ((r, tc), s6)" and "underway fd tmp i n UPLOAD_READY s s5"
    and "fds s5 = (sfd, FDir FILE_STORAGE_DIRECTORY 0) # B" and "n \<le> length (inbox (socks s fd))"
    and "inodes s5 i = \<lparr>ikind = IReg, content = take n (inbox (socks s fd)), imode = 420\<rparr>"
    and "f \<noteq> tmp" and "wf_storage s" and "is_valid_shared_filename f" and "n \<le> FILE_MAX_SIZE"
  shows "upload_outcome fd f n tmp r s s6 \<and> rest s6 = rest s \<and> fds s6 = fds s5"
proof -
  have u: "touched {tmp} s s5" "owns tmp i s5" "rest s5 = rest s" "conversed fd n UPLOAD_READY s s5"
    using assms(2) by (simp_all add: underway_def)
  have d5: "dir_of s5 sfd = Some FILE_STORAGE_DIRECTORY" using assms(3) by (simp add: dir_of_def fd_obj_def)
  have wf5: "wf_storage s5" using u(1) assms(7) by (simp add: touched_def)
  from upload_publish_spec [OF assms(1) d5 u(2) assms(6) wf5 assms(8,9)] obtain x where
    x: "conversed fd 0 x s5 s6" "fds s6 = fds s5" "rest s6 = rest s5" "r = 0 \<or> r = -1"
      "touched {tmp} s5 s6 \<and> (r = 0 \<longrightarrow> (\<exists>e. x = frame MSG_ERROR e)) \<or>
       touched {tmp, f} s5 s6 \<and> stored s5 f = None \<and> stored s6 f = Some (inodes s5 i) \<and>
       (r = 0 \<longrightarrow> x = UPLOAD_SUCCESS f n)" by metis
  have conv6: "conversed fd n (UPLOAD_READY @ x) s s6" using conversed_trans [OF u(4) x(1)] by simp
  have "published fd f n tmp s s6" if "touched {tmp, f} s5 s6" "stored s5 f = None" "stored s6 f = Some (inodes s5 i)"
    using that assms(4-7) touched.trans [OF touched_mono [OF u(1)] that(1)] u(1)
    by (simp add: published_def touched_def)
  then have "touched {tmp} s s6 \<and> (r = 0 \<longrightarrow> (\<exists>e. x = frame MSG_ERROR e)) \<or>
      published fd f n tmp s s6 \<and> (r = 0 \<longrightarrow> x = UPLOAD_SUCCESS f n)"
    using x(5) touched.trans [OF u(1)] by (elim disjE conjE) simp_all
  then have "upload_outcome fd f n tmp r s s6"
    unfolding upload_outcome_def using conv6 x(4) assms(4)
    by (intro exI [of _ n] exI [of _ "UPLOAD_READY @ x"]) auto
  then show ?thesis using x(2,3) u(3) by simp
qed

lemma upload_transfer_spec:
  assumes "run_state (upload_transfer fd user f n sfd tmp ffd) s = (v, s')"
    and "fds s = (ffd, FReg i 0) # (sfd, FDir FILE_STORAGE_DIRECTORY 0) # B"
    and "ffd \<notin> fst ` set ((sfd, FDir FILE_STORAGE_DIRECTORY 0) # B)"
    and "\<forall>k \<in> set (ofd_locks s). fst k \<noteq> ffd" and "owns tmp i s"
    and "inodes s i = \<lparr>ikind = IReg, content = [], imode = m\<rparr>"
    and "f \<noteq> tmp" and "wf_storage s" and "is_valid_shared_filename f" and "n \<le> FILE_MAX_SIZE"
  shows "u_storage_fd v = sfd \<and> u_temporary_name v = tmp \<and> rest s' = rest s \<and>
    upload_outcome fd f n tmp (u_result v) s s' \<and>
    (u_file_fd v = -1 \<and> fds s' = tl (fds s) \<or>
     u_file_fd v = ffd \<and> (\<exists>off. fds s' = (ffd, FReg i off) # tl (fds s)))"
proof -
  let ?R = "(sfd, FDir FILE_STORAGE_DIRECTORY 0) # B"
  have rd: "ready ffd i ?R s" using assms(2,6) by (simp add: ready_def)
  obtain q s1 where hi: "run_state (client_manager_send fd MSG_RESPONSE ''UPLOAD_READY'') s = (q, s1)" by fastforce
  obtain tm s2 where st: "run_state (start_timer (UploadTimerStart user f)) s1 = (tm, s2)" by fastforce
  obtain g w1 s3 where lp: "run_state (upload_loop fd user f ffd n False) s2 = ((g, w1), s3)" by (metis surj_pair)
  obtain s4 where sp: "run_state (upload_stop_timer user f n tm) s3 = ((), s4)" by (metis (full_types) old.unit.exhaust surj_pair)
  obtain w2 s5 where ff: "run_state (upload_finish_file ffd w1) s4 = (w2, s5)" by fastforce
  obtain k w where u1: "underway fd tmp i 0 w s s1" "fds s1 = fds s" and u3: "underway fd tmp i k w s s3" "ready ffd i ?R s3"
    and w: "q = 0 \<Longrightarrow> w = UPLOAD_READY" and all: "g \<Longrightarrow> k = n \<and> n \<le> length (inbox (socks s fd))"
    and got: "g \<Longrightarrow> \<not> w1 \<Longrightarrow> inodes s3 i = (inodes s i)\<lparr>content := content (inodes s i) @ take n (inbox (socks s fd))\<rparr>"
    by (rule transfer_received [OF hi st lp rd assms(5)]) blast
  note fin = transfer_finished [OF sp ff u3 assms(3,4)]
  note unf = upload_transfer_def Let_def
  have tl: "tl (fds s) = ?R" using assms(2) by simp
  consider "q \<noteq> 0 \<or> \<not> g" | (failed) "q = 0" g w2 | (good) "q = 0" g "\<not> w2" by blast
  then show ?thesis
  proof cases
    case 1
    have "upload_outcome fd f n tmp (- 1) s s1 \<and> rest s1 = rest s" "upload_outcome fd f n tmp (- 1) s s3 \<and> rest s3 = rest s"
      using outcome_failed u1(1) u3(1) unfolding underway_def by blast+
    moreover have "u_result v = - 1 \<and> u_storage_fd v = sfd \<and> u_temporary_name v = tmp \<and> u_file_fd v = ffd" "s' = s1 \<or> s' = s3"
      using 1 assms(1) hi st lp by (auto simp: unf split: if_splits)
    ultimately show ?thesis using u1(2) u3(2) assms(2) by (auto simp: ready_def)
  next
    case failed
    obtain r s6 where er: "run_state (send_error fd ''UPLOAD_WRITE_FAILED'') s5 = (r, s6)" by fastforce
    have "underway fd tmp i n UPLOAD_READY s s5" using fin(1) all [OF failed(2)] w [OF failed(1)] by simp
    from transfer_refused [OF er this, of f] all [OF failed(2)] fin(2) tl show ?thesis
      using assms(1) hi st lp sp ff failed er by (auto simp: unf)
  next
    case good
    obtain r tc s6 where pb: "run_state (upload_publish fd user f n sfd tmp) s5 = ((r, tc), s6)" by (metis surj_pair)
    have "underway fd tmp i n UPLOAD_READY s s5" using fin(1) all [OF good(2)] w [OF good(1)] by simp
    from transfer_published [OF pb this fin(2) _ _ assms(7-10)] all [OF good(2)] got [OF good(2)] fin(3) [OF good(3)] assms(6)
    have "upload_outcome fd f n tmp r s s6 \<and> rest s6 = rest s \<and> fds s6 = fds s5" by simp
    then show ?thesis using assms(1) hi st lp sp ff good pb tl fin(2) by (auto simp: unf)
  qed
qed

text \<open>The descriptors a body may leave open, for the cleanup to close.\<close>

definition left_open :: "upload_locals \<Rightarrow> (int \<times> fdobj) list \<Rightarrow> server \<Rightarrow> bool" where
  "left_open v B s \<longleftrightarrow>
     (if u_storage_fd v < 0 then u_file_fd v < 0 \<and> \<not> u_temp_created v \<and> fds s = B
      else u_storage_fd v \<notin> fst ` set B \<and>
        (let C = (u_storage_fd v, FDir FILE_STORAGE_DIRECTORY 0) # B
         in if u_file_fd v < 0 then fds s = C
            else u_file_fd v \<notin> fst ` set C \<and> (\<exists>i off. fds s = (u_file_fd v, FReg i off) # C)))"

lemma error_stage:
  assumes "run_state (do { a; r \<leftarrow> send_error fd m; ret (g r) }) s = (v, s')" and "state_io_rel silent a"
  obtains w r where "said fd w s s'" and "r = 0 \<or> r = -1" and "r = 0 \<Longrightarrow> w = frame MSG_ERROR m" and "v = g r"
proof -
  obtain x s1 where a: "run_state a s = (x, s1)" by (metis surj_pair)
  obtain r s2 where er: "run_state (send_error fd m) s1 = (r, s2)" by fastforce
  from send_error_said [OF er] obtain w where "said fd w s1 s2" "r = 0 \<or> r = -1"
    "r = 0 \<Longrightarrow> w = frame MSG_ERROR m" by metis
  with assms(1) a er silent_said [OF silent_run [OF assms(2) a]] show thesis by (intro that [of w r]) auto
qed

lemma error_outcome:
  assumes "said fd w s s'" and "r = 0 \<or> r = -1" and "r = 0 \<Longrightarrow> w = frame MSG_ERROR m"
  shows "rest s' = rest s" and "fds s' = fds s" and "upload_outcome fd f n tmp r s s'"
proof -
  have c: "core s' = core s" using saidD [OF assms(1)] by blast
  show "rest s' = rest s" by (rule rest_core [OF c])
  show "fds s' = fds s" using c by (simp add: core_def)
  show "upload_outcome fd f n tmp r s s'" by (rule outcome_error [OF assms])
qed

text \<open>The temporary file, created anew.\<close>

lemma temp_created:
  assumes "run_state (sys_openat sfd tmp [O_WRONLY, O_CREAT, O_EXCL, O_CLOEXEC, O_NOFOLLOW] m) s = (ffd, s')" and "\<not> ffd < 0"
    and "dir_of s sfd = Some FILE_STORAGE_DIRECTORY" and "wf_storage s" and "dkind (dirs s FILE_STORAGE_DIRECTORY) \<noteq> DMissing"
  shows "ffd \<notin> fst ` set (fds s)" "fds s' = (ffd, FReg (next_ino s) 0) # fds s" "rest s' = rest s" "socks s' = socks s"
    "inodes s' (next_ino s) = \<lparr>ikind = IReg, content = [], imode = m\<rparr>" "owns tmp (next_ino s) s'" "touched {tmp} s s'"
proof -
  let ?n = "s\<lparr>fds := (ffd, FReg (next_ino s) 0) # fds s\<rparr>"
  let ?c = "create_inode FILE_STORAGE_DIRECTORY tmp m ?n"
  have ffd: "ffd = fresh_fd (fds s)" and none: "entry s FILE_STORAGE_DIRECTORY tmp = None" and b: "blip ?c s'"
    using sys_openat_spec [OF assms(1,3)] assms(2) by auto
  show "ffd \<notin> fst ` set (fds s)" using fresh_fd_props(1) [of "fds s"] ffd by simp
  have n: "entry ?n FILE_STORAGE_DIRECTORY tmp = None" "wf_storage ?n" "next_ino ?n = next_ino s"
    "dkind (dirs ?n FILE_STORAGE_DIRECTORY) \<noteq> DMissing"
    using none assms(4,5) by (simp_all add: entry_def wf_storage_def)
  note cr = create_inode_touched [OF n(1,2,4), of m]
  have eff: "fds ?c = (ffd, FReg (next_ino s) 0) # fds s" "rest ?c = rest s" "socks ?c = socks s"
    "inodes ?c (next_ino s) = \<lparr>ikind = IReg, content = [], imode = m\<rparr>"
    by (simp_all add: create_inode_def add_entry_def rest_def table_def)
  show "fds s' = (ffd, FReg (next_ino s) 0) # fds s" "rest s' = rest s" "socks s' = socks s"
    "inodes s' (next_ino s) = \<lparr>ikind = IReg, content = [], imode = m\<rparr>"
    using blipD(1,3,6) [OF b] rest_blip [OF b] eff by simp_all
  show "owns tmp (next_ino s) s'" using cr(2) n(3) entry_blip [OF b] blipD(2,4) [OF b] by (simp add: owns_def)
  show "touched {tmp} s s'" using touched.trans [OF touched_fds(1) touched.trans [OF cr(1) touched_blip [OF b]]] .
qed

lemma upload_create_spec:
  assumes "run_state (upload_create fd user f n sfd tmp) s = (v, s')"
    and "fds s = (sfd, FDir FILE_STORAGE_DIRECTORY 0) # B" and "0 \<le> sfd" and "sfd \<notin> fst ` set B"
    and "wf_locks s" and "dkind (dirs s FILE_STORAGE_DIRECTORY) \<noteq> DMissing"
    and "f \<noteq> tmp" and "wf_storage s" and "is_valid_shared_filename f" and "n \<le> FILE_MAX_SIZE"
  shows "left_open v B s' \<and> (u_temp_created v \<longrightarrow> u_temporary_name v = tmp) \<and> rest s' = rest s \<and>
    upload_outcome fd f n tmp (u_result v) s s'"
proof -
  have dir: "dir_of s sfd = Some FILE_STORAGE_DIRECTORY" using assms(2) by (simp add: dir_of_def fd_obj_def)
  obtain q s1 where ul: "run_state (sys_unlinkat sfd tmp) s = (q, s1)" by fastforce
  note s1 = unlinked_temp [OF ul dir]
  have wf1: "wf_storage s1" using s1(1) assms(8) by (simp add: touched_def)
  obtain ffd s2 where op: "run_state (sys_openat sfd tmp [O_WRONLY, O_CREAT, O_EXCL, O_CLOEXEC, O_NOFOLLOW] 384) s1
      = (ffd, s2)" by fastforce
  have dir1: "dir_of s1 sfd = Some FILE_STORAGE_DIRECTORY" using s1(2) dir by (simp add: dir_of_def fd_obj_def)
  let ?v = "\<lambda>(r :: int) (x :: int). \<lparr>u_result = r, u_storage_fd = sfd, u_file_fd = x, u_temp_created = False,
              u_temporary_name = tmp, u_timer = None\<rparr>"
  have err: ?thesis
    if "run_state (do { a; r \<leftarrow> send_error fd m; ret (?v r x) }) t = (v, s')" "state_io_rel silent a" "x < 0"
      and t: "fds t = fds s" "rest t = rest s" "socks t = socks s" "touched {tmp} s t"
    for t m and x :: int and a :: "unit srv"
  proof -
    from error_stage [OF that(1,2)] obtain w r where w: "said fd w t s'" "r = 0 \<or> r = -1" "r = 0 \<Longrightarrow> w = frame MSG_ERROR m"
      and v: "v = ?v r x" by metis
    from outcome_after [OF error_outcome(3) [OF w] t(3,4) assms(8,7)] v that(3) t(1,2) error_outcome(1,2) [OF w] assms(2-4)
    show ?thesis by (simp add: left_open_def)
  qed
  note unf = upload_create_def Let_def
  consider "q \<noteq> 0 \<and> errno s1 \<noteq> ENOENT" | (no) "\<not> (q \<noteq> 0 \<and> errno s1 \<noteq> ENOENT)" "ffd < 0"
    | (yes) "\<not> (q \<noteq> 0 \<and> errno s1 \<noteq> ENOENT)" "\<not> ffd < 0" by blast
  then show ?thesis
  proof cases
    case 1
    then have "run_state (do { log_event (UploadStaleTemp f (errno s1)); r \<leftarrow> send_error fd ''UPLOAD_TEMP_CLEANUP_FAILED'';
        ret (?v r (- 1)) }) s1 = (v, s')" using assms(1) ul by (simp add: unf)
    from err [OF this log_event_frame(1) [THEN silent_rules(2)] _ s1(2,3,4,1)] show ?thesis by simp
  next
    case no
    then have b: "blip s1 s2" using sys_openat_spec [OF op dir1] fresh_fd_props(2) [of "fds s1"] by auto
    have run: "run_state (do { log_event_errno (UploadCreateFailed f); r \<leftarrow> send_error fd ''UPLOAD_CREATE_FAILED'';
        ret (?v r ffd) }) s2 = (v, s')" using assms(1) ul op no by (auto simp: unf)
    have "fds s2 = fds s" "rest s2 = rest s" "socks s2 = socks s" "touched {tmp} s s2"
      using blipD(1,6) [OF b] rest_blip [OF b] s1 touched.trans [OF s1(1) touched_blip [OF b]] by simp_all
    from err [OF run log_event_frame(2) [THEN silent_rules(2)] no(2) this] show ?thesis .
  next
    case yes
    have "dkind (dirs s1 FILE_STORAGE_DIRECTORY) \<noteq> DMissing" using s1(5) assms(6) by simp
    note s2 = temp_created [OF op yes(2) dir1 wf1 this]
    have t2: "touched {tmp} s s2" by (rule touched.trans [OF s1(1) s2(7)])
    then have wf2: "wf_storage s2" using assms(8) by (simp add: touched_def)
    have "ofd_locks s2 = ofd_locks s" using s1(3) s2(3) by (simp add: rest_def)
    then have nolock: "\<forall>k \<in> set (ofd_locks s2). fst k \<noteq> ffd" using assms(5) s1(2) s2(1) by (auto simp: wf_locks_def)
    have tr: "run_state (upload_transfer fd user f n sfd tmp ffd) s2 = (v, s')"
      using assms(1) ul op yes by (simp add: unf split: if_splits)
    note T = upload_transfer_spec [OF tr s2(2) [unfolded s1(2) assms(2)] s2(1) [unfolded s1(2) assms(2)]
        nolock s2(6,5) assms(7) wf2 assms(9,10)]
    have "socks s2 = socks s" using s1(4) s2(4) by simp
    from outcome_after [OF _ this t2 assms(8,7)] T have "upload_outcome fd f n tmp (u_result v) s s'" by blast
    moreover have "left_open v B s'"
      using T s1(2) s2(1,2) assms(2-4) yes(2) by (auto simp: left_open_def Let_def)
    ultimately show ?thesis using T s1(3) s2(3) by simp
  qed
qed

end
