(* ===== verification/Upload_Correct.thy ===== *)
theory Upload_Correct
  imports Upload_Spec
begin

section \<open>The whole upload\<close>

text \<open>
  The stages of \<open>Upload_Spec\<close> put together: opening the storage directory, the cleanup that
  every path goes through, and \<open>file_manager_handle_upload\<close> itself.
\<close>

subsection \<open>The storage directory\<close>

definition others :: "server \<Rightarrow> _" where
  "others s = (pid s, tid s, table s, next_client_id s, manager_initialized s, server_running s, server_socket s)"

lemma rest_others: "rest t = rest s \<longleftrightarrow> ofd_locks t = ofd_locks s \<and> others t = others s"
  by (auto simp: rest_def others_def)

lemma silent_others: "silent s t \<Longrightarrow> others t = others s"
  by (auto simp: silent_def core_def others_def)

lemma silent_blip: "blip s t \<Longrightarrow> silent s t"
  using core_blip [of s t] by (simp add: silent_def)

lemma open_storage_spec:
  assumes "run_state open_storage_directory s = (r, s')" and "wf_locks s"
  shows "r = -1 \<and> blip s s' \<or>
    r = fresh_fd (fds s) \<and> dkind (dirs s FILE_STORAGE_DIRECTORY) = DDir \<and>
      blip (s\<lparr>fds := (r, FDir FILE_STORAGE_DIRECTORY 0) # fds s\<rparr>) s'"
proof -
  obtain d s1 where op: "run_state (open_dir FILE_STORAGE_DIRECTORY) s = (d, s1)" by fastforce
  obtain st s2 where ft: "run_state (sys_fstat d) s1 = (st, s2)" by fastforce
  obtain c s3 where cl: "run_state (sys_close d) s2 = (c, s3)" by fastforce
  have b2: "blip s1 s2" by (rule state_io_relD [OF blip_queries(2) ft])
  from open_dir_spec [OF op] show ?thesis
  proof (elim disjE conjE)
    assume "d = -1" "blip s s1"
    with assms(1) op show ?thesis by (simp add: open_storage_directory_def)
  next
    assume d: "d = fresh_fd (fds s)" "dkind (dirs s FILE_STORAGE_DIRECTORY) = DDir"
      and b1: "blip (s\<lparr>fds := (d, FDir FILE_STORAGE_DIRECTORY 0) # fds s\<rparr>) s1"
    note b12 = blip_trans [OF b1 b2]
    have pos: "\<not> d < 0" using fresh_fd_props(2) [of "fds s"] d(1) by simp
    have new: "d \<notin> fst ` set (fds s)" using fresh_fd_props(1) [of "fds s"] d(1) by simp
    have "\<forall>k \<in> set (ofd_locks s2). fst k \<noteq> d"
      using assms(2) new blipD(5) [OF b12] by (auto simp: wf_locks_def)
    from close_last [OF cl _ new this] blipD(1) [OF b12] have b3: "blip (s2\<lparr>fds := fds s\<rparr>) s3" by simp
    have "blip (s\<lparr>fds := fds s\<rparr>) (s2\<lparr>fds := fds s\<rparr>)" using blip_with(3) [OF b12, of "fds s"] by simp
    then have "blip s s3" using blip_trans [OF _ b3] by simp
    moreover have "blip s3 (s3\<lparr>errno := e\<rparr>)" for e by (simp add: blip_def)
    ultimately have "blip s (s3\<lparr>errno := e\<rparr>)" for e by (blast intro: blip_trans)
    with assms(1) op ft cl pos d b12 show ?thesis
      by (auto simp: open_storage_directory_def set_errno_def split: if_splits)
  qed
qed

lemma ensure_storage_spec:
  assumes "run_state ensure_storage_directory s = (r, s')"
  shows "touched X s s' \<and> fds s' = fds s \<and> ofd_locks s' = ofd_locks s \<and> fs_rest s' = fs_rest s"
proof -
  obtain st s1 where a: "run_state (sys_lstat FILE_STORAGE_DIRECTORY) s = (st, s1)" by fastforce
  obtain m s2 where b: "run_state (sys_mkdir FILE_STORAGE_DIRECTORY) s1 = (m, s2)" by fastforce
  obtain st' s3 where c: "run_state (sys_lstat FILE_STORAGE_DIRECTORY) s2 = (st', s3)" by fastforce
  have b1: "blip s s1" and b3: "blip s2 s3"
    by (rule state_io_relD [OF blip_queries(1) a], rule state_io_relD [OF blip_queries(1) c])
  let ?ok = "\<lambda>t. touched X s t \<and> fds t = fds s \<and> ofd_locks t = ofd_locks s \<and> fs_rest t = fs_rest s"
  have step: "?ok t \<Longrightarrow> blip t u \<Longrightarrow> ?ok u" for t u
    using touched.trans [OF _ touched_blip] blipD [of t u] by (auto simp: fs_rest_def)
  have ok1: "?ok s1" using step [OF _ b1] touched.refl by blast
  let ?d = "s1\<lparr>dirs := (dirs s1)(FILE_STORAGE_DIRECTORY := \<lparr>dkind = DDir, ents = []\<rparr>)\<rparr>"
  have "?ok ?d" if mk: "dkind (dirs s1 FILE_STORAGE_DIRECTORY) = DMissing"
  proof -
    have "wf_storage s1 \<Longrightarrow> ents (dirs s1 FILE_STORAGE_DIRECTORY) = []" using mk by (simp add: wf_storage_def)
    then have "touched X s1 ?d"
      by (auto simp: touched_def wf_storage_def stored_def entry_def)
    with ok1 show ?thesis using touched.trans by (auto simp: fs_rest_def)
  qed
  then have ok2: "?ok s2" using sys_mkdir_spec [OF b] step [OF ok1] step by blast
  have ok3: "?ok s3" by (rule step [OF ok2 b3])
  have "blip t (t\<lparr>errno := e\<rparr>)" for t :: "'a os_scheme" and e by (simp add: blip_def)
  then have fin: "?ok (s1\<lparr>errno := e\<rparr>)" "?ok (s3\<lparr>errno := e\<rparr>)" for e
    using step ok1 ok3 by blast+
  with ok1 ok2 ok3 assms a b c show ?thesis
    by (auto simp: ensure_storage_directory_def is_directory_def set_errno_def
        simp del: fun_upd_apply split: option.splits if_splits)
qed

subsection \<open>The temporary name\<close>

definition temp_name :: "int \<Rightarrow> 'z os_scheme \<Rightarrow> string" where
  "temp_name fd s = ''.upload-'' @ int_str (pid s) @ ''-'' @ int_str fd @ ''-'' @ nat_str (tid s) @ ''.tmp''"

lemma temp_name_hidden: "\<not> is_valid_shared_filename (temp_name fd s)"
proof -
  have "\<not> isalnum CHR ''.''" by code_simp
  then show ?thesis by (simp add: is_valid_shared_filename_def temp_name_def del: filename_chars_ok.simps)
qed

lemma build_temp_spec:
  assumes "run_state (build_upload_temp_name fd k) s = (t, s')"
  shows "blip s s' \<and> (t = None \<or> t = Some (temp_name fd s))"
  using assms snprintf_fits [of "temp_name fd s" k]
  by (auto simp: build_upload_temp_name_def temp_name_def snprintf_def set_errno_def blip_def
      split: if_splits)

subsection \<open>From the open directory to the last reply\<close>

lemma upload_body_spec:
  assumes "run_state (upload_body fd user f n) s = (v, s')" and "wf_locks s" and "wf_storage s"
    and "is_valid_shared_filename f" and "n \<le> FILE_MAX_SIZE"
  shows "left_open v (fds s) s' \<and> (u_temp_created v \<longrightarrow> u_temporary_name v = temp_name fd s) \<and>
    rest s' = rest s \<and> upload_outcome fd f n (temp_name fd s) (u_result v) s s'"
proof -
  let ?tmp = "temp_name fd s"
  have neq: "f \<noteq> ?tmp" using temp_name_hidden [of fd s] assms(4) by metis
  obtain d s1 where op: "run_state open_storage_directory s = (d, s1)" by fastforce
  let ?v = "\<lambda>r :: int. \<lparr>u_result = r, u_storage_fd = d, u_file_fd = - 1, u_temp_created = False,
              u_temporary_name = [], u_timer = None\<rparr>"
  have err: ?thesis if t: "fds t = F" "rest t = rest s" "socks t = socks s" "touched {?tmp} s t"
      and d: "d < 0 \<and> F = fds s \<or> 0 \<le> d \<and> d \<notin> fst ` set (fds s) \<and> F = (d, FDir FILE_STORAGE_DIRECTORY 0) # fds s"
      and run: "run_state (do { a; r \<leftarrow> send_error fd m; ret (?v r) }) t = (v, s')"
      and a: "state_io_rel silent a" for t F m and a :: "unit srv"
  proof -
    from error_stage [OF run a] obtain w r where w: "said fd w t s'" "r = 0 \<or> r = -1"
      "r = 0 \<Longrightarrow> w = frame MSG_ERROR m" "v = ?v r" by metis
    note e = error_outcome(1,2) [OF w(1-3)] error_outcome(3) [OF w(1-3), of f n ?tmp]
    have "upload_outcome fd f n ?tmp r s s'" using outcome_after [OF e(3) t(3,4) assms(3) neq] .
    with e(1,2) t(1,2) w(4) d show ?thesis by (auto simp: left_open_def)
  qed
  have noop: "state_io_rel silent (ret ())" by (intro silent_base)
  from open_storage_spec [OF op assms(2)] show ?thesis
  proof (elim disjE conjE)
    assume d: "d = -1" and b: "blip s s1"
    have t1: "fds s1 = fds s" "rest s1 = rest s" "socks s1 = socks s" "touched {?tmp} s s1"
      using blipD [OF b] rest_blip [OF b] touched_blip [OF b] by auto
    show ?thesis
      using err [OF t1 _ _ log_event_frame(2) [THEN silent_rules(2)]] assms(1) op d
      by (simp add: upload_body_def Let_def)
  next
    assume d: "d = fresh_fd (fds s)" and dk: "dkind (dirs s FILE_STORAGE_DIRECTORY) = DDir"
      and b: "blip (s\<lparr>fds := (d, FDir FILE_STORAGE_DIRECTORY 0) # fds s\<rparr>) s1"
    let ?C = "(d, FDir FILE_STORAGE_DIRECTORY 0) # fds s"
    have new: "d \<notin> fst ` set (fds s)" "0 \<le> d" using fresh_fd_props [of "fds s"] d by simp_all
    obtain st s2 where ft: "run_state (sys_fstatat d f) s1 = (st, s2)" by fastforce
    obtain tn s3 where tn: "run_state (build_upload_temp_name fd FILE_NAME_MAX_SIZE) s2 = (tn, s3)" by fastforce
    have b2: "blip (s\<lparr>fds := ?C\<rparr>) s2" using blip_trans [OF b state_io_relD [OF blip_queries(3) ft]] .
    have b3: "blip (s\<lparr>fds := ?C\<rparr>) s3" using blip_trans [OF b2] build_temp_spec [OF tn] by blast
    have eff: "fds t = ?C" "rest t = rest s" "socks t = socks s" "touched {?tmp} s t"
      if "blip (s\<lparr>fds := ?C\<rparr>) t" for t
      using blipD [OF that] rest_blip [OF that] touched.trans [OF touched_fds(1) touched_blip [OF that]]
      by (simp_all add: rest_def table_def)
    have opened: "d < 0 \<and> ?C = fds s \<or> 0 \<le> d \<and> d \<notin> fst ` set (fds s) \<and> ?C = ?C" using new by simp
    have tmp: "temp_name fd s2 = ?tmp" using blipD(7,8) [OF b2] by (simp add: temp_name_def)
    consider (exists) "st \<noteq> None" | (check) "st = None" "errno s2 \<noteq> ENOENT"
      | (name) "st = None" "errno s2 = ENOENT" "tn = None"
      | (go) "st = None" "errno s2 = ENOENT" "tn = Some ?tmp"
      using build_temp_spec [OF tn] tmp by metis
    then show ?thesis
    proof cases
      case exists
      then show ?thesis using err [OF eff [OF b2] opened _ noop] assms(1) op ft new
        by (simp add: upload_body_def Let_def)
    next
      case check
      then show ?thesis using err [OF eff [OF b2] opened _ log_event_frame(1) [THEN silent_rules(2)]] assms(1) op ft new
        by (simp add: upload_body_def Let_def)
    next
      case name
      then show ?thesis using err [OF eff [OF b3] opened _ noop] assms(1) op ft tn new
        by (simp add: upload_body_def Let_def)
    next
      case go
      note e = eff [OF b3]
      have run: "run_state (upload_create fd user f n d ?tmp) s3 = (v, s')"
        using go assms(1) op ft tn new by (simp add: upload_body_def Let_def)
      have "wf_locks s3" using assms(2) e(1,2) by (auto simp: wf_locks_def rest_others)
      moreover have "dkind (dirs s3 FILE_STORAGE_DIRECTORY) \<noteq> DMissing" using dk blipD(2) [OF b3] by simp
      moreover have "wf_storage s3" using e(4) assms(3) by (simp add: touched_def)
      ultimately have c: "left_open v (fds s) s'" "u_temp_created v \<longrightarrow> u_temporary_name v = ?tmp"
        "rest s' = rest s3" "upload_outcome fd f n ?tmp (u_result v) s3 s'"
        using upload_create_spec [OF run e(1) new(2,1) _ _ neq _ assms(4,5)] by auto
      with e(2) outcome_after [OF c(4) e(3,4) assms(3) neq] show ?thesis by simp
    qed
  qed
qed

subsection \<open>The cleanup\<close>

lemma silent_log_if: "state_io_rel silent (if b then log_event ev else ret ())"
  by (intro silent_base)

text \<open>A descriptor opened last and not locked is closed, whatever \<open>close\<close> reports.\<close>

lemma close_logged:
  assumes "run_state (if x \<ge> 0 then do { c \<leftarrow> sys_close x; if c \<noteq> 0 then log_event ev else ret () }
      else ret ()) s = (u, s')"
    and "x < 0 \<and> fds s = F \<or> 0 \<le> x \<and> (\<exists>obj. fds s = (x, obj) # F) \<and> x \<notin> fst ` set F \<and>
      (\<forall>k \<in> set (ofd_locks s). fst k \<noteq> x)"
  shows "silent (s\<lparr>fds := F\<rparr>) s'"
proof (cases "x < 0")
  case True
  have "fds s = F \<Longrightarrow> s\<lparr>fds := F\<rparr> = s" by simp
  then show ?thesis using True assms(1,2) silent.refl by auto
next
  case False
  with assms(2) obtain obj where last: "fds s = (x, obj) # F" "x \<notin> fst ` set F"
    "\<forall>k \<in> set (ofd_locks s). fst k \<noteq> x" by auto
  obtain c s1 where cl: "run_state (sys_close x) s = (c, s1)" by fastforce
  have "blip (s\<lparr>fds := F\<rparr>) s1"
    using close_last [OF cl last] by blast
  then have sil: "silent (s\<lparr>fds := F\<rparr>) s1" by (rule silent_blip)
  have "silent s1 s'"
    using False assms(1) cl silent.refl silent_run [OF log_event_frame(1) [THEN silent_rules(2)]]
    by (auto split: if_splits)
  with sil show ?thesis by (rule silent.trans)
qed

text \<open>\<open>along tmp\<close>: descriptors apart, only the temporary file may have changed.\<close>

definition along :: "string \<Rightarrow> server \<Rightarrow> server \<Rightarrow> bool" where
  "along tmp s t \<longleftrightarrow> rest t = rest s \<and> socks t = socks s \<and> touched {tmp} s t"

interpretation along: frame_rel "along tmp" for tmp
  by unfold_locales (auto simp: along_def intro: touched.refl touched.trans)

lemma along_silent: "silent (s\<lparr>fds := F\<rparr>) t \<Longrightarrow> along tmp s t \<and> fds t = F"
proof -
  assume sil: "silent (s\<lparr>fds := F\<rparr>) t"
  then have c: "core t = core (s\<lparr>fds := F\<rparr>)" "socks t = socks s" by (simp_all add: silent_def)
  have "touched {tmp} s t" by (rule touched_same) (use c(1) in \<open>simp_all add: core_def\<close>)
  moreover have "rest t = rest s" using rest_core [OF c(1)] by (simp add: rest_def table_def)
  ultimately show ?thesis using c by (simp add: along_def core_def)
qed

lemma along_quiet: "silent s t \<Longrightarrow> along tmp s t \<and> fds t = fds s"
  by (rule along_silent) simp

lemma along_unlink:
  assumes "run_state (if b \<and> d \<ge> 0
      then do { u \<leftarrow> sys_unlinkat d name; e \<leftarrow> gets errno;
                if u \<noteq> 0 \<and> e \<noteq> ENOENT then log_event (ev e) else ret () }
      else ret ()) s = (x, s')"
    and "b \<and> d \<ge> 0 \<Longrightarrow> name = tmp \<and> dir_of s d = Some FILE_STORAGE_DIRECTORY"
  shows "along tmp s s' \<and> fds s' = fds s"
proof (cases "b \<and> d \<ge> 0")
  case False
  with assms(1) show ?thesis using along.refl by auto
next
  case True
  obtain q s1 where ul: "run_state (sys_unlinkat d name) s = (q, s1)" by fastforce
  let ?d = "del_entry FILE_STORAGE_DIRECTORY tmp s"
  have eff: "fds ?d = fds s" "rest ?d = rest s" "socks ?d = socks s"
    by (simp_all add: del_entry_def rest_def table_def)
  have "blip s s1 \<or> blip ?d s1" using sys_unlinkat_spec [OF ul] assms(2) True by blast
  then have one: "along tmp s s1 \<and> fds s1 = fds s"
    using touched_blip touched.trans [OF touched_del touched_blip] blipD(1,6) rest_blip eff
    unfolding along_def by metis
  have "silent s1 s'"
    using True assms(1) ul silent.refl silent_run [OF log_event_frame(1) [THEN silent_rules(2)]]
    by (auto split: if_splits)
  with one show ?thesis using along_quiet along.trans by metis
qed

lemma upload_cleanup_spec:
  assumes "run_state (upload_cleanup user f n l v) s = (r, s')"
    and "left_open v ((l, obj) # F) s" and "u_temp_created v \<longrightarrow> u_temporary_name v = tmp"
    and "0 \<le> l" and "l \<notin> fst ` set F" and "\<forall>k \<in> set (ofd_locks s). fst k \<in> insert l (fst ` set F)"
  shows "r = u_result v \<and> fds s' = F \<and> ofd_locks s' = filter (\<lambda>k. fst k \<noteq> l) (ofd_locks s) \<and>
    others s' = others s \<and> socks s' = socks s \<and> touched {tmp} s s'"
proof -
  define B where "B = (l, obj) # F"
  define C where "C = (if u_storage_fd v < 0 then B else (u_storage_fd v, FDir FILE_STORAGE_DIRECTORY 0) # B)"
  have ffd: "u_file_fd v < 0 \<and> fds s = C \<or>
      0 \<le> u_file_fd v \<and> (\<exists>obj. fds s = (u_file_fd v, obj) # C) \<and> u_file_fd v \<notin> fst ` set C"
    and dir: "u_storage_fd v < 0 \<or> u_storage_fd v \<notin> fst ` set B"
    and tmp: "u_temp_created v \<Longrightarrow> u_temporary_name v = tmp"
    using assms(2,3) by (auto simp: left_open_def Let_def B_def C_def split: if_splits)
  have unlocked: "fst k \<noteq> x" if "k \<in> set (ofd_locks s)" "x \<notin> fst ` set B" for k x
    using assms(6) that by (auto simp: B_def)
  obtain x1 s1 where a: "run_state (upload_abort_timer user f n (u_timer v)) s = (x1, s1)" by (rule that [OF surjective_pairing])
  obtain x2 s2 where b: "run_state (if u_file_fd v \<ge> 0
      then do { c \<leftarrow> sys_close (u_file_fd v); if c \<noteq> 0 then log_event (UploadTempClose f) else ret () }
      else ret ()) s1 = (x2, s2)" by (rule that [OF surjective_pairing])
  obtain x3 s3 where c: "run_state (if u_temp_created v \<and> u_storage_fd v \<ge> 0
      then do { u \<leftarrow> sys_unlinkat (u_storage_fd v) (u_temporary_name v); e \<leftarrow> gets errno;
                if u \<noteq> 0 \<and> e \<noteq> ENOENT then log_event (UploadTempCleanup f e) else ret () }
      else ret ()) s2 = (x3, s3)" by (rule that [OF surjective_pairing])
  obtain x4 s4 where d: "run_state (if u_storage_fd v \<ge> 0
      then do { c \<leftarrow> sys_close (u_storage_fd v); if c \<noteq> 0 then log_event UploadStorageClose else ret () }
      else ret ()) s3 = (x4, s4)" by (rule that [OF surjective_pairing])
  obtain q s5 where e: "run_state (file_lock_release l) s4 = (q, s5)" by fastforce
  have s1: "along tmp s s1" "fds s1 = fds s" using along_quiet [OF silent_run [OF silent_timers(3) a]] by auto
  have nolock: "\<forall>k \<in> set (ofd_locks t). fst k \<noteq> x" if "along tmp s t" "x \<notin> fst ` set B" for t x
    using that unlocked by (auto simp: along_def rest_others)
  have CB: "u_file_fd v \<notin> fst ` set C \<Longrightarrow> u_file_fd v \<notin> fst ` set B" by (auto simp: C_def split: if_splits)
  have "u_file_fd v < 0 \<and> fds s1 = C \<or> 0 \<le> u_file_fd v \<and> (\<exists>obj. fds s1 = (u_file_fd v, obj) # C) \<and>
      u_file_fd v \<notin> fst ` set C \<and> (\<forall>k \<in> set (ofd_locks s1). fst k \<noteq> u_file_fd v)"
    using ffd s1(2) nolock [OF s1(1) CB] by auto
  from along_silent [OF close_logged [OF b this]] have s2: "along tmp s1 s2" "fds s2 = C" by auto
  have "dir_of s2 (u_storage_fd v) = Some FILE_STORAGE_DIRECTORY" if "u_storage_fd v \<ge> 0"
    using that s2(2) by (simp add: dir_of_def fd_obj_def C_def)
  from along_unlink [OF c, of tmp] this tmp have s3: "along tmp s2 s3" "fds s3 = C" using s2(2) by auto
  have al3: "along tmp s s3" using along.trans [OF along.trans [OF s1(1) s2(1)] s3(1)] .
  have "u_storage_fd v < 0 \<and> fds s3 = B \<or> 0 \<le> u_storage_fd v \<and> (\<exists>obj. fds s3 = (u_storage_fd v, obj) # B) \<and>
      u_storage_fd v \<notin> fst ` set B \<and> (\<forall>k \<in> set (ofd_locks s3). fst k \<noteq> u_storage_fd v)"
    using dir s3(2) nolock [OF al3, of "u_storage_fd v"] by (auto simp: C_def)
  from along_silent [OF close_logged [OF d this]] have s4: "along tmp s3 s4" "fds s4 = B" by auto
  have al4: "along tmp s s4" using along.trans [OF al3 s4(1)] .
  let ?e = "(without_lock l s4)\<lparr>fds := F\<rparr>"
  have b5: "blip ?e s5" using file_lock_release_spec [OF e s4(2) [unfolded B_def] assms(5,4)] by blast
  have "run_state (do { (if q \<noteq> 0 then log_event (UploadLockRelease user f) else ret ()); ret (u_result v) }) s5 = (r, s')"
    using assms(1) unfolding upload_cleanup_def
    by (simp only: run_bind [OF a] run_bind [OF b] run_bind [OF c] run_bind [OF d] run_bind [OF e])
  then have "silent s5 s' \<and> r = u_result v"
    by (elim run_bindE) (auto simp del: run_state_if dest: silent_run [OF silent_log_if])
  then have fin: "silent ?e s'" "r = u_result v" using silent.trans [OF silent_blip [OF b5]] by auto
  have "touched {tmp} s4 ?e" by (rule touched_same) (simp_all add: without_lock_def)
  moreover have "touched {tmp} ?e s'" using touched_core fin(1) by (simp add: silent_def)
  moreover have "touched {tmp} s s4" using al4 by (simp add: along_def)
  ultimately have "touched {tmp} s s'" by (blast intro: touched.trans)
  with fin al4 show ?thesis
    by (simp add: silent_def core_def along_def rest_others others_def without_lock_def table_def)
qed

subsection \<open>The handler\<close>

lemma outcome_result: "upload_outcome fd f n tmp r s s' \<Longrightarrow> r = 0 \<or> r = -1"
  by (auto simp: upload_outcome_def)

lemma reply_outcome:
  assumes "run_state (do { a; send_error fd m }) s = (r, s')" and "state_io_rel silent a"
  shows "fds s' = fds s" and "rest s' = rest s" and "upload_outcome fd f n tmp r s s'"
proof -
  have run: "run_state (do { a; r \<leftarrow> send_error fd m; ret r }) s = (r, s')"
    using assms(1) by (auto split: prod.splits)
  from error_stage [OF this assms(2)] obtain w where w: "said fd w s s'" "r = 0 \<or> r = -1"
    "r = 0 \<Longrightarrow> w = frame MSG_ERROR m" by metis
  show "fds s' = fds s" "rest s' = rest s" "upload_outcome fd f n tmp r s s'"
    using error_outcome [OF w] by auto
qed

lemma parse_metadata_sound:
  assumes "parse_upload_metadata metadata k = Some (f, n)"
  shows "is_valid_shared_filename f" and "n \<le> FILE_MAX_SIZE"
  using assms by (auto simp: parse_upload_metadata_def Let_def split: if_splits option.splits prod.splits)

lemma temp_name_fs: "fs_rest t = fs_rest s \<Longrightarrow> temp_name fd t = temp_name fd s"
  by (simp add: fs_rest_def temp_name_def)

text \<open>What runs while the lock \<open>l\<close> is held.\<close>

lemma upload_locked:
  assumes "run_state (upload_body fd user f n) s2 = (v, s3)" and "run_state (upload_cleanup user f n l v) s3 = (r, s')"
    and "\<not> l < 0" and "locked l f F_WRLCK (fds s) (ofd_locks s) s2" and "touched {temp_name fd s} s s2"
    and s2: "socks s2 = socks s \<and> others s2 = others s \<and> temp_name fd s2 = temp_name fd s"
    and "wf_locks s" and "wf_storage s" and f: "is_valid_shared_filename f" "n \<le> FILE_MAX_SIZE"
  shows "fds s' = fds s \<and> set (ofd_locks s') \<subseteq> set (ofd_locks s) \<and> others s' = others s \<and>
    upload_outcome fd f n (temp_name fd s) r s s'"
proof -
  let ?tmp = "temp_name fd s"
  have neq: "f \<noteq> ?tmp" using temp_name_hidden [of fd s] f by metis
  from assms(4) obtain i where l: "l \<notin> fst ` set (fds s)" "fds s2 = (l, FReg i 0) # fds s"
    and locks: "ofd_locks s2 = (l, i, F_WRLCK) #
      filter (\<lambda>(fd', i', t'). fd' \<noteq> l \<and> \<not> (i' = i \<and> lock_conflict F_WRLCK t')) (ofd_locks s)"
    by (auto simp: locked_def)
  have wl2: "wf_locks s2" using assms(7) by (auto simp: wf_locks_def l(2) locks)
  have wf2: "wf_storage s2" using assms(5,8) by (simp add: touched_def)
  have b: "left_open v (fds s2) s3" "u_temp_created v \<longrightarrow> u_temporary_name v = ?tmp"
    "rest s3 = rest s2" "upload_outcome fd f n ?tmp (u_result v) s2 s3"
    using upload_body_spec [OF assms(1) wl2 wf2 f] s2 by auto
  have "\<forall>k \<in> set (ofd_locks s3). fst k \<in> insert l (fst ` set (fds s))"
    using wl2 b(3) by (simp add: wf_locks_def l(2) rest_others)
  note c = upload_cleanup_spec [OF assms(2) b(1) [unfolded l(2)] b(2) _ l(1) this]
  have c: "r = u_result v" "fds s' = fds s" "ofd_locks s' = filter (\<lambda>k. fst k \<noteq> l) (ofd_locks s3)"
    "others s' = others s3" "socks s' = socks s3" "touched {?tmp} s3 s'"
    using c assms(3) by auto
  have "upload_outcome fd f n ?tmp r s s'"
    using outcome_after [OF outcome_then [OF b(4) c(5,6) wf2 neq] _ assms(5,8) neq] c(1) s2 by simp
  moreover have "set (ofd_locks s') \<subseteq> set (ofd_locks s)" using c(3) b(3) locks by (auto simp: rest_others)
  ultimately show ?thesis using c(2,4) b(3) s2 by (simp add: rest_others)
qed

lemma handle_upload_spec:
  assumes "run_state (file_manager_handle_upload fd user metadata) s = (r, s')"
    and "wf_locks s" and "wf_storage s"
    and "parse_upload_metadata metadata FILE_NAME_MAX_SIZE = Some (f, n)"
  shows "fds s' = fds s \<and> set (ofd_locks s') \<subseteq> set (ofd_locks s) \<and> others s' = others s \<and>
    upload_outcome fd f n (temp_name fd s) r s s'"
proof -
  let ?tmp = "temp_name fd s"
  have f: "is_valid_shared_filename f" "n \<le> FILE_MAX_SIZE" using parse_metadata_sound [OF assms(4)] by auto
  have neq: "f \<noteq> ?tmp" using temp_name_hidden [of fd s] f by metis
  define s0 where "s0 = s\<lparr>errno := E0\<rparr>"
  have b0: "blip s s0" by (simp add: s0_def blip_def)
  obtain q s1 where en: "run_state ensure_storage_directory s0 = (q, s1)" by fastforce
  note e = ensure_storage_spec [OF en, of "{?tmp}"]
  have s1: "fds s1 = fds s" "ofd_locks s1 = ofd_locks s" "fs_rest s1 = fs_rest s" "touched {?tmp} s s1"
    using e blipD [OF b0] touched.trans [OF touched_blip [OF b0]] by (auto simp: fs_rest_def)
  have fs: "socks t = socks s \<and> others t = others s \<and> temp_name fd t = ?tmp" if "fs_rest t = fs_rest s" for t
    using that more_server [of t s] temp_name_fs [OF that] by (simp add: fs_rest_def others_def)
  have err: ?thesis if t: "fds t = fds s" "ofd_locks t = ofd_locks s" "fs_rest t = fs_rest s" "touched {?tmp} s t"
      and run: "run_state (do { a; send_error fd m }) t = (r, s')" and a: "state_io_rel silent a"
    for t m and a :: "unit srv"
    using reply_outcome(1,2) [OF run a] reply_outcome(3) [OF run a, of f n ?tmp] t fs [OF t(3)] outcome_after [OF _ _ t(4) assms(3) neq]
    by (simp add: rest_others)
  show ?thesis
  proof (cases "q = 0")
    case False
    then have "run_state (do { log_event_errno UploadStorageUnavailable; send_error fd ''STORAGE_UNAVAILABLE'' }) s1
        = (r, s')"
      using assms(1,4) en by (simp add: file_manager_handle_upload_def set_errno_def s0_def)
    from err [OF s1 this log_event_frame(2) [THEN silent_rules(2)]] show ?thesis .
  next
    case q: True
    obtain l s2 where lk: "run_state (file_lock_acquire f FILE_LOCK_EXCLUSIVE) s1 = (l, s2)" by fastforce
    have wl1: "wf_locks s1" using assms(2) s1 by (simp add: wf_locks_def)
    note L = file_lock_acquire_spec [OF lk wl1]
    have sd: "side s1 s2" using L by blast
    have s2: "fs_rest s2 = fs_rest s" "touched {?tmp} s s2"
      using sd s1(3) touched.trans [OF s1(4) touched_side [OF sd]] by (auto simp: side_def)
    show ?thesis
    proof (cases "l < 0")
      case True
      then have "fds s2 = fds s" "ofd_locks s2 = ofd_locks s" using L s1 by (auto simp: locked_def)
      moreover have "run_state (do { log_event_errno (UploadLockFailed user f); send_error fd ''FILE_LOCK_FAILED'' }) s2
        = (r, s')"
        using assms(1,4) en q lk True by (simp add: file_manager_handle_upload_def set_errno_def s0_def)
      ultimately show ?thesis using err s2 log_event_frame(2) [THEN silent_rules(2)] by blast
    next
      case False
      obtain v s3 where bd: "run_state (upload_body fd user f n) s2 = (v, s3)" by fastforce
      have run: "run_state (upload_cleanup user f n l v) s3 = (r, s')"
        using assms(1,4) en q lk False bd by (simp add: file_manager_handle_upload_def set_errno_def s0_def)
      have "locked l f F_WRLCK (fds s) (ofd_locks s) s2"
        using L False s1(1,2) by (auto simp: lock_type_of_def FILE_LOCK_EXCLUSIVE_def FILE_LOCK_SHARED_def)
      from upload_locked [OF bd run False this s2(2) fs [OF s2(1)] assms(2,3) f] show ?thesis .
    qed
  qed
qed

end
