(* ===== verification/Download_Spec.thy ===== *)
theory Download_Spec
  imports Upload_Correct
begin

section \<open>Downloads\<close>

text \<open>
  A download never changes a shared file; what it puts on the wire is either one error frame
  or the announcement of the file followed by its bytes, and the caller keeps the connection
  only when all of them went out. Descriptors and locks are as before.
\<close>

subsection \<open>The stream\<close>

lemma said_fds:
  assumes "said fd v (s\<lparr>fds := F\<rparr>) t" and "said fd w (t\<lparr>fds := G\<rparr>) u"
  shows "said fd (v @ w) (s\<lparr>fds := G\<rparr>) u"
  using assms by (auto simp: said_def core_def table_def)

lemma said_blip: "blip s t \<Longrightarrow> said fd [] s t"
  using core_blip [of s t] by (simp add: said_def)

text \<open>\<open>streamed\<close>: a prefix of the \<open>n\<close> bytes of the file from \<open>off\<close> on has been sent, all of them when the
  result is 0.\<close>

definition streamed :: "int \<Rightarrow> int \<Rightarrow> nat \<Rightarrow> (int \<times> fdobj) list \<Rightarrow> nat \<Rightarrow> nat \<Rightarrow> int \<Rightarrow> server \<Rightarrow> server \<Rightarrow> bool" where
  "streamed fd ffd i R off n r s s' \<longleftrightarrow> (\<exists>p w. said fd w (s\<lparr>fds := (ffd, FReg i p) # R\<rparr>) s' \<and> (r = 0 \<or> r = -1) \<and>
    prefix w (take n (drop off (content (inodes s i)))) \<and>
    (r = 0 \<longrightarrow> w = take n (drop off (content (inodes s i))) \<and> n \<le> length (content (inodes s i)) - off))"

lemma streamed_stop:
  assumes "said fd v (s\<lparr>fds := (ffd, FReg i p) # R\<rparr>) s'" and "prefix v (take n (drop off (content (inodes s i))))"
  shows "streamed fd ffd i R off n (- 1) s s'"
  using assms unfolding streamed_def by auto

lemma streamed_after:
  assumes "streamed fd ffd i R (off + k) (n - k) r u s'" and "said fd b (s\<lparr>fds := F\<rparr>) u"
    and "b = take k (drop off (content (inodes s i)))" and "k \<le> n" and "k \<le> length (content (inodes s i)) - off"
  shows "streamed fd ffd i R off n r s s'"
proof -
  let ?c = "content (inodes s i)"
  have "inodes u = inodes s" using assms(2) by (simp add: said_def core_def)
  with assms(1) obtain p w where pw: "said fd w (u\<lparr>fds := (ffd, FReg i p) # R\<rparr>) s'" "r = 0 \<or> r = -1"
    "prefix w (take (n - k) (drop (off + k) ?c))"
    "r = 0 \<longrightarrow> w = take (n - k) (drop (off + k) ?c) \<and> n - k \<le> length ?c - (off + k)" by (auto simp: streamed_def)
  have split: "take n (drop off ?c) = b @ take (n - k) (drop (off + k) ?c)"
    using assms(3,4) by (metis drop_drop add.commute le_add_diff_inverse take_add)
  have "prefix (b @ w) (take n (drop off ?c))" using pw(3) unfolding split by simp
  moreover have "r = 0 \<longrightarrow> b @ w = take n (drop off ?c) \<and> n \<le> length ?c - off" using pw(4) assms(5) unfolding split by auto
  ultimately show ?thesis using said_fds [OF assms(2) pw(1)] pw(2) unfolding streamed_def by blast
qed

lemma stream_read:
  fixes s :: server
  assumes "run_state (sys_read ffd q) s = ((k, b), t)" and "fds s = (ffd, FReg i off) # R"
  shows "k = -1 \<and> said fd [] (s\<lparr>fds := (ffd, FReg i off) # R\<rparr>) t \<or>
    0 \<le> k \<and> nat k \<le> q \<and> b = take (nat k) (drop off (content (inodes s i))) \<and> nat k \<le> length (content (inodes s i)) - off \<and>
      said fd [] (s\<lparr>fds := (ffd, FReg i (off + nat k)) # R\<rparr>) t"
proof -
  have same: "s\<lparr>fds := (ffd, FReg i off) # R\<rparr> = s" and "fd_obj s ffd = Some (FReg i off)" using assms(2) by (simp_all add: fd_obj_def)
  from sys_read_spec [OF assms(1) this(2)] assms(2) said_blip show ?thesis unfolding same by auto
qed

lemma stream_loop_spec:
  fixes s :: server
  assumes "stream_loop fd ffd n s = (r, s')" and "fds s = (ffd, FReg i off) # R"
  shows "streamed fd ffd i R off n r s s'"
  using assms
proof (induction fd ffd n s arbitrary: off rule: stream_loop.induct)
  case (1 fd ffd n s)
  let ?c = "content (inodes s i)"
  have same: "s\<lparr>fds := (ffd, FReg i off) # R\<rparr> = s" using "1.prems"(2) by simp
  define q where "q = (if n > FILE_CHUNK_SIZE then FILE_CHUNK_SIZE else n)"
  obtain k b t where rd: "run_state (sys_read ffd q) s = ((k, b), t)" by (metis surj_pair)
  obtain x u where sn: "run_state (send_all fd b) t = (x, u)" by fastforce
  note eq = "1.prems"(1) [unfolded stream_loop.simps [of fd ffd n s]]
  note step = stream_read [OF rd "1.prems"(2), of fd]
  consider (none) "n = 0" | (intr) "0 < n" "k < 0" "errno t = EINTR" | (bad) "0 < n" "k < 0" "errno t \<noteq> EINTR"
    | (short) "0 < n" "k = 0" | (send) "0 < n" "0 < k" by linarith
  then show ?case
  proof cases
    case none
    have "said fd [] (s\<lparr>fds := (ffd, FReg i off) # R\<rparr>) s" by (simp add: same said_silent silent.refl)
    with eq none show ?thesis unfolding streamed_def by auto
  next
    case intr
    then have sd: "said fd [] (s\<lparr>fds := (ffd, FReg i off) # R\<rparr>) t" using step by auto
    then have "fds t = (ffd, FReg i off) # R" by (simp add: said_def core_def)
    moreover have "stream_loop fd ffd n t = (r, s')" using eq rd intr by (simp add: q_def [symmetric])
    ultimately have "streamed fd ffd i R off n r t s'" using "1.IH"(1) [OF intr(1) q_def rd [symmetric] refl intr(2,3)] by blast
    then show ?thesis using streamed_after [where k = 0, OF _ sd, of ffd i R off n r s'] by simp
  next
    case bad
    then have "r = -1 \<and> s' = t" using eq rd by (simp add: q_def [symmetric])
    then show ?thesis using streamed_stop [where v = "[]"] step bad by auto
  next
    case short
    then have "r = -1 \<and> s' = t" using eq rd by (simp add: q_def [symmetric])
    then show ?thesis using streamed_stop [where v = "[]"] step short by auto
  next
    case send
    with step have k: "nat k \<le> n" "b = take (nat k) (drop off ?c)" "nat k \<le> length ?c - off"
      and rd0: "said fd [] (s\<lparr>fds := (ffd, FReg i (off + nat k)) # R\<rparr>) t" by (auto simp: q_def split: if_splits)
    from send_all_wrote [OF sn] obtain v where v: "wrote fd v t u" "x = 0 \<and> v = b \<or> x = -1 \<and> strict_prefix v b" by metis
    have sd: "said fd v (s\<lparr>fds := (ffd, FReg i (off + nat k)) # R\<rparr>) u" using said_trans [OF rd0 said_wrote [OF v(1)]] by simp
    show ?thesis
    proof (cases "x = 0")
      case False
      then have "r = -1 \<and> s' = u" "prefix v b" using eq send rd sn v(2) by (auto simp: q_def [symmetric] prefix_order.less_imp_le)
      moreover have "prefix b (take n (drop off ?c))" using k by (metis take_is_prefix take_take min.absorb1)
      ultimately show ?thesis using streamed_stop [OF sd] prefix_order.trans by blast
    next
      case True
      have rec: "stream_loop fd ffd (n - nat k) u = (r, s')" using eq send rd sn True by (simp add: q_def [symmetric])
      have "fds u = (ffd, FReg i (off + nat k)) # R" using sd by (simp add: said_def core_def)
      then have "streamed fd ffd i R (off + nat k) (n - nat k) r u s'"
        using "1.IH"(2) [OF send(1) q_def rd [symmetric] refl _ _ sn [symmetric] _ rec] send(2) True by simp
      from streamed_after [OF this _ k(2,1,3)] sd v(2) True show ?thesis by auto
    qed
  qed
qed

lemma said_silent_fds: "silent s t \<Longrightarrow> said fd w (t\<lparr>fds := F\<rparr>) u \<Longrightarrow> said fd w (s\<lparr>fds := F\<rparr>) u"
  by (auto simp: said_def silent_def core_def table_def)

lemma send_stream_said:
  assumes "run_state (client_manager_send_file_stream fd t m ffd n) s = (r, s')"
    and "fds s = (ffd, FReg i 0) # R"
  shows "\<exists>p w. said fd w (s\<lparr>fds := (ffd, FReg i p) # R\<rparr>) s' \<and> (r = 0 \<or> r = -1) \<and>
    prefix w (frame t m @ take n (content (inodes s i))) \<and>
    (r = 0 \<longrightarrow> w = frame t m @ take n (content (inodes s i)) \<and> n \<le> length (content (inodes s i)))"
proof -
  let ?c = "content (inodes s i)"
  obtain l1 s1 where a: "run_state lock_clients s = (l1, s1)" by fastforce
  define k where "k = find_socket_slot fd s1"
  obtain u1 s1' where a': "run_state unlock_clients s1 = (u1, s1')" by fastforce
  obtain l2 s2 where b: "run_state (lock_send k) s1 = (l2, s2)" by fastforce
  obtain u2 s2' where b': "run_state unlock_clients s2 = (u2, s2')" by fastforce
  obtain u2' s2'' where b'': "run_state (unlock_send k) s2 = (u2', s2'')" by fastforce
  obtain u2'' s2''' where b''': "run_state unlock_clients s2'' = (u2'', s2''')" by fastforce
  obtain u3 s3 where c: "run_state (unlock_send k) s2' = (u3, s3)" by fastforce
  obtain r4 s4 where d: "run_state (send_message_raw fd t m) s2' = (r4, s4)" by fastforce
  obtain u4 s4' where d': "run_state (unlock_send k) s4 = (u4, s4')" by fastforce
  obtain r5 s5 where e: "stream_loop fd ffd n s4 = (r5, s5)" by fastforce
  obtain u6 s6 where f: "run_state (unlock_send k) s5 = (u6, s6)" by fastforce
  note q = silent_run [OF silent_base(13)] silent_run [OF silent_base(14)] silent_run [OF silent_base(15)]
    silent_run [OF silent_base(16)]
  have sil: "silent s s1" "silent s1 s1'" "silent s1 s2" "silent s2 s2'" "silent s2 s2''" "silent s2'' s2'''"
      "silent s2' s3" "silent s4 s4'" "silent s5 s6"
    using q(1) [OF a] q(2) [OF a'] q(3) [OF b] q(2) [OF b'] q(4) [OF b''] q(2) [OF b'''] q(4) [OF c] q(4) [OF d']
      q(4) [OF f] .
  have early: "silent s s1'" "silent s s2'" "silent s s2'''" "silent s s3"
    using sil by (auto intro: silent.trans)
  have same: "s\<lparr>fds := (ffd, FReg i 0) # R\<rparr> = s" using assms(2) by simp
  have quit': ?thesis if "silent s s'" "r = -1"
    using that said_silent same by (intro exI [of _ 0] exI [of _ "[]"]) simp
  from raw.any [OF d] obtain v where v: "wrote fd v s2' s4" "prefix v (frame t m)" "r4 = 0 \<longleftrightarrow> v = frame t m"
    by metis
  have sd4: "said fd v s s4" using silent_said [OF early(2) said_wrote [OF v(1)]] .
  have f4: "fds s4 = (ffd, FReg i 0) # R" "inodes s4 = inodes s"
    using saidD [OF sd4] assms(2) by (simp_all add: core_def)
  from stream_loop_spec [OF e f4(1)] f4(2) obtain p w where
    w: "said fd w (s4\<lparr>fds := (ffd, FReg i p) # R\<rparr>) s5" "r5 = 0 \<or> r5 = -1" "prefix w (take n ?c)"
      "r5 = 0 \<longrightarrow> w = take n ?c \<and> n \<le> length ?c" unfolding streamed_def by auto
  have sd6: "said fd (v @ w) (s\<lparr>fds := (ffd, FReg i p) # R\<rparr>) s6"
    using said_then_silent [OF said_fds [OF _ w(1)] sil(9)] sd4 same by metis
  have sd4': "said fd v (s\<lparr>fds := (ffd, FReg i 0) # R\<rparr>) s4'"
    using said_then_silent [OF sd4 sil(8)] same by simp
  consider (quit) "s' \<in> {s, s1, s1', s2', s2''', s3}" "r = -1" | (header) "s' = s4'" "r = -1"
      | (body) "r4 = 0" "s' = s6" "r = 0 \<or> r = -1" "r = 0 \<longrightarrow> r5 = 0"
    using assms(1) a a' b b' b'' b''' c d d' e f
    by (auto simp: client_manager_send_file_stream_def k_def [symmetric] split: if_splits)
  then show ?thesis
  proof cases
    case quit
    then show ?thesis using quit' early sil(1) silent.refl by auto
  next
    case header
    with sd4' v(2) show ?thesis by (intro exI [of _ 0] exI [of _ v]) auto
  next
    case body
    with sd6 v(3) w(3,4) show ?thesis by (intro exI [of _ p] exI [of _ "v @ w"]) auto
  qed
qed

subsection \<open>The stages\<close>

definition DOWNLOAD_READY :: "string \<Rightarrow> nat \<Rightarrow> byte list" where
  "DOWNLOAD_READY f n = frame MSG_RESPONSE (''DOWNLOAD_READY '' @ f @ ''|'' @ nat_str n)"

text \<open>\<open>served f x w\<close>: \<open>w\<close> announces the file \<open>x\<close> under the name \<open>f\<close> and carries all of it.\<close>

definition served :: "string \<Rightarrow> inode \<Rightarrow> byte list \<Rightarrow> bool" where
  "served f x w \<longleftrightarrow> ikind x = IReg \<and> length (content x) \<le> FILE_MAX_SIZE \<and>
     w = DOWNLOAD_READY f (length (content x)) @ content x"

definition answered :: "int \<Rightarrow> string \<Rightarrow> inode option \<Rightarrow> int \<Rightarrow> (int \<times> fdobj) list \<Rightarrow> server \<Rightarrow> server \<Rightarrow> bool" where
  "answered fd f x r F s s' \<longleftrightarrow> (r = 0 \<or> r = -1) \<and> (\<exists>w. said fd w (s\<lparr>fds := F\<rparr>) s' \<and>
     (r = 0 \<longrightarrow> (\<exists>e. w = frame MSG_ERROR e) \<or> (\<exists>y. x = Some y \<and> served f y w)))"

lemma answered_error:
  assumes "run_state (do { a; send_error fd m }) t = (r, s')" and "state_io_rel silent a"
    and "silent (s\<lparr>fds := F\<rparr>) t"
  shows "answered fd f x r F s s'"
proof -
  have run: "run_state (do { a; r \<leftarrow> send_error fd m; ret r }) t = (r, s')"
    using assms(1) by (auto split: prod.splits)
  from error_stage [OF this assms(2)] obtain w where "said fd w t s'" "r = 0 \<or> r = -1"
    "r = 0 \<Longrightarrow> w = frame MSG_ERROR m" by metis
  with silent_said [OF assms(3)] show ?thesis unfolding answered_def by blast
qed

lemma answered_error':
  assumes "run_state (send_error fd m) t = (r, s')" and "silent (s\<lparr>fds := F\<rparr>) t"
  shows "answered fd f x r F s s'"
proof (rule answered_error [OF _ _ assms(2)])
  show "run_state (do { ret (); send_error fd m }) t = (r, s')" using assms(1) by simp
  show "state_io_rel silent (ret ())" by (intro silent_base)
qed

lemma sys_fstat_spec:
  assumes "run_state (sys_fstat fd) s = (st, s')" and "fd_obj s fd = Some (FReg i off)"
  shows "blip s s' \<and> (st = None \<or> st = Some (ikind (inodes s i), int (length (content (inodes s i)))))"
  using assms
  by (auto simp: sys_fstat_def fs_run fd_stat_def inode_stat_def split: list.splits fault.splits)

lemma download_stream_spec:
  assumes "run_state (download_stream fd user f ffd n) s = (r, s')" and "fds s = (ffd, FReg i 0) # R"
    and "n = length (content (inodes s i))" and "ikind (inodes s i) = IReg" and "n \<le> FILE_MAX_SIZE"
  shows "\<exists>p. answered fd f (Some (inodes s i)) r ((ffd, FReg i p) # R) s s'"
proof -
  let ?text = "''DOWNLOAD_READY '' @ f @ ''|'' @ nat_str n"
  have same: "s\<lparr>fds := (ffd, FReg i 0) # R\<rparr> = s" using assms(2) by simp
  show ?thesis
  proof (cases "length ?text < MESSAGE_MAX_SIZE + 1")
    case False
    then have "run_state (send_error fd ''DOWNLOAD_METADATA_FAILED'') s = (r, s')"
      using assms(1) by (simp add: download_stream_def snprintf_def Let_def)
    then have "answered fd f (Some (inodes s i)) r ((ffd, FReg i 0) # R) s s'"
      using answered_error' same silent.refl by metis
    then show ?thesis ..
  next
    case True
    then have fits: "snprintf (MESSAGE_MAX_SIZE + 1) ?text = (int (length ?text), ?text)" by (rule snprintf_fits)
    obtain tm s1 where a: "run_state (start_timer (DownloadTimerStart user f)) s = (tm, s1)" by fastforce
    obtain q s2 where b: "run_state (client_manager_send_file_stream fd MSG_RESPONSE ?text ffd n) s1 = (q, s2)" by fastforce
    obtain x s3 where c: "run_state (download_stop_timer user f n q tm) s2 = (x, s3)" by (rule that [OF surjective_pairing])
    define s4 where "s4 = exec (log_event (if q \<noteq> 0 then DownloadStreamFailed user f else DownloadSuccess user f n)) s3"
    have sil: "silent s s1" "silent s2 s3" "silent s3 s4"
      using silent_run [OF silent_timers(1) a] silent_run [OF silent_timers(4) c]
        io_rel_exec [OF log_event_frame(1) [THEN silent_rules(2)]] by (simp_all add: s4_def)
    have fin: "s' = s4 \<and> r = (if q \<noteq> 0 then -1 else 0)"
      using assms(1) True a b c unfolding download_stream_def fits s4_def
      by (auto simp: Let_def split: if_splits prod.splits)
    have s1: "fds s1 = (ffd, FReg i 0) # R" "inodes s1 = inodes s"
      using sil(1) assms(2) by (simp_all add: silent_def core_def)
    from send_stream_said [OF b s1(1)] s1(2) assms(3) obtain p w where
      w: "said fd w (s1\<lparr>fds := (ffd, FReg i p) # R\<rparr>) s2"
        "q = 0 \<longrightarrow> w = frame MSG_RESPONSE ?text @ content (inodes s i)" by auto
    have "said fd w (s\<lparr>fds := (ffd, FReg i p) # R\<rparr>) s4"
      using said_silent_fds [OF sil(1) said_then_silent [OF w(1) silent.trans [OF sil(2,3)]]] .
    with w(2) fin assms(3-5) show ?thesis
      by (intro exI [of _ p]) (auto simp: answered_def served_def DOWNLOAD_READY_def)
  qed
qed

lemma download_file_spec:
  assumes "run_state (download_file fd user f ffd) s = (r, s')" and "fds s = (ffd, FReg i 0) # R"
  shows "\<exists>p. answered fd f (Some (inodes s i)) r ((ffd, FReg i p) # R) s s'"
proof -
  obtain st s1 where a: "run_state (sys_fstat ffd) s = (st, s1)" by fastforce
  have "fd_obj s ffd = Some (FReg i 0)" using assms(2) by (simp add: fd_obj_def)
  note st = sys_fstat_spec [OF a this]
  have same: "s\<lparr>fds := (ffd, FReg i 0) # R\<rparr> = s" using assms(2) by simp
  then have sil: "silent (s\<lparr>fds := (ffd, FReg i 0) # R\<rparr>) s1" using st silent_blip by auto
  have s1: "fds s1 = (ffd, FReg i 0) # R" "inodes s1 = inodes s" using st blipD [of s s1] assms(2) by auto
  consider (none) "st = None" | (kind) "st \<noteq> None" "ikind (inodes s i) \<noteq> IReg"
    | (big) "st \<noteq> None" "ikind (inodes s i) = IReg" "FILE_MAX_SIZE < length (content (inodes s i))"
    | (ok) "st \<noteq> None" "ikind (inodes s i) = IReg" "length (content (inodes s i)) \<le> FILE_MAX_SIZE" by force
  then show ?thesis
  proof cases
    case none
    with assms(1) a have "run_state (send_error fd ''DOWNLOAD_STAT_FAILED'') s1 = (r, s')" by (simp add: download_file_def)
    from answered_error' [OF this sil] show ?thesis ..
  next
    case kind
    with assms(1) a st have "run_state (do { log_event (RejectedNonRegular user f);
        send_error fd ''NOT_A_REGULAR_FILE'' }) s1 = (r, s')" by (auto simp: download_file_def)
    from answered_error [OF this log_event_frame(1) [THEN silent_rules(2)] sil] show ?thesis ..
  next
    case big
    with assms(1) a st have "run_state (send_error fd ''FILE_TOO_LARGE'') s1 = (r, s')" by (auto simp: download_file_def)
    from answered_error' [OF this sil] show ?thesis ..
  next
    case ok
    with assms(1) a st have run: "run_state (download_stream fd user f ffd (length (content (inodes s i)))) s1 = (r, s')"
      by (auto simp: download_file_def)
    from download_stream_spec [OF run s1(1)] s1(2) ok obtain p where
      "answered fd f (Some (inodes s i)) r ((ffd, FReg i p) # R) s1 s'" by auto
    then have "answered fd f (Some (inodes s i)) r ((ffd, FReg i p) # R) s s'"
      using said_silent_fds [OF sil [unfolded same]] unfolding answered_def by blast
    then show ?thesis ..
  qed
qed

text \<open>Opening the file: its descriptor is last, or nothing was opened and an error was sent.\<close>

lemma download_body_spec:
  assumes "run_state (download_body fd user f d) s = ((r, ffd), s')"
    and "d < 0 \<and> fds s = B \<or> 0 \<le> d \<and> fds s = (d, FDir FILE_STORAGE_DIRECTORY 0) # B"
  shows "(ffd < 0 \<and> answered fd f None r (fds s) s s') \<or>
    (0 \<le> ffd \<and> ffd \<notin> fst ` set (fds s) \<and>
      (\<exists>i p. entry s FILE_STORAGE_DIRECTORY f = Some i \<and>
        answered fd f (Some (inodes s i)) r ((ffd, FReg i p) # fds s) s s'))"
proof (cases "d < 0")
  case True
  have run: "run_state (do { log_event_errno DownloadOpenDirFailed; send_error fd ''STORAGE_UNAVAILABLE'' }) s = (r, s')"
    and "ffd = -1"
    using assms(1) True by (auto simp: download_body_def split: prod.splits)
  moreover have "silent (s\<lparr>fds := fds s\<rparr>) s" by (simp add: silent.refl)
  ultimately show ?thesis using answered_error [OF run log_event_frame(2) [THEN silent_rules(2)]] by simp
next
  case False
  with assms(2) have dir: "dir_of s d = Some FILE_STORAGE_DIRECTORY" by (auto simp: dir_of_def fd_obj_def)
  obtain x s1 where op: "run_state (sys_openat d f [O_RDONLY, O_CLOEXEC, O_NOFOLLOW] 0) s = (x, s1)" by fastforce
  show ?thesis
  proof (cases "x < 0")
    case neg: True
    then have b: "blip s s1" using sys_openat_spec [OF op dir] fresh_fd_props(2) [of "fds s"] by auto
    have sil: "silent (s\<lparr>fds := fds s\<rparr>) s1" using silent_blip [OF b] by simp
    have "ffd = x" using assms(1) False op neg by (auto simp: download_body_def split: prod.splits if_splits)
    moreover have "answered fd f None r (fds s) s s'"
    proof -
      consider "run_state (send_error fd ''FILE_NOT_FOUND'') s1 = (r, s')"
        | "run_state (do { log_event (RejectedSymlink user f); send_error fd ''UNSAFE_FILE_ENTRY'' }) s1 = (r, s')"
        | "run_state (do { log_event (DownloadOpenFailed user f (errno s1));
              send_error fd ''DOWNLOAD_OPEN_FAILED'' }) s1 = (r, s')"
        using assms(1) False op neg by (auto simp: download_body_def split: prod.splits if_splits)
      then show ?thesis
        using answered_error' [OF _ sil] answered_error [OF _ log_event_frame(1) [THEN silent_rules(2)] sil]
        by cases metis+
    qed
    ultimately show ?thesis using neg by simp
  next
    case pos: False
    from sys_openat_spec [OF op dir] pos obtain i where x: "x = fresh_fd (fds s)"
      and i: "entry s FILE_STORAGE_DIRECTORY f = Some i" and b: "blip (s\<lparr>fds := (x, FReg i 0) # fds s\<rparr>) s1" by auto
    have run: "run_state (download_file fd user f x) s1 = (r, s')" and ffd: "ffd = x"
      using assms(1) False op pos by (auto simp: download_body_def split: prod.splits)
    have s1: "fds s1 = (x, FReg i 0) # fds s" "inodes s1 = inodes s" using blipD(1,3) [OF b] by auto
    from download_file_spec [OF run s1(1)] s1(2) obtain p where
      ans: "answered fd f (Some (inodes s i)) r ((x, FReg i p) # fds s) s1 s'" by auto
    have "said fd w (s1\<lparr>fds := F\<rparr>) s' \<Longrightarrow> said fd w (s\<lparr>fds := F\<rparr>) s'" for w F
      using said_fds [OF said_blip [OF b]] by fastforce
    with ans have "answered fd f (Some (inodes s i)) r ((x, FReg i p) # fds s) s s'" unfolding answered_def by blast
    with x i ffd pos fresh_fd_props(1) [of "fds s"] show ?thesis by auto
  qed
qed

lemma download_cleanup_spec:
  assumes "run_state (download_cleanup user f l d ffd r) s = (r', s')"
    and "ffd < 0 \<and> fds s = C \<or> 0 \<le> ffd \<and> (\<exists>obj. fds s = (ffd, obj) # C) \<and> ffd \<notin> fst ` set C"
    and "d < 0 \<and> C = (l, obj) # F \<or> 0 \<le> d \<and> (\<exists>obj'. C = (d, obj') # (l, obj) # F) \<and> d \<notin> fst ` set ((l, obj) # F)"
    and "0 \<le> l" and "l \<notin> fst ` set F" and "\<forall>k \<in> set (ofd_locks s). fst k \<in> insert l (fst ` set F)"
  shows "r' = r \<and> silent ((without_lock l s)\<lparr>fds := F\<rparr>) s'"
proof -
  let ?B = "(l, obj) # F"
  obtain x1 s1 where a: "run_state (if ffd \<ge> 0
      then do { c \<leftarrow> sys_close ffd; if c \<noteq> 0 then log_event (DownloadSourceClose f) else ret () }
      else ret ()) s = (x1, s1)" by (rule that [OF surjective_pairing])
  obtain x2 s2 where b: "run_state (if d \<ge> 0
      then do { c \<leftarrow> sys_close d; if c \<noteq> 0 then log_event DownloadStorageClose else ret () }
      else ret ()) s1 = (x2, s2)" by (rule that [OF surjective_pairing])
  obtain q s3 where c: "run_state (file_lock_release l) s2 = (q, s3)" by fastforce
  have free: "\<forall>k \<in> set (ofd_locks s). fst k \<noteq> x" if "x \<notin> fst ` set ?B" for x using assms(6) that by auto
  have "set ?B \<subseteq> set C" using assms(3) by auto
  then have "ffd \<notin> fst ` set C \<Longrightarrow> ffd \<notin> fst ` set ?B" by blast
  then have "ffd < 0 \<and> fds s = C \<or> 0 \<le> ffd \<and> (\<exists>obj. fds s = (ffd, obj) # C) \<and> ffd \<notin> fst ` set C \<and>
      (\<forall>k \<in> set (ofd_locks s). fst k \<noteq> ffd)" using assms(2) free by blast
  from close_logged [OF a this] have s1: "silent (s\<lparr>fds := C\<rparr>) s1" .
  then have f1: "fds s1 = C" "ofd_locks s1 = ofd_locks s" by (simp_all add: silent_def core_def)
  have "d < 0 \<and> fds s1 = ?B \<or> 0 \<le> d \<and> (\<exists>obj. fds s1 = (d, obj) # ?B) \<and> d \<notin> fst ` set ?B \<and>
      (\<forall>k \<in> set (ofd_locks s1). fst k \<noteq> d)" using assms(3) free f1 by auto
  from close_logged [OF b this] have s2: "silent (s1\<lparr>fds := ?B\<rparr>) s2" .
  then have f2: "fds s2 = ?B" by (simp add: silent_def core_def)
  have b3: "blip ((without_lock l s2)\<lparr>fds := F\<rparr>) s3" using file_lock_release_spec [OF c f2 assms(5,4)] by blast
  have "run_state (do { (if q \<noteq> 0 then log_event (DownloadLockRelease user f) else ret ()); ret r }) s3 = (r', s')"
    using assms(1) unfolding download_cleanup_def
    by (simp only: run_bind [OF a] run_bind [OF b] run_bind [OF c])
  then have fin: "silent s3 s' \<and> r' = r"
    by (elim run_bindE) (auto simp del: run_state_if dest: silent_run [OF silent_log_if])
  have "silent ((without_lock l s)\<lparr>fds := F\<rparr>) ((without_lock l s2)\<lparr>fds := F\<rparr>)"
    using s1 s2 by (auto simp: silent_def core_def without_lock_def table_def)
  with fin silent_blip [OF b3] show ?thesis using silent.trans by blast
qed

subsection \<open>The handler\<close>

definition download_outcome :: "int \<Rightarrow> string \<Rightarrow> int \<Rightarrow> server \<Rightarrow> server \<Rightarrow> bool" where
  "download_outcome fd f r s s' \<longleftrightarrow> (r = 0 \<or> r = -1) \<and> (\<exists>w. conversed fd 0 w s s' \<and>
     (r = 0 \<longrightarrow> (\<exists>e. w = frame MSG_ERROR e) \<or> (\<exists>x. stored s f = Some x \<and> served f x w)))"

text \<open>\<open>reading s t\<close>: what a handler that only reads the storage may do before it answers.\<close>

definition reading :: "server \<Rightarrow> server \<Rightarrow> bool" where
  "reading s t \<longleftrightarrow> touched {} s t \<and> others t = others s \<and> socks t = socks s"

interpretation reading: frame_rel reading
  by unfold_locales (auto simp: reading_def intro: touched.refl touched.trans)

lemma reading_stored: "reading s t \<Longrightarrow> wf_storage s \<Longrightarrow> wf_storage t \<and> stored t = stored s"
  by (auto simp: reading_def touched_def)

lemma reading_fs: "fs_rest t = fs_rest s \<Longrightarrow> touched {} s t \<Longrightarrow> reading s t"
  using more_server [of t s] by (simp add: reading_def fs_rest_def others_def)

lemma reading_blip: "blip (s\<lparr>fds := F\<rparr>) t \<Longrightarrow> reading s t"
  using touched.trans [OF touched_fds(1) touched_blip] silent_others [OF silent_blip] blipD(6)
  by (fastforce simp: reading_def others_def table_def)

lemma answered_outcome:
  assumes "answered fd f x r F t u" and "reading s t" and "reading u s'" and "wf_storage s"
    and "\<And>y. x = Some y \<Longrightarrow> stored t f = Some y"
  shows "download_outcome fd f r s s' \<and> touched {} s s' \<and> others s' = others s"
proof -
  from assms(1) obtain w where w: "said fd w (t\<lparr>fds := F\<rparr>) u" "r = 0 \<or> r = -1"
    "r = 0 \<longrightarrow> (\<exists>e. w = frame MSG_ERROR e) \<or> (\<exists>y. x = Some y \<and> served f y w)" by (auto simp: answered_def)
  have c: "core u = core (t\<lparr>fds := F\<rparr>)" using w(1) by (simp add: said_def)
  have "touched {} t u" by (rule touched_same) (use c in \<open>simp_all add: core_def\<close>)
  moreover have "others u = others t" using c by (simp add: core_def others_def table_def)
  moreover have "conversed fd 0 w s s'"
    using w(1) assms(2,3) by (simp add: said_def conversed_def reading_def)
  moreover have "stored s = stored t" using reading_stored [OF assms(2,4)] by simp
  ultimately show ?thesis
    using w(2,3) assms(2,3,5) touched.trans unfolding download_outcome_def reading_def by metis
qed

text \<open>What runs while the lock \<open>l\<close> is held.\<close>

lemma download_locked:
  assumes "run_state open_storage_directory s2 = (d, s3)" and "run_state (download_body fd user f d) s3 = ((r4, ffd), s4)"
    and "run_state (download_cleanup user f l d ffd r4) s4 = (r, s')" and "\<not> l < 0" and "l \<notin> fst ` set (fds s)"
    and "fds s2 = (l, FReg i 0) # fds s" and locks: "ofd_locks s2 = (l, i, F_RDLCK) #
      filter (\<lambda>(fd', i', t'). fd' \<noteq> l \<and> \<not> (i' = i \<and> lock_conflict F_RDLCK t')) (ofd_locks s)"
    and "reading s s2" and "wf_locks s" and "wf_storage s"
  shows "fds s' = fds s \<and> set (ofd_locks s') \<subseteq> set (ofd_locks s) \<and> download_outcome fd f r s s' \<and>
    touched {} s s' \<and> others s' = others s"
proof -
  let ?B = "(l, FReg i 0) # fds s"
  define C where "C = (if d < 0 then ?B else (d, FDir FILE_STORAGE_DIRECTORY 0) # ?B)"
  have wl2: "wf_locks s2" using assms(9) by (auto simp: wf_locks_def assms(6) locks)
  have same: "s2\<lparr>fds := ?B\<rparr> = s2" using assms(6) by simp
  have neg: "d < 0 \<Longrightarrow> blip (s2\<lparr>fds := ?B\<rparr>) s3"
    unfolding same using open_storage_spec [OF assms(1) wl2] fresh_fd_props(2) [of "fds s2"] by auto
  have b3: "blip (s2\<lparr>fds := C\<rparr>) s3" and dB: "d < 0 \<or> d \<notin> fst ` set ?B"
    using open_storage_spec [OF assms(1) wl2] assms(6) fresh_fd_props [of ?B] neg by (auto simp: C_def)
  have f3: "fds s3 = C" using blipD(1) [OF b3] by simp
  have "ffd < 0 \<and> answered fd f None r4 C s3 s4 \<or> 0 \<le> ffd \<and> ffd \<notin> fst ` set C \<and>
      (\<exists>j p. stored s3 f = Some (inodes s3 j) \<and> answered fd f (Some (inodes s3 j)) r4 ((ffd, FReg j p) # C) s3 s4)"
    using download_body_spec [OF assms(2), of ?B] f3 dB unfolding C_def stored_def by (auto split: if_splits)
  then obtain x F where ans: "answered fd f x r4 F s3 s4" "\<And>y. x = Some y \<Longrightarrow> stored s3 f = Some y"
    and F: "ffd < 0 \<and> F = C \<or> 0 \<le> ffd \<and> (\<exists>obj. F = (ffd, obj) # C) \<and> ffd \<notin> fst ` set C" by auto
  have s4: "fds s4 = F" "ofd_locks s4 = ofd_locks s2"
    using ans(1) blipD(5) [OF b3] by (auto simp: answered_def said_def core_def)
  have "\<forall>k \<in> set (ofd_locks s4). fst k \<in> insert l (fst ` set (fds s))" using wl2 s4(2) assms(6) by (simp add: wf_locks_def)
  moreover have "d < 0 \<and> C = ?B \<or> 0 \<le> d \<and> (\<exists>obj'. C = (d, obj') # ?B) \<and> d \<notin> fst ` set ?B" using dB by (auto simp: C_def)
  ultimately have cl: "r = r4" "silent ((without_lock l s4)\<lparr>fds := fds s\<rparr>) s'"
    using download_cleanup_spec [OF assms(3) _ _ _ assms(5)] F s4(1) assms(4) by auto
  have "reading s4 s'"
    using cl(2) touched_same [of s' s4 "{}"]
    by (simp add: reading_def silent_def core_def without_lock_def others_def table_def)
  note fin = answered_outcome [OF ans(1) reading.trans [OF assms(8) reading_blip [OF b3]] this assms(10) ans(2)]
  have "set (ofd_locks s') \<subseteq> set (ofd_locks s)" "fds s' = fds s"
    using cl(2) s4(2) locks by (auto simp: silent_def core_def without_lock_def)
  with fin cl(1) show ?thesis by simp
qed

lemma handle_download_spec:
  assumes "run_state (file_manager_handle_download fd user f) s = (r, s')" and "wf_locks s" and "wf_storage s"
  shows "fds s' = fds s \<and> set (ofd_locks s') \<subseteq> set (ofd_locks s) \<and> download_outcome fd f r s s' \<and>
    touched {} s s' \<and> others s' = others s"
proof -
  obtain q s1 where en: "run_state ensure_storage_directory s = (q, s1)" by fastforce
  note e = ensure_storage_spec [OF en, of "{}"]
  have rd1: "reading s s1" using e by (simp add: reading_fs)
  have err: ?thesis if t: "reading s t" "fds t = fds s" "ofd_locks t = ofd_locks s"
      and run: "run_state (do { a; send_error fd m }) t = (r, s')" and a: "state_io_rel silent a"
    for t m and a :: "unit srv"
  proof -
    have ans: "answered fd f None r (fds t) t s'" using answered_error [OF run a] silent.refl by simp
    then have "fds s' = fds t" "ofd_locks s' = ofd_locks t" by (auto simp: answered_def said_def core_def)
    with answered_outcome [OF ans t(1) reading.refl assms(3)] t show ?thesis by simp
  qed
  consider (name) "\<not> is_valid_shared_filename f" | (dir) "is_valid_shared_filename f" "q \<noteq> 0"
    | (go) "is_valid_shared_filename f" "q = 0" by blast
  then show ?thesis
  proof cases
    case name
    with assms(1) have "run_state (do { log_event (RejectedDownloadFilename user);
        send_error fd ''INVALID_DOWNLOAD_FILENAME'' }) s = (r, s')" by (simp add: file_manager_handle_download_def)
    from err [OF reading.refl refl refl this log_event_frame(1) [THEN silent_rules(2)]] show ?thesis .
  next
    case dir
    with assms(1) en have "run_state (do { log_event_errno DownloadStorageUnavailable;
        send_error fd ''STORAGE_UNAVAILABLE'' }) s1 = (r, s')" by (simp add: file_manager_handle_download_def)
    from err [OF rd1 _ _ this log_event_frame(2) [THEN silent_rules(2)]] e show ?thesis by simp
  next
    case go
    obtain l s2 where lk: "run_state (file_lock_acquire f FILE_LOCK_SHARED) s1 = (l, s2)" by fastforce
    have wl1: "wf_locks s1" using assms(2) e by (simp add: wf_locks_def)
    note L = file_lock_acquire_spec [OF lk wl1]
    have sd: "side s1 s2" using L by blast
    have rd2: "reading s s2"
      using reading.trans [OF rd1 reading_fs [OF _ touched_side [OF sd]]] sd by (simp add: side_def)
    show ?thesis
    proof (cases "l < 0")
      case True
      then have "fds s2 = fds s" "ofd_locks s2 = ofd_locks s" using L e by (auto simp: locked_def)
      moreover have "run_state (do { log_event_errno (DownloadLockFailed user f);
          send_error fd ''FILE_LOCK_FAILED'' }) s2 = (r, s')"
        using assms(1) en go lk True by (simp add: file_manager_handle_download_def)
      ultimately show ?thesis using err [OF rd2 _ _ _ log_event_frame(2) [THEN silent_rules(2)]] by blast
    next
      case False
      with L e obtain i where l: "l \<notin> fst ` set (fds s)" "fds s2 = (l, FReg i 0) # fds s"
        and locks: "ofd_locks s2 = (l, i, F_RDLCK) #
          filter (\<lambda>(fd', i', t'). fd' \<noteq> l \<and> \<not> (i' = i \<and> lock_conflict F_RDLCK t')) (ofd_locks s)"
        by (auto simp: locked_def lock_type_of_def)
      obtain d s3 where op: "run_state open_storage_directory s2 = (d, s3)" by fastforce
      obtain r4 ffd s4 where bd: "run_state (download_body fd user f d) s3 = ((r4, ffd), s4)" by (metis surj_pair)
      have "run_state (download_cleanup user f l d ffd r4) s4 = (r, s')"
        using assms(1) en go lk False op bd by (simp add: file_manager_handle_download_def)
      from download_locked [OF op bd this False l locks rd2 assms(2,3)] show ?thesis .
    qed
  qed
qed

end
