(* ===== verification/Listing_Spec.thy ===== *)
theory Listing_Spec
  imports Download_Spec
begin

section \<open>The listing\<close>

text \<open>
  What a client that asks for the file list receives, for every sequence of failures, and
  that it is the complete list when nothing fails.
\<close>

subsection \<open>What there is to list\<close>

definition listable :: "'z os_scheme \<Rightarrow> string \<Rightarrow> bool" where
  "listable s n \<longleftrightarrow> is_valid_shared_filename n \<and>
     (case stored s n of None \<Rightarrow> False | Some x \<Rightarrow> ikind x = IReg \<and> length (content x) \<le> FILE_MAX_SIZE)"

definition file_entry :: "'z os_scheme \<Rightarrow> string \<Rightarrow> byte list" where
  "file_entry s n = frame MSG_FILELIST (n @ ''|'' @ nat_str (length (content (the (stored s n)))))"

definition file_names :: "'z os_scheme \<Rightarrow> string list" where
  "file_names s = map fst (ents (dirs s FILE_STORAGE_DIRECTORY))"

definition list_text :: "'z os_scheme \<Rightarrow> string list \<Rightarrow> byte list" where
  "list_text s = (\<lambda>ns. concat (map (file_entry s) ns))"

lemma list_text_simps [simp]:
  "list_text s [] = []" "list_text s (n # ns) = file_entry s n @ list_text s ns"
  by (simp_all add: list_text_def)

text \<open>The parts of the state a listing reads.\<close>

definition same_files :: "'z os_scheme \<Rightarrow> 'z os_scheme \<Rightarrow> bool" where
  "same_files s t \<longleftrightarrow> dirs t = dirs s \<and> inodes t = inodes s"

lemma stored_eqD:
  assumes "stored t = stored s"
  shows "listable t = listable s" "list_text t = list_text s"
proof -
  show "listable t = listable s" using assms by (simp add: listable_def fun_eq_iff)
  have "file_entry t = file_entry s" using assms by (simp add: file_entry_def fun_eq_iff)
  then show "list_text t = list_text s" by (simp add: list_text_def)
qed

lemma same_filesD:
  assumes "same_files s t"
  shows "stored t = stored s" "listable t = listable s" "file_names t = file_names s" "list_text t = list_text s"
proof -
  show st: "stored t = stored s" using assms by (auto simp: same_files_def stored_def entry_def)
  show "file_names t = file_names s" using assms by (simp add: same_files_def file_names_def)
  show "listable t = listable s" "list_text t = list_text s" by (rule stored_eqD [OF st])+
qed

lemma same_files_said: "said fd w (s\<lparr>fds := F\<rparr>) t \<Longrightarrow> same_files s t"
  by (auto simp: said_def core_def same_files_def)

lemma same_files_trans: "same_files s t \<Longrightarrow> same_files t u \<Longrightarrow> same_files s u"
  by (simp add: same_files_def)

lemma entry_fits:
  assumes "is_valid_shared_filename n" and "k \<le> FILE_MAX_SIZE"
  shows "length (n @ ''|'' @ nat_str k) < FILE_NAME_MAX_SIZE + 64"
proof -
  have "k < 10 ^ 8" using assms(2) by (simp add: FILE_MAX_SIZE_def)
  then have "length (nat_str k) \<le> 8" by (rule length_nat_str) simp
  then show ?thesis using valid_filename_length [OF assms(1)] by (simp add: FILE_NAME_MAX_SIZE_def)
qed

subsection \<open>One round of the loop\<close>

lemma sys_readdir_spec:
  assumes "run_state (sys_readdir d) s = (e, s')" and "fds s = (d, FDir p j) # R"
  shows "e = None \<and> blip s s' \<and> (fs_script s = [] \<longrightarrow> s' = s \<and> length (ents (dirs s p)) \<le> j) \<or>
    e = Some (fst (ents (dirs s p) ! j)) \<and> j < length (ents (dirs s p)) \<and>
      blip (s\<lparr>fds := (d, FDir p (Suc j)) # R\<rparr>) s' \<and>
      (fs_script s = [] \<longrightarrow> s' = s\<lparr>fds := (d, FDir p (Suc j)) # R\<rparr>)"
  using assms
  by (auto simp: sys_readdir_def fs_run fd_obj_def split: list.splits fault.splits if_splits)

lemma sys_fstatat_spec:
  assumes "run_state (sys_fstatat d n) s = (st, s')" and "fds s = (d, FDir FILE_STORAGE_DIRECTORY j) # R"
  shows "blip s s' \<and> (st = None \<or> (\<exists>x. stored s n = Some x \<and> st = Some (ikind x, int (length (content x))))) \<and>
    (fs_script s = [] \<longrightarrow> fs_script s' = [] \<and> (st = None \<longleftrightarrow> stored s n = None) \<and> (st \<noteq> None \<longrightarrow> s' = s))"
  using assms
  by (auto simp: sys_fstatat_def fs_run dir_of_def fd_obj_def stored_def inode_stat_def
      split: list.splits fault.splits option.splits)

text \<open>What becomes of the next directory entry \<open>n\<close>: it is skipped, or it is sent.\<close>

lemma list_round:
  assumes "list_loop fd d cnt s = (res, s')" and "run_state (sys_readdir d) s = (Some n, s1)"
    and "fds s1 = (d, FDir FILE_STORAGE_DIRECTORY j) # R"
  shows "(\<exists>s2. list_loop fd d cnt s2 = (res, s') \<and> blip s1 s2 \<and>
        (fs_script s1 = [] \<longrightarrow> \<not> listable s1 n \<and> fs_script s2 = [])) \<or>
    (\<exists>s2 s3 r. listable s1 n \<and> blip s1 s2 \<and> (fs_script s1 = [] \<longrightarrow> s2 = s1) \<and>
        run_state (client_manager_send fd MSG_FILELIST
          (n @ ''|'' @ nat_str (length (content (the (stored s1 n)))))) s2 = (r, s3) \<and>
        (r \<noteq> 0 \<and> (res, s') = ((- 1, False, cnt), exec (sys_close d) s3) \<or>
         r = 0 \<and> list_loop fd d (cnt + 1) s3 = (res, s')))"
proof -
  obtain st s2 where ft: "run_state (sys_fstatat d n) s1 = (st, s2)" by fastforce
  note f = sys_fstatat_spec [OF ft assms(3)]
  note eq = assms(1) [unfolded list_loop.simps [of fd d cnt s] assms(2)]
  consider (bad) "\<not> is_valid_shared_filename n" | (gone) "is_valid_shared_filename n" "st = None"
    | (skip) x where "is_valid_shared_filename n" "st = Some (ikind x, int (length (content x)))" "stored s1 n = Some x"
        "ikind x \<noteq> IReg \<or> FILE_MAX_SIZE < length (content x)"
    | (send) x where "is_valid_shared_filename n" "st = Some (ikind x, int (length (content x)))" "stored s1 n = Some x"
        "ikind x = IReg" "length (content x) \<le> FILE_MAX_SIZE"
    using f by (cases st) (metis not_le_imp_less option.distinct(1))+
  then show ?thesis
  proof cases
    case bad
    with eq show ?thesis by (intro disjI1 exI [of _ s1]) (simp add: listable_def)
  next
    case gone
    with eq ft f show ?thesis by (intro disjI1 exI [of _ s2]) (simp add: listable_def)
  next
    case (skip x)
    then have "list_loop fd d cnt s2 = (res, s')" using eq ft by (auto split: if_splits)
    moreover have "\<not> listable s1 n" using skip by (auto simp: listable_def)
    ultimately show ?thesis using f by auto
  next
    case (send x)
    note fit = entry_fits [OF send(1,5)]
    obtain r s3 where sn: "run_state (client_manager_send fd MSG_FILELIST (n @ ''|'' @ nat_str (length (content x)))) s2
      = (r, s3)" by fastforce
    have "listable s1 n" using send by (simp add: listable_def)
    moreover have "r \<noteq> 0 \<and> (res, s') = ((- 1, False, cnt), exec (sys_close d) s3) \<or>
         r = 0 \<and> list_loop fd d (cnt + 1) s3 = (res, s')"
      using eq ft send sn fit snprintf_fits [OF fit] by (auto split: if_splits)
    moreover have "fs_script s1 = [] \<longrightarrow> s2 = s1" "blip s1 s2" using f send(2) by auto
    moreover have "the (stored s1 n) = x" using send(3) by simp
    ultimately show ?thesis using sn by blast
  qed
qed

subsection \<open>The loop\<close>

definition listed :: "int \<Rightarrow> int \<Rightarrow> (int \<times> fdobj) list \<Rightarrow> string list \<Rightarrow> int \<Rightarrow> server \<Rightarrow> int \<times> bool \<times> int \<Rightarrow> server \<Rightarrow> bool" where
  "listed fd d R ns cnt s res s' \<longleftrightarrow> (case res of (st, failed, cnt') \<Rightarrow>
     (\<exists>ms. subseq ms (filter (listable s) ns) \<and> cnt' = cnt + int (length ms) \<and>
       (st = 0 \<and> (fs_script s = [] \<longrightarrow> ms = filter (listable s) ns) \<and>
          (\<exists>j. said fd (list_text s ms) (s\<lparr>fds := (d, FDir FILE_STORAGE_DIRECTORY j) # R\<rparr>) s') \<or>
        st = -1 \<and> (\<exists>w. said fd w (s\<lparr>fds := R\<rparr>) s'))))"

lemma said_blip_fds: "blip (s\<lparr>fds := F\<rparr>) t \<Longrightarrow> said fd w (t\<lparr>fds := G\<rparr>) u \<Longrightarrow> said fd w (s\<lparr>fds := G\<rparr>) u"
  using said_fds [OF said_blip] by fastforce

lemma listed_after:
  assumes "listed fd d R ns cnt t res s'" and "blip (s\<lparr>fds := F\<rparr>) t"
    and "fs_script s = [] \<Longrightarrow> fs_script t = [] \<and> \<not> listable s n"
  shows "listed fd d R (n # ns) cnt s res s'"
proof -
  have same: "same_files s t" by (rule same_files_said [OF said_blip [OF assms(2)]])
  note D = same_filesD [OF same]
  obtain st failed cnt' where res: "res = (st, failed, cnt')" by (metis surj_pair)
  from assms(1) obtain ms where ms: "subseq ms (filter (listable s) ns)" "cnt' = cnt + int (length ms)"
    "st = 0 \<and> (fs_script t = [] \<longrightarrow> ms = filter (listable s) ns) \<and>
      (\<exists>j. said fd (list_text s ms) (t\<lparr>fds := (d, FDir FILE_STORAGE_DIRECTORY j) # R\<rparr>) s') \<or>
     st = -1 \<and> (\<exists>w. said fd w (t\<lparr>fds := R\<rparr>) s')"
    unfolding listed_def res D by auto
  have "subseq ms (filter (listable s) (n # ns))" using ms(1) by auto
  moreover have "fs_script s = [] \<longrightarrow> filter (listable s) (n # ns) = filter (listable s) ns \<and> fs_script t = []"
    using assms(3) by simp
  ultimately show ?thesis
    using ms(2,3) said_blip_fds [OF assms(2)] unfolding listed_def res prod.case by metis
qed

lemma listed_send:
  assumes "listed fd d R ns (cnt + 1) t res s'" and "listable s n" and "said fd (file_entry s n) (s\<lparr>fds := F\<rparr>) t"
    and "fs_script s = [] \<Longrightarrow> fs_script t = []"
  shows "listed fd d R (n # ns) cnt s res s'"
proof -
  note D = same_filesD [OF same_files_said [OF assms(3)]]
  obtain st failed cnt' where res: "res = (st, failed, cnt')" by (metis surj_pair)
  from assms(1) obtain ms where ms: "subseq ms (filter (listable s) ns)" "cnt' = cnt + 1 + int (length ms)"
    "st = 0 \<and> (fs_script t = [] \<longrightarrow> ms = filter (listable s) ns) \<and>
      (\<exists>j. said fd (list_text s ms) (t\<lparr>fds := (d, FDir FILE_STORAGE_DIRECTORY j) # R\<rparr>) s') \<or>
     st = -1 \<and> (\<exists>w. said fd w (t\<lparr>fds := R\<rparr>) s')"
    unfolding listed_def res D by auto
  have "(\<exists>j. said fd (list_text s ms) (t\<lparr>fds := (d, FDir FILE_STORAGE_DIRECTORY j) # R\<rparr>) s') \<Longrightarrow>
      \<exists>j. said fd (list_text s (n # ms)) (s\<lparr>fds := (d, FDir FILE_STORAGE_DIRECTORY j) # R\<rparr>) s'"
    "(\<exists>w. said fd w (t\<lparr>fds := R\<rparr>) s') \<Longrightarrow> \<exists>w. said fd w (s\<lparr>fds := R\<rparr>) s'"
    unfolding list_text_simps using said_fds [OF assms(3)] by blast+
  with ms assms(2,4) show ?thesis
    unfolding listed_def res prod.case by (intro exI [of _ "n # ms"]) auto
qed

lemma send_fs_script:
  assumes "run_state (client_manager_send fd t p) s = (r, s')"
  shows "fs_script s' = fs_script s"
  using same_run [OF routing_frames(2) assms] by (simp add: send_rest_def)

lemma list_loop_spec:
  assumes "list_loop fd d cnt s = (res, s')" and "fds s = (d, FDir FILE_STORAGE_DIRECTORY j) # R"
    and "d \<notin> fst ` set R" and "\<forall>k \<in> set (ofd_locks s). fst k \<noteq> d"
  shows "listed fd d R (drop j (file_names s)) cnt s res s'"
  using assms
proof (induction "length (file_names s) - j" arbitrary: s j cnt rule: less_induct)
  case less
  obtain e s1 where rd: "run_state (sys_readdir d) s = (e, s1)" by fastforce
  note r = sys_readdir_spec [OF rd less.prems(2)]
  have same: "s\<lparr>fds := (d, FDir FILE_STORAGE_DIRECTORY j) # R\<rparr> = s" using less.prems(2) by simp
  show ?case
  proof (cases e)
    case None
    have "res = (0, errno s1 \<noteq> E0, cnt) \<and> s' = s1"
      using less.prems(1) rd None by (auto simp: list_loop.simps [of fd d cnt s])
    moreover have "said fd [] (s\<lparr>fds := (d, FDir FILE_STORAGE_DIRECTORY j) # R\<rparr>) s1"
      unfolding same using r None said_blip by blast
    moreover have "fs_script s = [] \<longrightarrow> drop j (file_names s) = []" using r None by (auto simp: file_names_def)
    ultimately show ?thesis unfolding listed_def
      by (auto intro!: exI [of _ "[]"] exI [of _ j])
  next
    case (Some n)
    with r have j: "j < length (file_names s)" and n: "n = file_names s ! j"
      and b: "blip (s\<lparr>fds := (d, FDir FILE_STORAGE_DIRECTORY (Suc j)) # R\<rparr>) s1"
      and exact: "fs_script s = [] \<longrightarrow> s1 = s\<lparr>fds := (d, FDir FILE_STORAGE_DIRECTORY (Suc j)) # R\<rparr>"
      by (auto simp: file_names_def)
    have split: "drop j (file_names s) = n # drop (Suc j) (file_names s)" using j n by (simp add: Cons_nth_drop_Suc)
    have f1: "fds s1 = (d, FDir FILE_STORAGE_DIRECTORY (Suc j)) # R" using blipD(1) [OF b] by simp
    note D1 = same_filesD [OF same_files_said [OF said_blip [OF b]]]
    have IH: "listed fd d R (drop (Suc j) (file_names s)) c t res s'"
      if "list_loop fd d c t = (res, s')" "said fd w (s1\<lparr>fds := fds s1\<rparr>) t" for c t w
    proof -
      have t: "fds t = (d, FDir FILE_STORAGE_DIRECTORY (Suc j)) # R" "ofd_locks t = ofd_locks s"
        using that(2) f1 blipD(5) [OF b] by (auto simp: said_def core_def)
      have "file_names t = file_names s" using same_filesD(3) [OF same_files_said [OF that(2)]] D1(3) by simp
      with less.hyps [of t "Suc j" c] that(1) t less.prems(3,4) j show ?thesis by simp
    qed
    from list_round [OF less.prems(1) rd [unfolded Some] f1] show ?thesis
    proof (elim disjE exE conjE)
      fix s2
      assume rec: "list_loop fd d cnt s2 = (res, s')" and b2: "blip s1 s2"
        and ex: "fs_script s1 = [] \<longrightarrow> \<not> listable s1 n \<and> fs_script s2 = []"
      have "said fd [] (s1\<lparr>fds := fds s1\<rparr>) s2" using said_blip [OF b2] by simp
      from listed_after [OF IH [OF rec this] blip_trans [OF b b2]] ex exact D1(2) show ?thesis
        unfolding split by auto
    next
      fix s2 s3 r
      assume ls: "listable s1 n" and b2: "blip s1 s2" and ex: "fs_script s1 = [] \<longrightarrow> s2 = s1"
        and sn: "run_state (client_manager_send fd MSG_FILELIST
          (n @ ''|'' @ nat_str (length (content (the (stored s1 n)))))) s2 = (r, s3)"
        and r0: "r = 0" and rec: "list_loop fd d (cnt + 1) s3 = (res, s')"
      from client_manager_send_said [OF sn] r0 have sd: "said fd (file_entry s1 n) s2 s3"
        by (metis file_entry_def)
      have sd1: "said fd (file_entry s1 n) (s1\<lparr>fds := fds s1\<rparr>) s3"
        using said_trans [OF said_blip [OF b2] sd] by simp
      have "said fd (file_entry s n) (s\<lparr>fds := (d, FDir FILE_STORAGE_DIRECTORY (Suc j)) # R\<rparr>) s3"
        using said_trans [OF said_blip [OF b] sd1 [simplified]] D1(1) by (simp add: file_entry_def)
      moreover have "fs_script s = [] \<Longrightarrow> fs_script s3 = []" using send_fs_script [OF sn] ex exact by auto
      ultimately show ?thesis
        unfolding split using listed_send [OF IH [OF rec sd1]] ls D1(2) by simp
    next
      fix s2 s3 r
      assume b2: "blip s1 s2" and sn: "run_state (client_manager_send fd MSG_FILELIST
          (n @ ''|'' @ nat_str (length (content (the (stored s1 n)))))) s2 = (r, s3)"
        and q: "(res, s') = ((- 1, False, cnt), exec (sys_close d) s3)"
      from client_manager_send_said [OF sn] obtain w where sd: "said fd w s2 s3" by metis
      have sd3: "said fd w s1 s3" using said_trans [OF said_blip [OF b2] sd] by simp
      obtain c s4 where cl: "run_state (sys_close d) s3 = (c, s4)" by fastforce
      have "fds s3 = (d, FDir FILE_STORAGE_DIRECTORY (Suc j)) # R" "ofd_locks s3 = ofd_locks s"
        using sd3 f1 blipD(5) [OF b] by (auto simp: said_def core_def)
      with close_last [OF cl _ less.prems(3)] less.prems(4) have "blip (s3\<lparr>fds := R\<rparr>) s4" by simp
      then have "said fd w (s\<lparr>fds := R\<rparr>) s4"
        using said_fds [OF said_trans [OF said_blip [OF b] sd3] said_blip] by fastforce
      with q cl have "\<exists>w. said fd w (s\<lparr>fds := R\<rparr>) s'" and "res = (- 1, False, cnt)" by auto
      then show ?thesis unfolding listed_def by (simp add: exI [of _ "[]"])
    qed
  qed
qed

subsection \<open>The handler\<close>

definition FILE_LIST_BEGIN :: "byte list" where
  "FILE_LIST_BEGIN = frame MSG_RESPONSE ''FILE_LIST_BEGIN''"

definition FILE_LIST_END :: "nat \<Rightarrow> byte list" where
  "FILE_LIST_END k = frame MSG_RESPONSE (''FILE_LIST_END '' @ int_str (int k))"

definition list_outcome :: "int \<Rightarrow> bool \<Rightarrow> int \<Rightarrow> server \<Rightarrow> server \<Rightarrow> bool" where
  "list_outcome fd quiet r s s' \<longleftrightarrow> (r = 0 \<or> r = -1) \<and> (\<exists>w. conversed fd 0 w s s' \<and> (r = 0 \<longrightarrow>
     (\<exists>e. w = frame MSG_ERROR e) \<or>
     (\<exists>ms. subseq ms (filter (listable s) (file_names s)) \<and>
       ((\<exists>e. w = FILE_LIST_BEGIN @ list_text s ms @ frame MSG_ERROR e) \<or>
        w = FILE_LIST_BEGIN @ list_text s ms @ FILE_LIST_END (length ms) \<and>
          (quiet \<longrightarrow> ms = filter (listable s) (file_names s))))))"

definition unscripted :: "'z os_scheme \<Rightarrow> bool" where
  "unscripted s \<longleftrightarrow> fs_script s = []"

lemma unscripted_base:
  "state_io_rel (keeps unscripted) fs_fault" "state_io_rel (keeps unscripted) (set_errno e)"
  "state_io_rel (keeps unscripted) (fail e)" "state_io_rel (keeps unscripted) (fail_none e)"
  "state_io_rel (keeps unscripted) (alloc_fd obj)"
proof -
  show err: "state_io_rel (keeps unscripted) (set_errno e)" for e
    by (auto simp: state_io_rel_def set_errno_def keeps_def unscripted_def)
  show "state_io_rel (keeps unscripted) fs_fault"
    by (auto simp: state_io_rel_def fs_fault_def keeps_def unscripted_def split: list.splits)
  show "state_io_rel (keeps unscripted) (fail e)" "state_io_rel (keeps unscripted) (fail_none e)"
    unfolding fail_def fail_none_def by (intro keeps.io_sys err)+
  show "state_io_rel (keeps unscripted) (alloc_fd obj)"
    by (auto simp: state_io_rel_def alloc_fd_def keeps_def unscripted_def)
qed

lemma unscripted_modify:
  "(\<And>s. fs_script (f s) = fs_script s) \<Longrightarrow> state_io_rel (keeps unscripted) (modify f)"
  by (rule keeps.io_modify) (simp add: keeps_def unscripted_def)

lemma unscripted_calls:
  "state_io_rel (keeps unscripted) ensure_storage_directory"
  "state_io_rel (keeps unscripted) open_storage_directory"
  "state_io_rel (keeps unscripted) (sys_fdopendir d)"
  "state_io_rel (keeps unscripted) (sys_close d)"
  unfolding ensure_storage_directory_def is_directory_def open_storage_directory_def sys_lstat_def sys_mkdir_def
    open_dir_def sys_fstat_def sys_close_def sys_fdopendir_def
  by (intro keeps.io_sys unscripted_base unscripted_modify; simp)+

lemma ensure_names:
  assumes "run_state ensure_storage_directory s = (r, s')" and "wf_storage s"
  shows "file_names s' = file_names s"
proof -
  obtain st s1 where a: "run_state (sys_lstat FILE_STORAGE_DIRECTORY) s = (st, s1)" by fastforce
  obtain m s2 where b: "run_state (sys_mkdir FILE_STORAGE_DIRECTORY) s1 = (m, s2)" by fastforce
  obtain st' s3 where c: "run_state (sys_lstat FILE_STORAGE_DIRECTORY) s2 = (st', s3)" by fastforce
  have b1: "blip s s1" and b3: "blip s2 s3"
    by (rule state_io_relD [OF blip_queries(1) a], rule state_io_relD [OF blip_queries(1) c])
  have mk: "dirs s2 FILE_STORAGE_DIRECTORY = dirs s FILE_STORAGE_DIRECTORY \<or>
      dkind (dirs s FILE_STORAGE_DIRECTORY) = DMissing \<and> ents (dirs s2 FILE_STORAGE_DIRECTORY) = []"
    using sys_mkdir_spec [OF b] blipD(2) [OF b1] blipD(2) [of _ s2] by fastforce
  have "file_names t = file_names s" if "t \<in> {s1, s2, s3}" for t
    using that mk blipD(2) [OF b1] blipD(2) [OF b3] assms(2) by (auto simp: file_names_def wf_storage_def)
  moreover have "\<exists>t \<in> {s1, s2, s3}. dirs s' = dirs t"
    using assms(1) a b c
    by (auto simp: ensure_storage_directory_def is_directory_def set_errno_def split: option.splits if_splits)
  ultimately show ?thesis by (auto simp: file_names_def)
qed

lemma list_end_spec:
  assumes "run_state (list_end fd user cnt) s = (r, s')"
  shows "(r = 0 \<or> r = -1) \<and> (\<exists>w. said fd w s s' \<and> (r = 0 \<longrightarrow> w = frame MSG_RESPONSE (''FILE_LIST_END '' @ int_str cnt)))"
proof -
  let ?t = "''FILE_LIST_END '' @ int_str cnt"
  show ?thesis
  proof (cases "length ?t < 64")
    case False
    with assms have "r = -1 \<and> s' = s" by (auto simp: list_end_def snprintf_def Let_def)
    then show ?thesis using said_silent [OF silent.refl, of fd s] by auto
  next
    case True
    obtain q s1 where a: "run_state (client_manager_send fd MSG_RESPONSE ?t) s = (q, s1)" by fastforce
    from client_manager_send_said [OF a] obtain w where w: "said fd w s s1" "q = 0 \<Longrightarrow> w = frame MSG_RESPONSE ?t" by metis
    define s2 where "s2 = exec (log_event (ListRequested user cnt)) s1"
    have "silent s1 s2" using io_rel_exec [OF log_event_frame(1) [THEN silent_rules(2)]] by (simp add: s2_def)
    then have "said fd w s s2" by (rule said_then_silent [OF w(1)])
    moreover have "q \<noteq> 0 \<and> r = -1 \<and> s' = s1 \<or> q = 0 \<and> r = 0 \<and> s' = s2"
      using assms True a snprintf_fits [OF True]
      by (auto simp: list_end_def s2_def Let_def split: if_splits prod.splits)
    ultimately show ?thesis using w by auto
  qed
qed

lemma conversed_said: "conversed fd k v s t \<Longrightarrow> said fd w (t\<lparr>fds := F\<rparr>) u \<Longrightarrow> conversed fd k (v @ w) s u"
  by (simp add: conversed_def said_def)

lemma reading_said: "said fd w (s\<lparr>fds := F\<rparr>) t \<Longrightarrow> touched {} s t \<and> others t = others s"
  using touched_same [of t s "{}"] by (simp add: said_def core_def others_def table_def)

text \<open>The part of the handler that runs with the directory stream open: \<open>B\<close> has been sent before, and
  \<open>R\<close> are the descriptors but the directory's.\<close>

lemma list_dir_close:
  assumes "run_state (sys_close d) t = (c, u)" and "said fd w (s\<lparr>fds := (d, FDir FILE_STORAGE_DIRECTORY j) # R\<rparr>) t"
    and "d \<notin> fst ` set R" and "\<forall>k \<in> set (ofd_locks s). fst k \<noteq> d"
  shows "said fd w (s\<lparr>fds := R\<rparr>) u"
proof -
  have "fds t = (d, FDir FILE_STORAGE_DIRECTORY j) # R" "ofd_locks t = ofd_locks s"
    using assms(2) by (simp_all add: said_def core_def)
  then have "said fd [] (t\<lparr>fds := R\<rparr>) u" using close_last [OF assms(1) _ assms(3)] assms(4) said_blip by metis
  from said_fds [OF assms(2) this] show ?thesis by simp
qed

lemma list_close_spec:
  assumes "run_state (list_close fd user d failed cnt) t = (r, s')"
    and "said fd w (s\<lparr>fds := (d, FDir FILE_STORAGE_DIRECTORY j) # R\<rparr>) t"
    and "d \<notin> fst ` set R" and "\<forall>k \<in> set (ofd_locks s). fst k \<noteq> d" and "cnt = int n"
  shows "(r = 0 \<or> r = -1) \<and> (\<exists>x. said fd (w @ x) (s\<lparr>fds := R\<rparr>) s' \<and>
    (r = 0 \<longrightarrow> (\<exists>e. x = frame MSG_ERROR e) \<or> x = FILE_LIST_END n))"
proof -
  obtain c u where cl: "run_state (sys_close d) t = (c, u)" by fastforce
  note sd = list_dir_close [OF cl assms(2-4)]
  show ?thesis
  proof (cases "failed \<or> c \<noteq> 0")
    case True
    have "run_state (do { log_event (ListReadFailed user); x \<leftarrow> send_error fd ''FILE_LIST_READ_FAILED''; ret x }) u = (r, s')"
      using assms(1) cl True by (auto simp: list_close_def split: prod.splits)
    from error_stage [OF this log_event_frame(1) [THEN silent_rules(2)]] obtain x where
      x: "said fd x u s'" "r = 0 \<or> r = -1" "r = 0 \<Longrightarrow> x = frame MSG_ERROR ''FILE_LIST_READ_FAILED''" by metis
    from said_trans [OF sd x(1)] x(2,3) show ?thesis by blast
  next
    case False
    then have "run_state (list_end fd user cnt) u = (r, s')" using assms(1) cl by (simp add: list_close_def)
    from list_end_spec [OF this] obtain x where x: "said fd x u s'" "r = 0 \<or> r = -1"
      "r = 0 \<Longrightarrow> x = FILE_LIST_END n" by (auto simp: FILE_LIST_END_def assms(5))
    from said_trans [OF sd x(1)] x(2,3) show ?thesis by blast
  qed
qed

lemma list_opened_spec:
  assumes "run_state (list_opened fd user d) s = (r, s')"
    and "fds s = (d, FDir FILE_STORAGE_DIRECTORY 0) # R" and "d \<notin> fst ` set R" and "\<forall>k \<in> set (ofd_locks s). fst k \<noteq> d"
  shows "(r = 0 \<or> r = -1) \<and> (\<exists>w. said fd w (s\<lparr>fds := R\<rparr>) s' \<and> (r = 0 \<longrightarrow>
     (\<exists>ms. subseq ms (filter (listable s) (file_names s)) \<and>
       ((\<exists>e. w = FILE_LIST_BEGIN @ list_text s ms @ frame MSG_ERROR e) \<or>
        w = FILE_LIST_BEGIN @ list_text s ms @ FILE_LIST_END (length ms) \<and>
          (fs_script s = [] \<longrightarrow> ms = filter (listable s) (file_names s))))))"
proof -
  have same: "s\<lparr>fds := (d, FDir FILE_STORAGE_DIRECTORY 0) # R\<rparr> = s" using assms(2) by simp
  obtain q s1 where a: "run_state (client_manager_send fd MSG_RESPONSE ''FILE_LIST_BEGIN'') s = (q, s1)" by fastforce
  from client_manager_send_said [OF a] obtain v where v: "said fd v s s1" "q = 0 \<Longrightarrow> v = FILE_LIST_BEGIN"
    by (metis FILE_LIST_BEGIN_def)
  show ?thesis
  proof (cases "q = 0")
    case False
    obtain c s2 where cl: "run_state (sys_close d) s1 = (c, s2)" by fastforce
    from list_dir_close [OF cl _ assms(3,4), of fd v 0] v(1) same have "said fd v (s\<lparr>fds := R\<rparr>) s2" by simp
    with assms(1) a False cl show ?thesis by (auto simp: list_opened_def)
  next
    case q: True
    define s2 where "s2 = s1\<lparr>errno := E0\<rparr>"
    have b2: "blip s1 s2" by (simp add: s2_def blip_def)
    have sd2: "said fd FILE_LIST_BEGIN (s\<lparr>fds := fds s\<rparr>) s2" using said_trans [OF v(1) said_blip [OF b2]] v(2) q by simp
    have s2: "fds s2 = (d, FDir FILE_STORAGE_DIRECTORY 0) # R" "ofd_locks s2 = ofd_locks s" "fs_script s2 = fs_script s"
      using sd2 assms(2) send_fs_script [OF a] by (simp_all add: said_def core_def s2_def)
    obtain st failed cnt s3 where lp: "list_loop fd d 0 s2 = ((st, failed, cnt), s3)" by (metis surj_pair)
    have "\<forall>k \<in> set (ofd_locks s2). fst k \<noteq> d" using assms(4) s2(2) by simp
    note D = same_filesD [OF same_files_said [OF sd2]]
    from list_loop_spec [OF lp s2(1) assms(3) \<open>\<forall>k \<in> set (ofd_locks s2). fst k \<noteq> d\<close>] obtain ms where
      ms: "subseq ms (filter (listable s) (file_names s))" "cnt = int (length ms)"
        "st = 0 \<and> (fs_script s = [] \<longrightarrow> ms = filter (listable s) (file_names s)) \<and>
          (\<exists>j. said fd (list_text s ms) (s2\<lparr>fds := (d, FDir FILE_STORAGE_DIRECTORY j) # R\<rparr>) s3) \<or>
         st = -1 \<and> (\<exists>w. said fd w (s2\<lparr>fds := R\<rparr>) s3)"
      unfolding listed_def prod.case D s2(3) by auto
    from ms(3) show ?thesis
    proof (elim disjE conjE exE)
      fix w
      assume "st = -1" "said fd w (s2\<lparr>fds := R\<rparr>) s3"
      with said_fds [OF sd2] assms(1) a q lp show ?thesis by (auto simp: list_opened_def set_errno_def s2_def)
    next
      fix j
      assume st: "st = 0" and all: "fs_script s = [] \<longrightarrow> ms = filter (listable s) (file_names s)"
        and sd3: "said fd (list_text s ms) (s2\<lparr>fds := (d, FDir FILE_STORAGE_DIRECTORY j) # R\<rparr>) s3"
      have "run_state (list_close fd user d failed cnt) s3 = (r, s')"
        using assms(1) a q lp st by (simp add: list_opened_def set_errno_def s2_def)
      from list_close_spec [OF this said_fds [OF sd2 sd3] assms(3,4) ms(2)] ms(1) all show ?thesis
        by (metis append_assoc)
    qed
  qed
qed

subsection \<open>The whole handler\<close>

text \<open>Nothing but the answer is left of a listing.\<close>

definition list_done :: "int \<Rightarrow> bool \<Rightarrow> int \<Rightarrow> server \<Rightarrow> server \<Rightarrow> bool" where
  "list_done fd quiet r s s' \<longleftrightarrow> fds s' = fds s \<and> ofd_locks s' = ofd_locks s \<and> list_outcome fd quiet r s s' \<and>
     touched {} s s' \<and> others s' = others s"

lemma list_said:
  assumes "said fd w (t\<lparr>fds := fds s\<rparr>) s'" and "reading s t" and "ofd_locks t = ofd_locks s"
  shows "conversed fd 0 w s s'" and "touched {} s s'" and "others s' = others s" and "fds s' = fds s" and "ofd_locks s' = ofd_locks s"
proof -
  show "conversed fd 0 w s s'" using conversed_said [OF conversed_socks assms(1), of s] assms(2) by (simp add: reading_def)
  show "touched {} s s'" "others s' = others s"
    using reading_said [OF assms(1)] assms(2) touched.trans unfolding reading_def by metis+
  show "fds s' = fds s" "ofd_locks s' = ofd_locks s" using assms(1,3) by (simp_all add: said_def core_def)
qed

lemma list_error:
  assumes "run_state (do { a; send_error fd m }) t = (r, s')" and "state_io_rel silent a" and "reading s t"
    and "fds t = fds s" and "ofd_locks t = ofd_locks s"
  shows "list_done fd quiet r s s'"
proof -
  have run': "run_state (do { a; r \<leftarrow> send_error fd m; ret r }) t = (r, s')" using assms(1) by (auto split: prod.splits)
  from error_stage [OF run' assms(2)] obtain w where w: "said fd w t s'" "r = 0 \<or> r = -1"
    "r = 0 \<Longrightarrow> w = frame MSG_ERROR m" by metis
  have "t\<lparr>fds := fds s\<rparr> = t" using assms(4) by (cases t) simp
  with w(1) have "said fd w (t\<lparr>fds := fds s\<rparr>) s'" by simp
  from list_said [OF this assms(3,5)] w(2,3) show ?thesis unfolding list_done_def list_outcome_def by auto
qed

lemma list_streamed:
  assumes "run_state (list_opened fd user d) t = (r, s')" and "fds t = (d, FDir FILE_STORAGE_DIRECTORY 0) # fds s"
    and "d \<notin> fst ` set (fds s)" and "\<forall>k \<in> set (ofd_locks t). fst k \<noteq> d" and "reading s t" and "ofd_locks t = ofd_locks s"
    and "listable t = listable s" "list_text t = list_text s" "file_names t = file_names s" and "quiet \<Longrightarrow> fs_script t = []"
  shows "list_done fd quiet r s s'"
proof -
  from list_opened_spec [OF assms(1-4)] obtain w where
    w: "r = 0 \<or> r = -1" "said fd w (t\<lparr>fds := fds s\<rparr>) s'" "r = 0 \<longrightarrow>
     (\<exists>ms. subseq ms (filter (listable s) (file_names s)) \<and>
       ((\<exists>e. w = FILE_LIST_BEGIN @ list_text s ms @ frame MSG_ERROR e) \<or>
        w = FILE_LIST_BEGIN @ list_text s ms @ FILE_LIST_END (length ms) \<and>
          (fs_script t = [] \<longrightarrow> ms = filter (listable s) (file_names s))))"
    unfolding assms(7-9) by blast
  then show ?thesis using list_said [OF w(2) assms(5,6)] assms(10) unfolding list_done_def list_outcome_def by blast
qed

lemma list_directory:
  assumes "run_state open_storage_directory s1 = (d, s2)" and "\<not> d < 0" and "run_state (sys_fdopendir d) s2 = (opened, s3)"
    and "reading s s1" and "fds s1 = fds s" and "ofd_locks s1 = ofd_locks s" and "wf_locks s1"
  shows "fds s3 = (d, FDir FILE_STORAGE_DIRECTORY 0) # fds s" "ofd_locks s3 = ofd_locks s" "reading s s3" "same_files s1 s3"
    "d \<notin> fst ` set (fds s)" "\<forall>k \<in> set (ofd_locks s3). fst k \<noteq> d"
proof -
  from open_storage_spec [OF assms(1,7)] assms(2) have d: "d = fresh_fd (fds s1)"
    and b: "blip (s1\<lparr>fds := (d, FDir FILE_STORAGE_DIRECTORY 0) # fds s1\<rparr>) s2" by auto
  note b3 = blip_trans [OF b state_io_relD [OF blip_queries(5) assms(3)]]
  show "fds s3 = (d, FDir FILE_STORAGE_DIRECTORY 0) # fds s" and ofd: "ofd_locks s3 = ofd_locks s"
    using blipD [OF b3] assms(5,6) by auto
  show "reading s s3" using reading.trans [OF assms(4) reading_blip [OF b3]] .
  show "same_files s1 s3" by (rule same_files_said [OF said_blip [OF b3]])
  show new: "d \<notin> fst ` set (fds s)" using fresh_fd_props [of "fds s"] d assms(5) by auto
  then show "\<forall>k \<in> set (ofd_locks s3). fst k \<noteq> d" using assms(5-7) ofd by (auto simp: wf_locks_def)
qed

lemma handle_list_spec:
  assumes "run_state (file_manager_handle_list fd user) s = (r, s')" and "wf_locks s" and "wf_storage s"
  shows "fds s' = fds s \<and> ofd_locks s' = ofd_locks s \<and> list_outcome fd (unscripted s) r s s' \<and>
    touched {} s s' \<and> others s' = others s"
proof -
  obtain q s1 where en: "run_state ensure_storage_directory s = (q, s1)" by fastforce
  obtain d s2 where op: "run_state open_storage_directory s1 = (d, s2)" by fastforce
  obtain opened s3 where fo: "run_state (sys_fdopendir d) s2 = (opened, s3)" by fastforce
  obtain c s4 where cl: "run_state (sys_close d) s3 = (c, s4)" by fastforce
  note e = ensure_storage_spec [OF en, of "{}"] and names1 = ensure_names [OF en assms(3)]
  have rd1: "reading s s1" using e by (simp add: reading_fs)
  have st1: "stored s1 = stored s" using reading_stored [OF rd1 assms(3)] by blast
  have s1: "fds s1 = fds s" "ofd_locks s1 = ofd_locks s" "wf_locks s1" using assms(2) e by (simp_all add: wf_locks_def)
  note unf = file_manager_handle_list_def and err = list_error [where s = s and quiet = "unscripted s"]
  have noop: "state_io_rel silent (ret ())" by (intro silent_base)
  consider "q \<noteq> 0" | "q = 0" "d < 0" | (dir) "q = 0" "\<not> d < 0" by blast
  then have "list_done fd (unscripted s) r s s'"
  proof cases
    case 1
    with assms(1) en have "run_state (do { ret (); send_error fd ''STORAGE_UNAVAILABLE'' }) s1 = (r, s')" by (simp add: unf)
    from err [OF this noop rd1 s1(1,2)] show ?thesis .
  next
    case 2
    then have b: "blip s1 s2" using open_storage_spec [OF op s1(3)] fresh_fd_props(2) [of "fds s1"] by auto
    have run: "run_state (do { log_event_errno ListOpenFailed; send_error fd ''FILE_LIST_OPEN_FAILED'' }) s2 = (r, s')"
      using assms(1) en op 2 by (simp add: unf)
    have "reading s s2" "fds s2 = fds s" "ofd_locks s2 = ofd_locks s"
      using reading.trans [OF rd1 reading_fs] touched_blip [OF b] blipD [OF b] e by (auto simp: fs_rest_def)
    from err [OF run log_event_frame(2) [THEN silent_rules(2)] this] show ?thesis .
  next
    case dir
    note L = list_directory [OF op dir(2) fo rd1 s1]
    show ?thesis
    proof (cases opened)
      case False
      define s5 where "s5 = s4\<lparr>errno := errno s3\<rparr>"
      have "blip (s3\<lparr>fds := fds s\<rparr>) s4" using close_last [OF cl L(1,5,6)] by blast
      moreover have "blip s4 s5" by (simp add: s5_def blip_def)
      ultimately have b5: "blip (s3\<lparr>fds := fds s\<rparr>) s5" by (rule blip_trans)
      have run: "run_state (do { ret (); send_error fd ''FILE_LIST_OPEN_FAILED'' }) s5 = (r, s')"
        using assms(1) en op dir fo False cl by (simp add: unf set_errno_def s5_def)
      have "reading s s5" "fds s5 = fds s" "ofd_locks s5 = ofd_locks s"
        using reading.trans [OF L(3) reading_blip [OF b5]] blipD [OF b5] L(2) by auto
      from err [OF run noop this] show ?thesis .
    next
      case True
      then have run: "run_state (list_opened fd user d) s3 = (r, s')" using assms(1) en op dir fo by (simp add: unf)
      note D = same_filesD [OF L(4)]
      have un: "unscripted s \<Longrightarrow> fs_script s3 = []"
        using keeps_run [OF unscripted_calls(1) en] keeps_run [OF unscripted_calls(2) op]
          keeps_run [OF unscripted_calls(3) fo] by (simp add: unscripted_def)
      show ?thesis
        by (rule list_streamed [OF run L(1,5,6,3,2)]) (use D names1 stored_eqD [OF st1] un in simp_all)
    qed
  qed
  then show ?thesis by (simp add: list_done_def)
qed

end
