(* ===== verification/File_Properties.thy ===== *)
theory File_Properties
  imports Listing_Spec Online
begin

section \<open>The properties of the shared files\<close>

text \<open>
  What the file manager and the file locks promise, for every sequence of interruptions,
  short transfers and failures of the calls they make. \<open>shared\<close> is what users see: the
  files under names that a request can carry.
\<close>

definition shared :: "'z os_scheme \<Rightarrow> string \<rightharpoonup> inode" where
  "shared s = (stored s) |` Collect is_valid_shared_filename"

lemma shared_touched:
  assumes "touched X s s'" and "wf_storage s" and "\<And>n. n \<in> X \<Longrightarrow> \<not> is_valid_shared_filename n"
  shows "shared s' = shared s"
  using assms by (force simp: shared_def touched_def restrict_map_def fun_eq_iff)

lemma shared_published:
  assumes "published fd f n tmp s s'" and "wf_storage s" and "\<not> is_valid_shared_filename tmp"
    and "is_valid_shared_filename f"
  shows "f \<notin> dom (shared s) \<and> n \<le> length (inbox (socks s fd)) \<and> shared s' =
    (shared s)(f \<mapsto> \<lparr>ikind = IReg, content = take n (inbox (socks s fd)), imode = 420\<rparr>)"
  using assms by (auto simp: published_def shared_def touched_def restrict_map_def fun_eq_iff dom_def)

subsection \<open>Two storages\<close>

text \<open>A storage with one shared file, and a connection on which an upload's bytes wait.\<close>

definition library :: server where
  "library = alice_only\<lparr>dirs := (\<lambda>p. if p = FILE_STORAGE_DIRECTORY
       then \<lparr>dkind = DDir, ents = [(''a.txt'', 0)]\<rparr> else \<lparr>dkind = DMissing, ents = []\<rparr>),
     inodes := (\<lambda>_. \<lparr>ikind = IReg, content = ''hello'', imode = 420\<rparr>), next_ino := 1\<rparr>"

definition sending :: server where
  "sending = library\<lparr>socks := (socks library)(3 := \<lparr>inbox = ''new'' @ ''rest'', outbox = [], shut = False\<rparr>)\<rparr>"

lemma library_wf: "wf_locks library" "wf_storage library" "wf_locks sending" "wf_storage sending"
  by (simp_all add: wf_locks_def wf_storage_def entry_def sending_def library_def alice_only_def nobody_def
      boot_def register_entry_def upd_entry_def)

subsection \<open>Uploads\<close>

lemma parsed_upload_effect:
  assumes "run_state (file_manager_handle_upload fd user metadata) s = (r, s')"
    and "wf_locks s" and "wf_storage s" and P: "parse_upload_metadata metadata FILE_NAME_MAX_SIZE = Some (f, n)"
  shows "shared s' = shared s \<or> f \<notin> dom (shared s) \<and> n \<le> length (inbox (socks s fd)) \<and> shared s' =
      (shared s)(f \<mapsto> \<lparr>ikind = IReg, content = take n (inbox (socks s fd)), imode = 420\<rparr>)"
proof -
  have valid: "is_valid_shared_filename f" by (rule parse_metadata_sound(1) [OF P])
  have "touched {temp_name fd s} s s' \<or> published fd f n (temp_name fd s) s s'"
    using handle_upload_spec [OF assms] unfolding upload_outcome_def by blast
  then show ?thesis
    using shared_touched [OF _ assms(3)] shared_published [OF _ assms(3) temp_name_hidden valid] temp_name_hidden by blast
qed

text \<open>C2: whatever fails on the way, an upload returns with every descriptor and every lock it
  took given back; the shared files are either exactly what they were, or exactly one file
  is new: the requested one, whose name was free, complete and world readable.\<close>

theorem upload_is_all_or_nothing:
  assumes "run_state (file_manager_handle_upload fd user metadata) s = (r, s')"
    and "wf_locks s" and "wf_storage s"
  shows "fds s' = fds s \<and> set (ofd_locks s') \<subseteq> set (ofd_locks s) \<and> (r = 0 \<or> r = -1) \<and>
    (shared s' = shared s \<or>
     (\<exists>f n. parse_upload_metadata metadata FILE_NAME_MAX_SIZE = Some (f, n) \<and> f \<notin> dom (shared s) \<and>
       n \<le> length (inbox (socks s fd)) \<and> shared s' =
         (shared s)(f \<mapsto> \<lparr>ikind = IReg, content = take n (inbox (socks s fd)), imode = 420\<rparr>)))"
proof (cases "parse_upload_metadata metadata FILE_NAME_MAX_SIZE")
  case None
  with assms(1) have run: "run_state (do { log_event (RejectedUploadMetadata user);
      send_error fd ''INVALID_UPLOAD_METADATA'' }) s = (r, s')" by (simp add: file_manager_handle_upload_def)
  from reply_outcome [OF run log_event_frame(1) [THEN silent_rules(2)]] have
    "fds s' = fds s" "rest s' = rest s" "upload_outcome fd [] 0 (temp_name fd s) r s s'" by auto
  moreover have "touched {} s s'"
  proof -
    have "answered fd [] None r (fds s) s s'"
      using answered_error [OF run log_event_frame(1) [THEN silent_rules(2)]] silent.refl by simp
    then show ?thesis using touched_core by (auto simp: answered_def said_def)
  qed
  then have "shared s' = shared s" by (rule shared_touched [OF _ assms(3)]) simp
  ultimately show ?thesis using outcome_result by (simp add: rest_others)
next
  case (Some fn)
  obtain f n where fn: "fn = (f, n)" by fastforce
  note P = Some [unfolded fn]
  note U = handle_upload_spec [OF assms P]
  have "shared s' = shared s \<or> f \<notin> dom (shared s) \<and> n \<le> length (inbox (socks s fd)) \<and> shared s' =
      (shared s)(f \<mapsto> \<lparr>ikind = IReg, content = take n (inbox (socks s fd)), imode = 420\<rparr>)"
    by (rule parsed_upload_effect [OF assms P])
  then show ?thesis using U P outcome_result by blast
qed

theorem upload_is_all_or_nothing_witness:
  "fds (exec (file_manager_handle_upload 3 ''alice'' ''b.txt|3'') sending) = [(3, FSock), (4, FSock), (5, FSock)] \<and>
   shared (exec (file_manager_handle_upload 3 ''alice'' ''b.txt|3'') sending) ''a.txt'' = shared sending ''a.txt''"
proof -
  let ?t = "exec (file_manager_handle_upload 3 ''alice'' ''b.txt|3'') sending"
  have "fds sending = [(3, FSock), (4, FSock), (5, FSock)]"
    by (simp add: sending_def library_def alice_only_def nobody_def boot_def register_entry_def upd_entry_def)
  moreover have "''a.txt'' \<in> dom (shared sending)"
  proof -
    have "is_valid_shared_filename ''a.txt''" by code_simp
    then show ?thesis
      by (simp add: dom_def shared_def stored_def entry_def sending_def library_def)
  qed
  ultimately show ?thesis
    using upload_is_all_or_nothing [OF surjective_pairing library_wf(3,4), of 3 "''alice''" "''b.txt|3''"]
    by (auto split: if_splits)
qed

text \<open>C14: when an upload returns 0, the connection stays usable: the client has been sent either
  one error frame and none of its bytes were read, or the go-ahead and one more frame, and
  exactly the announced number of bytes was read; the frame says success exactly when the
  file is now shared.\<close>

theorem upload_keeps_the_stream_aligned:
  assumes "run_state (file_manager_handle_upload fd user metadata) s = (0, s')"
    and "wf_locks s" and "wf_storage s"
    and "parse_upload_metadata metadata FILE_NAME_MAX_SIZE = Some (f, n)"
  shows "\<exists>w. (outbox (socks s' fd) = outbox (socks s fd) @ frame MSG_ERROR w \<and>
        inbox (socks s' fd) = inbox (socks s fd) \<and> shared s' = shared s) \<or>
      (outbox (socks s' fd) = outbox (socks s fd) @ UPLOAD_READY @ frame MSG_ERROR w \<and>
        inbox (socks s fd) = take n (inbox (socks s fd)) @ inbox (socks s' fd) \<and>
        n \<le> length (inbox (socks s fd)) \<and> shared s' = shared s) \<or>
      (outbox (socks s' fd) = outbox (socks s fd) @ UPLOAD_READY @ UPLOAD_SUCCESS f n \<and>
        inbox (socks s fd) = take n (inbox (socks s fd)) @ inbox (socks s' fd) \<and>
        n \<le> length (inbox (socks s fd)) \<and>
        shared s' f = Some \<lparr>ikind = IReg, content = take n (inbox (socks s fd)), imode = 420\<rparr>)"
proof -
  let ?tmp = "temp_name fd s"
  have valid: "is_valid_shared_filename f" by (rule parse_metadata_sound(1) [OF assms(4)])
  have quiet: "touched {?tmp} s s' \<Longrightarrow> shared s' = shared s"
    using shared_touched [OF _ assms(3)] temp_name_hidden by blast
  have pub: "published fd f n ?tmp s s' \<Longrightarrow>
      shared s' f = Some \<lparr>ikind = IReg, content = take n (inbox (socks s fd)), imode = 420\<rparr>"
    by (drule shared_published [OF _ assms(3) temp_name_hidden valid]) simp
  from handle_upload_spec [OF assms] show ?thesis
    unfolding upload_outcome_def conversed_def using quiet pub by (elim conjE exE disjE) auto
qed

lemma existing_refused: "eval_in (file_manager_handle_upload 3 ''alice'' ''a.txt|3'') library = 0"
  by code_simp

lemma a_3_parsed: "parse_upload_metadata ''a.txt|3'' FILE_NAME_MAX_SIZE = Some (''a.txt'', 3)"
  by code_simp

theorem upload_keeps_the_stream_aligned_witness:
  "\<exists>w. outbox (socks (exec (file_manager_handle_upload 3 ''alice'' ''a.txt|3'') library) 3) = frame MSG_ERROR w"
proof -
  let ?t = "exec (file_manager_handle_upload 3 ''alice'' ''a.txt|3'') library"
  have run: "run_state (file_manager_handle_upload 3 ''alice'' ''a.txt|3'') library = (0, ?t)"
    using existing_refused by (metis prod.collapse)
  have "outbox (socks library 3) = []" "inbox (socks library 3) = []"
    by (simp_all add: library_def alice_only_def nobody_def boot_def register_entry_def upd_entry_def)
  with upload_keeps_the_stream_aligned [OF run library_wf(1,2) a_3_parsed] show ?thesis by auto
qed

subsection \<open>Downloads\<close>

text \<open>C13: a download changes no shared file, gives back its descriptors and locks, and when it
  returns 0 the client has been sent either one error frame or the announcement of the
  requested file followed by all of its bytes and nothing else.\<close>

theorem download_sends_the_file:
  assumes "run_state (file_manager_handle_download fd user f) s = (r, s')" and "wf_locks s" and "wf_storage s"
  shows "shared s' = shared s \<and> fds s' = fds s \<and> set (ofd_locks s') \<subseteq> set (ofd_locks s) \<and>
    inbox (socks s' fd) = inbox (socks s fd) \<and> (\<forall>x. x \<noteq> fd \<longrightarrow> socks s' x = socks s x) \<and>
    (r = -1 \<or> (\<exists>e. outbox (socks s' fd) = outbox (socks s fd) @ frame MSG_ERROR e) \<or>
     (\<exists>x. stored s f = Some x \<and> ikind x = IReg \<and> length (content x) \<le> FILE_MAX_SIZE \<and>
        outbox (socks s' fd) = outbox (socks s fd) @ DOWNLOAD_READY f (length (content x)) @ content x))"
proof -
  note D = handle_download_spec [OF assms]
  from D obtain w where w: "conversed fd 0 w s s'" "r = 0 \<or> r = -1"
    "r = 0 \<longrightarrow> (\<exists>e. w = frame MSG_ERROR e) \<or> (\<exists>x. stored s f = Some x \<and> served f x w)"
    by (auto simp: download_outcome_def)
  have "shared s' = shared s" using shared_touched [OF _ assms(3), of "{}" s'] D by blast
  moreover have "r = -1 \<or> (\<exists>e. outbox (socks s' fd) = outbox (socks s fd) @ frame MSG_ERROR e) \<or>
     (\<exists>x. stored s f = Some x \<and> ikind x = IReg \<and> length (content x) \<le> FILE_MAX_SIZE \<and>
        outbox (socks s' fd) = outbox (socks s fd) @ DOWNLOAD_READY f (length (content x)) @ content x)"
    using w by (auto simp: conversed_def served_def)
  ultimately show ?thesis using D w(1) by (simp add: conversed_def)
qed

theorem download_sends_the_file_witness:
  "fds (exec (file_manager_handle_download 3 ''alice'' ''a.txt'') library) = fds library \<and>
   shared (exec (file_manager_handle_download 3 ''alice'' ''a.txt'') library) = shared library"
  using download_sends_the_file [OF surjective_pairing library_wf(1,2), of 3 "''alice''" "''a.txt''"] by blast

subsection \<open>Listings\<close>

text \<open>C15: a listing changes nothing but the client's stream; when it returns 0 the client has been
  sent one error frame, or the opening frame, one line for each of some of the shared files,
  and either an error frame or the closing frame that counts those lines. If no file call
  fails, a closed listing names every regular shared file that fits the size limit.\<close>

theorem listing_is_faithful:
  assumes "run_state (file_manager_handle_list fd user) s = (r, s')" and "wf_locks s" and "wf_storage s"
  shows "shared s' = shared s \<and> fds s' = fds s \<and> ofd_locks s' = ofd_locks s \<and>
    (\<exists>w. socks s' = (socks s)(fd := (socks s fd)\<lparr>outbox := outbox (socks s fd) @ w\<rparr>) \<and>
      (r = -1 \<or> (\<exists>e. w = frame MSG_ERROR e) \<or>
       (\<exists>ms. subseq ms (filter (listable s) (file_names s)) \<and>
         ((\<exists>e. w = FILE_LIST_BEGIN @ list_text s ms @ frame MSG_ERROR e) \<or>
          w = FILE_LIST_BEGIN @ list_text s ms @ FILE_LIST_END (length ms) \<and>
            (fs_script s = [] \<longrightarrow> ms = filter (listable s) (file_names s))))))"
proof -
  note L = handle_list_spec [OF assms]
  then obtain w where w: "conversed fd 0 w s s'" "r = 0 \<or> r = -1"
    "r = 0 \<longrightarrow> (\<exists>e. w = frame MSG_ERROR e) \<or>
     (\<exists>ms. subseq ms (filter (listable s) (file_names s)) \<and>
       ((\<exists>e. w = FILE_LIST_BEGIN @ list_text s ms @ frame MSG_ERROR e) \<or>
        w = FILE_LIST_BEGIN @ list_text s ms @ FILE_LIST_END (length ms) \<and>
          (fs_script s = [] \<longrightarrow> ms = filter (listable s) (file_names s))))"
    by (auto simp: list_outcome_def unscripted_def)
  have "shared s' = shared s" using shared_touched [OF _ assms(3), of "{}" s'] L by blast
  moreover have "socks s' = (socks s)(fd := (socks s fd)\<lparr>outbox := outbox (socks s fd) @ w\<rparr>)"
    using w(1) by (simp add: conversed_def)
  ultimately show ?thesis using L w(2,3) by blast
qed

lemma library_lists: "eval_in (file_manager_handle_list 3 ''alice'') library = 0"
  by code_simp

lemma library_empty: "outbox (socks library 3) = []"
  by (simp add: library_def alice_only_def nobody_def boot_def register_entry_def upd_entry_def)

theorem listing_is_faithful_witness:
  "fds (exec (file_manager_handle_list 3 ''alice'') library) = fds library \<and>
   outbox (socks (exec (file_manager_handle_list 3 ''alice'') library) 3) \<noteq> []"
proof -
  have ne: "frame t p \<noteq> []" for t p using length_frame [of t p] by (auto simp del: length_frame)
  show ?thesis
    using listing_is_faithful [OF surjective_pairing library_wf(1,2), of 3 "''alice''"] library_lists library_empty ne
    by (auto simp: FILE_LIST_BEGIN_def)
qed



subsection \<open>Names and metadata\<close>

text \<open>A valid name and a number never hold the separator.\<close>

lemma name_bar: "is_valid_shared_filename f \<Longrightarrow> strchr (f @ ''|'' @ xs) (CHR ''|'') = Some (length f)"
  using valid_filename_chars [of f] by (auto simp: strchr_Some_iff nth_append)

lemma number_bar: "strchr (nat_str n) (CHR ''|'') = None"
proof -
  have "CHR ''|'' \<notin> set (nat_str n)" using nat_str_digits [of n] by (auto simp: isdigit_def)
  then show ?thesis by (simp add: strchr_None_iff)
qed

lemma metadata_parsed:
  assumes "is_valid_shared_filename f" and "n \<le> FILE_MAX_SIZE"
  shows "parse_upload_metadata (f @ ''|'' @ nat_str n) FILE_NAME_MAX_SIZE = Some (f, n)"
proof -
  have "n \<le> ULLONG_MAX" using assms(2) by (simp add: ULLONG_MAX_def FILE_MAX_SIZE_def)
  then show ?thesis
    using assms name_bar [OF assms(1), of "nat_str n"] number_bar [of n] valid_filename_length [of f]
    by (simp add: parse_upload_metadata_def strtoull_nat_str FILE_NAME_MAX_SIZE_def Let_def)
qed

text \<open>C31: the metadata a client sends for a valid name and an allowed size is read back as that
  name and that size; whatever is accepted has a valid name and an allowed size.\<close>

theorem upload_metadata_round_trip:
  "(is_valid_shared_filename f \<and> n \<le> FILE_MAX_SIZE \<longrightarrow>
     parse_upload_metadata (f @ ''|'' @ nat_str n) FILE_NAME_MAX_SIZE = Some (f, n)) \<and>
   (parse_upload_metadata m FILE_NAME_MAX_SIZE = Some (g, k) \<longrightarrow>
     is_valid_shared_filename g \<and> k \<le> FILE_MAX_SIZE \<and> prefix (g @ ''|'') m)"
proof (intro conjI impI)
  assume "is_valid_shared_filename f \<and> n \<le> FILE_MAX_SIZE"
  then show "parse_upload_metadata (f @ ''|'' @ nat_str n) FILE_NAME_MAX_SIZE = Some (f, n)"
    using metadata_parsed by blast
next
  assume p: "parse_upload_metadata m FILE_NAME_MAX_SIZE = Some (g, k)"
  show "is_valid_shared_filename g" "k \<le> FILE_MAX_SIZE" by (rule parse_metadata_sound [OF p])+
  from p obtain i where i: "strchr m (CHR ''|'') = Some i" and g: "g = take i m"
    by (auto simp: parse_upload_metadata_def Let_def split: if_splits option.splits prod.splits)
  from i have "i < length m" "m ! i = CHR ''|''" by (auto simp: strchr_Some_iff)
  then have "m = (g @ ''|'') @ drop (Suc i) m" using g id_take_nth_drop [of i m] by simp
  then show "prefix (g @ ''|'') m" by (metis prefixI)
qed

theorem upload_metadata_round_trip_witness:
  "parse_upload_metadata (''b.txt'' @ ''|'' @ nat_str 3) FILE_NAME_MAX_SIZE = Some (''b.txt'', 3)"
proof -
  have "is_valid_shared_filename ''b.txt''" by code_simp
  then show ?thesis using upload_metadata_round_trip [of "''b.txt''" 3] by (simp add: FILE_MAX_SIZE_def)
qed


text \<open>C29: the file-name check accepts exactly the names of 1 to 127 letters, digits, underscores,
  hyphens and dots that start with a letter, digit or underscore and hold no two dots in a row;
  so an accepted name is one component of a path, not hidden, and never climbs out of the
  storage directory.\<close>

theorem shared_names_stay_inside:
  "(is_valid_shared_filename f \<longleftrightarrow>
     0 < length f \<and> length f < 128 \<and> (isalnum (hd f) \<or> hd f = CHR ''_'') \<and> \<not> sublist ''..'' f \<and>
     set f \<subseteq> {c. isalnum c \<or> c \<in> set ''_-.''}) \<and>
   (is_valid_shared_filename f \<longrightarrow> CHR ''/'' \<notin> set f \<and> NUL \<notin> set f \<and> hd f \<noteq> CHR ''.'' \<and> f \<noteq> ''..'')"
proof
  show "is_valid_shared_filename f \<longleftrightarrow>
     0 < length f \<and> length f < 128 \<and> (isalnum (hd f) \<or> hd f = CHR ''_'') \<and> \<not> sublist ''..'' f \<and>
     set f \<subseteq> {c. isalnum c \<or> c \<in> set ''_-.''}"
    unfolding is_valid_shared_filename_iff sublist_def by (auto simp: subset_iff)
  show "is_valid_shared_filename f \<longrightarrow> CHR ''/'' \<notin> set f \<and> NUL \<notin> set f \<and> hd f \<noteq> CHR ''.'' \<and> f \<noteq> ''..''"
    using valid_filename_chars [of f] valid_filename_hd [of f] by auto
qed

theorem shared_names_stay_inside_witness:
  "is_valid_shared_filename ''a.txt'' \<and> CHR ''/'' \<notin> set ''a.txt''"
proof -
  have "is_valid_shared_filename ''a.txt''" by code_simp
  then show ?thesis using shared_names_stay_inside [of "''a.txt''"] by blast
qed

subsection \<open>Locks\<close>

text \<open>C25: a lock that was granted is held through a new descriptor on the lock file of that name,
  with no conflicting lock beside it; releasing it gives back that descriptor and that lock,
  whatever \<open>fcntl\<close> and \<open>close\<close> report, and the shared files are untouched throughout.\<close>

theorem lock_is_exclusive_and_returned:
  assumes "run_state (file_lock_acquire f mode) s = (l, t)" and "wf_locks s" and "wf_storage s" and "0 \<le> l"
    and "run_state (file_lock_release l) t = (r, u)"
  shows "l \<notin> fst ` set (fds s) \<and>
    (\<exists>i. entry t FILE_LOCK_DIRECTORY (lock_name f) = Some i \<and> (l, i, lock_type_of mode) \<in> set (ofd_locks t) \<and>
      (\<forall>x j k. (x, j, k) \<in> set (ofd_locks t) \<and> x \<noteq> l \<and> j = i \<longrightarrow> \<not> lock_conflict (lock_type_of mode) k)) \<and>
    fds u = fds s \<and> set (ofd_locks u) \<subseteq> set (ofd_locks s) \<and> shared t = shared s \<and> shared u = shared s"
proof -
  note A = file_lock_acquire_spec [OF assms(1,2)]
  have sd: "side s t" using A by blast
  from A assms(4) obtain i where l: "l \<notin> fst ` set (fds s)" "fds t = (l, FReg i 0) # fds s"
    "entry t FILE_LOCK_DIRECTORY (lock_name f) = Some i"
    "ofd_locks t = (l, i, lock_type_of mode) #
      filter (\<lambda>(fd', i', t'). fd' \<noteq> l \<and> \<not> (i' = i \<and> lock_conflict (lock_type_of mode) t')) (ofd_locks s)"
    by (auto simp: locked_def)
  have b: "blip ((without_lock l t)\<lparr>fds := fds s\<rparr>) u"
    using file_lock_release_spec [OF assms(5) l(2,1) assms(4)] by blast
  have "touched {} t ((without_lock l t)\<lparr>fds := fds s\<rparr>)" by (rule touched_same) (simp_all add: without_lock_def)
  then have "touched {} t u" using touched_blip [OF b] by (rule touched.trans)
  then have "touched {} s u" by (rule touched.trans [OF touched_side [OF sd]])
  then have "shared t = shared s" "shared u = shared s"
    using shared_touched [OF _ assms(3)] touched_side [OF sd, of "{}"] by blast+
  moreover have "fds u = fds s" "set (ofd_locks u) \<subseteq> set (ofd_locks s)"
    using blipD(1,5) [OF b] by (auto simp: without_lock_def l(4))
  ultimately show ?thesis using l by auto
qed

lemma library_locks: "eval_in (file_lock_acquire ''a.txt'' FILE_LOCK_EXCLUSIVE) library = 1"
  by code_simp

theorem lock_is_exclusive_and_returned_witness:
  "fds (exec (file_lock_release 1) (exec (file_lock_acquire ''a.txt'' FILE_LOCK_EXCLUSIVE) library)) = fds library"
proof -
  have "run_state (file_lock_acquire ''a.txt'' FILE_LOCK_EXCLUSIVE) library =
      (1, exec (file_lock_acquire ''a.txt'' FILE_LOCK_EXCLUSIVE) library)"
    using library_locks by (metis prod.collapse)
  from lock_is_exclusive_and_returned [OF this library_wf(1,2) _ surjective_pairing] show ?thesis by simp
qed

end
