(* ===== verification/Handler_Events.thy ===== *)
theory Handler_Events
  imports Logger_Client
begin

section \<open>What the client handler logs\<close>

text \<open>
  One constant per call of \<open>logger_client_log\<close> in \<open>src/server/client_handler.c\<close>, a
  function of the values it formats: the level, the source and the text. No entry takes the
  text of a chat or private message.
\<close>

definition RejectedMessageType :: "u32 \<Rightarrow> int \<Rightarrow> log_entry" where
  "RejectedMessageType t fd = (LOG_WARN, ''CLIENT_HANDLER'',
     ''Rejected invalid message type '' @ nat_str (unat t) @ '' on socket '' @ int_str fd)"

definition RejectedOversized :: "u32 \<Rightarrow> int \<Rightarrow> log_entry" where
  "RejectedOversized n fd = (LOG_WARN, ''CLIENT_HANDLER'',
     ''Rejected oversized payload length='' @ nat_str (unat n) @ '' socket='' @ int_str fd)"

definition LoginRequestFailed :: "int \<Rightarrow> log_entry" where
  "LoginRequestFailed fd = (LOG_ERROR, ''AUTH'', ''Failed to request username socket='' @ int_str fd)"

definition LoginDisconnected :: "int \<Rightarrow> log_entry" where
  "LoginDisconnected fd =
     (LOG_WARN, ''AUTH'', ''Client disconnected or failed during login socket='' @ int_str fd)"

definition LoginNonLogin :: "int \<Rightarrow> log_entry" where
  "LoginNonLogin fd =
     (LOG_WARN, ''AUTH'', ''Rejected non-login message during authentication socket='' @ int_str fd)"

definition LoginInvalidUsername :: "int \<Rightarrow> log_entry" where
  "LoginInvalidUsername fd = (LOG_WARN, ''AUTH'', ''Rejected invalid username socket='' @ int_str fd)"

definition LoginDuplicate :: "string \<Rightarrow> log_entry" where
  "LoginDuplicate u = (LOG_WARN, ''AUTH'', ''Duplicate username rejected username='' @ u)"

definition LoginUnableToRegister :: "string \<Rightarrow> log_entry" where
  "LoginUnableToRegister u = (LOG_ERROR, ''AUTH'', ''Unable to register username='' @ u)"

definition id_user :: "int \<Rightarrow> string \<Rightarrow> string" where
  "id_user i u = ''client_id='' @ int_str i @ '' username='' @ u"

definition LoginSendFailed :: "int \<Rightarrow> string \<Rightarrow> log_entry" where
  "LoginSendFailed i u = (LOG_ERROR, ''AUTH'', ''Failed to send login success '' @ id_user i u)"

definition LoginSuccess :: "int \<Rightarrow> string \<Rightarrow> log_entry" where
  "LoginSuccess i u = (LOG_INFO, ''AUTH'', ''Login success '' @ id_user i u)"

definition ThreadStarted :: "nat \<Rightarrow> int \<Rightarrow> log_entry" where
  "ThreadStarted t fd = (LOG_DEBUG, ''CLIENT_HANDLER'',
     ''Client thread started thread='' @ nat_str t @ '' socket='' @ int_str fd)"

definition UnregisteredTerminated :: "nat \<Rightarrow> log_entry" where
  "UnregisteredTerminated t =
     (LOG_DEBUG, ''CLIENT_HANDLER'', ''Unregistered client thread terminated thread='' @ nat_str t)"

definition UnexpectedDisconnect :: "int \<Rightarrow> string \<Rightarrow> log_entry" where
  "UnexpectedDisconnect i u = (LOG_INFO, ''CLIENT_HANDLER'', ''Unexpected disconnect '' @ id_user i u)"

definition ReceiveError :: "int \<Rightarrow> string \<Rightarrow> log_entry" where
  "ReceiveError i u = (LOG_WARN, ''CLIENT_HANDLER'', ''Receive/protocol error '' @ id_user i u)"

definition BroadcastFailed :: "int \<Rightarrow> string \<Rightarrow> log_entry" where
  "BroadcastFailed i u = (LOG_ERROR, ''CLIENT_HANDLER'', ''Broadcast failed '' @ id_user i u)"

definition BroadcastSent :: "string \<Rightarrow> int \<Rightarrow> log_entry" where
  "BroadcastSent u n = (LOG_INFO, ''CLIENT_HANDLER'',
     ''Broadcast sender='' @ u @ '' recipients='' @ int_str n)"

definition PrivateUnavailable :: "string \<Rightarrow> string \<Rightarrow> log_entry" where
  "PrivateUnavailable u t = (LOG_WARN, ''CLIENT_HANDLER'',
     ''Private message target unavailable sender='' @ u @ '' target='' @ t)"

definition PrivateFailed :: "string \<Rightarrow> string \<Rightarrow> log_entry" where
  "PrivateFailed u t = (LOG_ERROR, ''CLIENT_HANDLER'',
     ''Private message delivery failed sender='' @ u @ '' target='' @ t)"

definition PrivateSent :: "string \<Rightarrow> string \<Rightarrow> log_entry" where
  "PrivateSent u t = (LOG_INFO, ''CLIENT_HANDLER'',
     ''Private message sender='' @ u @ '' recipient='' @ t)"

definition UserListFailed :: "string \<Rightarrow> log_entry" where
  "UserListFailed u = (LOG_ERROR, ''CLIENT_HANDLER'', ''User list generation failed requester='' @ u)"

definition UserListRequested :: "string \<Rightarrow> int \<Rightarrow> log_entry" where
  "UserListRequested u n = (LOG_DEBUG, ''CLIENT_HANDLER'',
     ''User list requested username='' @ u @ '' count='' @ int_str n)"

definition GracefulDisconnect :: "int \<Rightarrow> string \<Rightarrow> log_entry" where
  "GracefulDisconnect i u =
     (LOG_INFO, ''CLIENT_HANDLER'', ''Graceful disconnect requested '' @ id_user i u)"

definition RepeatedLogin :: "string \<Rightarrow> log_entry" where
  "RepeatedLogin u = (LOG_WARN, ''CLIENT_HANDLER'', ''Repeated login attempt username='' @ u)"

definition InvalidClientType :: "u32 \<Rightarrow> string \<Rightarrow> log_entry" where
  "InvalidClientType t u = (LOG_WARN, ''CLIENT_HANDLER'',
     ''Invalid client-originated message type='' @ nat_str (unat t) @ '' username='' @ u)"

definition UnknownType :: "u32 \<Rightarrow> string \<Rightarrow> log_entry" where
  "UnknownType t u = (LOG_WARN, ''CLIENT_HANDLER'',
     ''Unknown message type='' @ nat_str (unat t) @ '' username='' @ u)"

definition RemovalFailed :: "int \<Rightarrow> string \<Rightarrow> log_entry" where
  "RemovalFailed i u =
     (LOG_ERROR, ''CLIENT_HANDLER'', ''Client manager removal failed '' @ id_user i u)"

definition ClientRemoved :: "int \<Rightarrow> string \<Rightarrow> nat \<Rightarrow> log_entry" where
  "ClientRemoved i u n = (LOG_INFO, ''CLIENT_HANDLER'',
     ''Client removed '' @ id_user i u @ '' active_clients='' @ nat_str n)"

definition ThreadTerminated :: "nat \<Rightarrow> string \<Rightarrow> log_entry" where
  "ThreadTerminated t u = (LOG_DEBUG, ''CLIENT_HANDLER'',
     ''Client thread terminated thread='' @ nat_str t @ '' username='' @ u)"

end
