(* ===== verification/Client_Handler.thy ===== *)
theory Client_Handler
  imports File_Manager Handler_Events
begin

section \<open>The client handler thread\<close>

text \<open>
  \<open>include/server/client_handler.h\<close> and \<open>src/server/client_handler.c\<close>: login, the
  receive loop with one definition per message type, and the end of the connection. The
  received payload is a byte buffer; the code reads it as the C string up to its first NUL.
\<close>

subsection \<open>Frames\<close>

definition send_message :: "int \<Rightarrow> u32 \<Rightarrow> string \<Rightarrow> ('z, int) sys" where
  "send_message fd t payload =
     (if \<not> is_valid_message_type t then ret (- 1)
      else if length payload > MESSAGE_MAX_SIZE then ret (- 1)
      else do {
        r \<leftarrow> send_all fd (header_bytes \<lparr>type_field = t, length_field = of_nat (length payload)\<rparr>);
        if r \<noteq> 0 then ret (- 1)
        else if length payload = 0 then ret 0
        else send_all fd payload
      })"

text \<open>The result, \<open>*message_type\<close> and the received payload.\<close>

definition receive_message :: "int \<Rightarrow> nat \<Rightarrow> ('z, int \<times> u32 \<times> byte list) log_sys" where
  "receive_message fd payload_size =
     (if payload_size = 0 then ret (- 1, 0, [])
      else do {
        (result, header) \<leftarrow> recv_all fd HEADER_SIZE;
        if result \<noteq> 0 then ret (result, 0, [])
        else (let t = type_field (parse_header header); len = length_field (parse_header header)
              in if \<not> is_valid_message_type t
                 then do { log_event (RejectedMessageType t fd); ret (- 1, 0, []) }
                 else if unat len > MESSAGE_MAX_SIZE
                 then do { log_event (RejectedOversized len fd); ret (- 1, 0, []) }
                 else if unat len \<ge> payload_size then ret (- 1, 0, [])
                 else if unat len > 0
                 then do {
                   (result, payload) \<leftarrow> recv_all fd (unat len);
                   if result \<noteq> 0 then ret (result, 0, []) else ret (0, t, payload)
                 }
                 else ret (0, t, []))
      })"

subsection \<open>Login\<close>

definition login_succeeded :: "int \<Rightarrow> int \<Rightarrow> string \<Rightarrow> int srv" where
  "login_succeeded fd cid user =
     (let (written, response) = snprintf (USERNAME_MAX_SIZE + 32) (''LOGIN_SUCCESS '' @ user)
      in if written < 0 \<or> written \<ge> int (USERNAME_MAX_SIZE + 32)
         then do { _ \<leftarrow> client_manager_remove fd; ret (- 1) }
         else do {
           r \<leftarrow> client_manager_send fd MSG_RESPONSE response;
           if r \<noteq> 0
           then do {
             log_event (LoginSendFailed cid user);
             _ \<leftarrow> client_manager_remove fd;
             ret (- 1)
           }
           else do { log_event (LoginSuccess cid user); ret cid }
         })"

definition login_register :: "int \<Rightarrow> string \<Rightarrow> int srv" where
  "login_register fd user = do {
     thread \<leftarrow> gets tid;
     cid \<leftarrow> client_manager_add fd thread user;
     if cid = - 2
     then do {
       _ \<leftarrow> send_message fd MSG_ERROR ''USERNAME_ALREADY_EXISTS'';
       log_event (LoginDuplicate user);
       ret 0
     }
     else if cid < 0
     then do {
       _ \<leftarrow> send_message fd MSG_ERROR ''SERVER_CLIENT_LIMIT'';
       log_event (LoginUnableToRegister user);
       ret (- 1)
     }
     else login_succeeded fd cid user
   }"

text \<open>The answer to the request for a name: the result and the name left in the caller's buffer.\<close>

definition login_answer :: "int \<Rightarrow> nat \<Rightarrow> (int \<times> string) srv" where
  "login_answer fd username_size = do {
     (result, message_type, payload) \<leftarrow> receive_message fd (MESSAGE_MAX_SIZE + 1);
     if result \<noteq> 0 then do { log_event (LoginDisconnected fd); ret (- 1, []) }
     else if message_type \<noteq> MSG_LOGIN
     then do {
       _ \<leftarrow> send_message fd MSG_ERROR ''LOGIN_REQUIRED'';
       log_event (LoginNonLogin fd);
       ret (0, [])
     }
     else if \<not> is_valid_username (cstr payload)
     then do {
       _ \<leftarrow> send_message fd MSG_ERROR ''INVALID_USERNAME'';
       log_event (LoginInvalidUsername fd);
       ret (0, [])
     }
     else do {
       let user = strncpy_buf username_size (cstr payload);
       cid \<leftarrow> login_register fd user;
       ret (cid, user)
     }
   }"

definition perform_login :: "int \<Rightarrow> nat \<Rightarrow> (int \<times> string) srv" where
  "perform_login fd username_size =
     (if username_size < USERNAME_MAX_SIZE then ret (- 1, [])
      else do {
        r \<leftarrow> send_message fd MSG_RESPONSE ''USERNAME_REQUIRED'';
        if r \<noteq> 0 then do { log_event (LoginRequestFailed fd); ret (- 1, []) }
        else login_answer fd username_size
      })"

subsection \<open>Message types\<close>

text \<open>Replies whose result the handler ignores.\<close>

definition reply :: "int \<Rightarrow> u32 \<Rightarrow> string \<Rightarrow> unit srv" where
  "reply fd t text = do { _ \<leftarrow> client_manager_send fd t text; ret () }"

definition handle_chat :: "int \<Rightarrow> int \<Rightarrow> string \<Rightarrow> string \<Rightarrow> unit srv" where
  "handle_chat fd cid user payload =
     (if payload = [] then reply fd MSG_ERROR ''EMPTY_MESSAGE''
      else (let (written, broadcast_message) = snprintf (MESSAGE_MAX_SIZE + 1) (user @ '': '' @ payload)
            in if written < 0 \<or> written \<ge> int (MESSAGE_MAX_SIZE + 1)
               then reply fd MSG_ERROR ''MESSAGE_TOO_LONG''
               else do {
                 recipients \<leftarrow> client_manager_broadcast fd MSG_BROADCAST broadcast_message;
                 if recipients < 0
                 then do {
                   reply fd MSG_ERROR ''BROADCAST_FAILED'';
                   log_event (BroadcastFailed cid user)
                 }
                 else do {
                   log_event (BroadcastSent user recipients);
                   (let (written, response) = snprintf 64 (''MESSAGE_DELIVERED '' @ int_str recipients)
                    in if written \<ge> 0 \<and> written < 64 then reply fd MSG_RESPONSE response else ret ())
                 }
               }))"

definition private_delivered :: "int \<Rightarrow> string \<Rightarrow> string \<Rightarrow> unit srv" where
  "private_delivered fd user target_username = do {
     (let (written, response) = snprintf (USERNAME_MAX_SIZE + 40)
            (''PRIVATE_MESSAGE_DELIVERED '' @ target_username)
      in if written \<ge> 0 \<and> written < int (USERNAME_MAX_SIZE + 40)
         then reply fd MSG_RESPONSE response else ret ());
     log_event (PrivateSent user target_username)
   }"

definition send_private :: "int \<Rightarrow> string \<Rightarrow> string \<Rightarrow> string \<Rightarrow> unit srv" where
  "send_private fd user target_username private_text =
     (let (written, private_message) = snprintf (MESSAGE_MAX_SIZE + 1) (user @ '': '' @ private_text)
      in if written < 0 \<or> written \<ge> int (MESSAGE_MAX_SIZE + 1)
         then reply fd MSG_ERROR ''PRIVATE_MESSAGE_TOO_LONG''
         else do {
           send_result \<leftarrow> client_manager_send_to_username target_username MSG_PRIVATE private_message;
           if send_result = 1
           then do {
             reply fd MSG_ERROR ''USER_NOT_FOUND'';
             log_event (PrivateUnavailable user target_username)
           }
           else if send_result < 0
           then do {
             reply fd MSG_ERROR ''PRIVATE_MESSAGE_FAILED'';
             log_event (PrivateFailed user target_username)
           }
           else private_delivered fd user target_username
         })"

definition handle_private :: "int \<Rightarrow> string \<Rightarrow> string \<Rightarrow> unit srv" where
  "handle_private fd user payload =
     (case strchr payload (CHR '' '') of
        None \<Rightarrow> reply fd MSG_ERROR ''PRIVATE_MESSAGE_USAGE''
      | Some separator \<Rightarrow>
          (let target_username = take separator payload; private_text = drop (Suc separator) payload
           in if separator = 0 \<or> private_text = []
              then reply fd MSG_ERROR ''PRIVATE_MESSAGE_USAGE''
              else if \<not> is_valid_username target_username
              then reply fd MSG_ERROR ''INVALID_TARGET_USERNAME''
              else if target_username = user
              then reply fd MSG_ERROR ''CANNOT_MESSAGE_SELF''
              else send_private fd user target_username private_text))"

definition handle_list_users :: "int \<Rightarrow> string \<Rightarrow> unit srv" where
  "handle_list_users fd user = do {
     (users, user_list) \<leftarrow> client_manager_build_userlist (MESSAGE_MAX_SIZE + 1);
     if users < 0
     then do { reply fd MSG_ERROR ''USERLIST_FAILED''; log_event (UserListFailed user) }
     else do {
       reply fd MSG_USERLIST
         (if users = 0 then strncpy_buf (MESSAGE_MAX_SIZE + 1) ''No users online'' else user_list);
       log_event (UserListRequested user users)
     }
   }"

text \<open>The \<open>switch\<close>: \<open>False\<close> when the code jumps to \<open>connection_end\<close>.\<close>

definition handle_message :: "int \<Rightarrow> int \<Rightarrow> string \<Rightarrow> u32 \<Rightarrow> string \<Rightarrow> bool srv" where
  "handle_message fd cid user message_type payload =
     (if message_type = MSG_CHAT then do { handle_chat fd cid user payload; ret True }
      else if message_type = MSG_PRIVATE then do { handle_private fd user payload; ret True }
      else if message_type = MSG_LIST_USERS then do { handle_list_users fd user; ret True }
      else if message_type = MSG_DISCONNECT
      then do {
        log_event (GracefulDisconnect cid user);
        reply fd MSG_RESPONSE ''GOODBYE'';
        ret False
      }
      else if message_type = MSG_UPLOAD
      then do { r \<leftarrow> file_manager_handle_upload fd user payload; ret (\<not> r < 0) }
      else if message_type = MSG_DOWNLOAD
      then do { r \<leftarrow> file_manager_handle_download fd user payload; ret (\<not> r < 0) }
      else if message_type = MSG_LIST_FILES
      then do { r \<leftarrow> file_manager_handle_list fd user; ret (\<not> r < 0) }
      else if message_type = MSG_LOGIN
      then do { reply fd MSG_ERROR ''ALREADY_LOGGED_IN''; log_event (RepeatedLogin user); ret True }
      else if message_type \<in> {MSG_RESPONSE, MSG_ERROR, MSG_BROADCAST, MSG_USERLIST, MSG_FILELIST}
      then do {
        reply fd MSG_ERROR ''INVALID_CLIENT_MESSAGE_TYPE'';
        log_event (InvalidClientType message_type user);
        ret True
      }
      else do {
        reply fd MSG_ERROR ''UNKNOWN_MESSAGE_TYPE'';
        log_event (UnknownType message_type user);
        ret True
      })"

subsection \<open>Incoming streams only get shorter\<close>

text \<open>No operation of the server adds to what is still to be received, so the receive loop
  ends: every accepted message uses up part of the stream.\<close>

definition inbox_le :: "'z os_scheme \<Rightarrow> 'z os_scheme \<Rightarrow> bool" where
  "inbox_le s s' \<longleftrightarrow> (\<forall>x. length (inbox (socks s' x)) \<le> length (inbox (socks s x)))"

interpretation le: frame_rel inbox_le
  by unfold_locales (auto simp: inbox_le_def intro: le_trans)

lemma inbox_le_socks: "socks s' = socks s \<Longrightarrow> inbox_le s s'"
  by (simp add: inbox_le_def)

lemma inbox_le_same:
  assumes "state_io_rel (same f) m" and "\<And>s t. f t = f s \<Longrightarrow> socks t = socks s"
  shows "state_io_rel inbox_le m"
proof
  fix r s s'
  assume "run_state m s = (r, s')"
  then have "f s' = f s" by (rule same_run [OF assms(1)])
  then show "inbox_le s s'" by (intro inbox_le_socks assms(2))
qed

lemma fs_socks: "fs_rest t = fs_rest s \<Longrightarrow> socks t = socks s"
  by (simp add: fs_rest_def)

lemma clk_socks: "clk_rest t = clk_rest s \<Longrightarrow> socks t = socks s"
  by (simp add: clk_rest_def)

lemma log_socks: "log_rest t = log_rest s \<Longrightarrow> socks t = socks s"
proof -
  assume "log_rest t = log_rest s"
  moreover have "socks (log_rest u) = socks u" for u :: "'z log_os_scheme" by (simp add: log_rest_def)
  ultimately show ?thesis by metis
qed

lemma mutex_socks: "no_mutex t = no_mutex s \<Longrightarrow> socks t = socks s"
  by (rule no_mutex_eqD)

lemma le_rest:
  "state_io_rel (same fs_rest) m \<Longrightarrow> state_io_rel inbox_le m"
  "state_io_rel (same clk_rest) m \<Longrightarrow> state_io_rel inbox_le m"
  "state_io_rel (same log_rest) m' \<Longrightarrow> state_io_rel inbox_le m'"
  "state_io_rel (same no_mutex) m'' \<Longrightarrow> state_io_rel inbox_le m''"
  by (erule inbox_le_same, erule fs_socks clk_socks log_socks mutex_socks)+

lemmas inbox_le_base = fs_frames [THEN le_rest(1)] fs_base [THEN le_rest(1)]
  timer_frames [THEN le_rest(2)] log_event_frame [THEN le_rest(3)] mutex_frames [THEN le_rest(4)]

lemma inbox_le_send_all: "state_io_rel inbox_le (send_all fd bs)"
proof
  fix r and s s' :: "'z os_scheme"
  assume "run_state (send_all fd bs) s = (r, s')"
  then obtain p where w: "wrote fd p s s'" using send_all_wrote by blast
  show "inbox_le s s'" by (simp add: inbox_le_def wroteD(4) [OF w])
qed

lemma inbox_le_recv_all: "state_io_rel inbox_le (recv_all fd n)"
proof
  fix r and s s' :: "'z os_scheme"
  assume "run_state (recv_all fd n) s = (r, s')"
  then obtain k where t: "took fd k s s'" using recv_all_took [of fd n s "fst r" "snd r" s'] by auto
  show "inbox_le s s'"
    unfolding inbox_le_def
  proof
    fix x
    show "length (inbox (socks s' x)) \<le> length (inbox (socks s x))"
      using tookD(2,3) [OF t] by (cases "x = fd") auto
  qed
qed

lemmas inbox_le_fs = file_lock_frames [THEN le_rest(1)] write_all_frame [THEN le_rest(1)]
  storage_frames [THEN le_rest(1)]

lemmas inbox_le_rules = le.io_sys inbox_le_base inbox_le_fs inbox_le_send_all inbox_le_recv_all

lemma inbox_le_modify: "(\<And>s. socks (f s) = socks s) \<Longrightarrow> state_io_rel inbox_le (modify f)"
  by (rule le.io_modify) (simp add: inbox_le_def)

lemma inbox_le_run: "state_io_rel inbox_le m \<Longrightarrow> run_state m s = (r, s') \<Longrightarrow> inbox_le s s'"
  by (rule state_io_relD)

lemma inbox_le_stream: "state_io_rel inbox_le (State (stream_loop fd file_fd n))"
proof -
  have "inbox_le s (snd (stream_loop fd file_fd n s))" for s :: "'a os_scheme"
  proof (induction fd file_fd n s rule: stream_loop.induct)
    case (1 fd file_fd n s)
    let ?n = "if n > FILE_CHUNK_SIZE then FILE_CHUNK_SIZE else n"
    obtain k bs s1 where rd: "run_state (sys_read file_fd ?n) s = ((k, bs), s1)" by (metis surj_pair)
    obtain r s2 where sd: "run_state (send_all fd bs) s1 = (r, s2)" by fastforce
    have le1: "inbox_le s s1" using rd by (rule inbox_le_run [OF inbox_le_base(10)])
    have le2: "inbox_le s1 s2" using sd by (rule inbox_le_run [OF inbox_le_send_all])
    note IH = "1.IH"(1) [OF _ refl rd [symmetric] refl] "1.IH"(2) [OF _ refl rd [symmetric] refl _ _ sd [symmetric]]
    show ?case
      using rd sd IH le1 le.trans [OF le1] le.trans [OF le.trans [OF le1 le2]] le.trans [OF le1 le2]
        le.refl [of s]
      by (auto simp: stream_loop.simps [of fd file_fd n s] Let_def simp del: split_paired_All)
  qed
  then show ?thesis by (simp add: io_rel_State)
qed

lemma inbox_le_manager:
  "state_io_rel inbox_le (send_message_raw fd t p)"
  "state_io_rel inbox_le (send_to_target i j t p)"
  "state_io_rel inbox_le (client_manager_add fd th n)"
  "state_io_rel inbox_le (client_manager_remove fd)"
  "state_io_rel inbox_le client_manager_count"
  "state_io_rel inbox_le (client_manager_build_userlist k)"
  "state_io_rel inbox_le (client_manager_send fd t p)"
  "state_io_rel inbox_le (client_manager_send_to_username n t p)"
  "state_io_rel inbox_le (client_manager_send_file_stream fd t p file_fd k)"
  "state_io_rel inbox_le (deliver xs t p k)"
  "state_io_rel inbox_le (client_manager_broadcast fd t p)"
proof -
  note base = inbox_le_rules inbox_le_modify inbox_le_stream
  show raw: "state_io_rel inbox_le (send_message_raw fd t p)" for fd t p
    unfolding send_message_raw_def by (intro base)
  show target: "state_io_rel inbox_le (send_to_target i j t p)" for i j
    unfolding send_to_target_def by (intro base raw)
  show "state_io_rel inbox_le (client_manager_add fd th n)"
    unfolding client_manager_add_def by (intro base; simp add: register_entry_def upd_entry_def)
  show "state_io_rel inbox_le (client_manager_remove fd)"
    unfolding client_manager_remove_def by (intro base; simp)
  show "state_io_rel inbox_le client_manager_count"
    unfolding client_manager_count_def by (intro base)
  show "state_io_rel inbox_le (client_manager_build_userlist k)"
    unfolding client_manager_build_userlist_def by (intro base)
  show "state_io_rel inbox_le (client_manager_send fd t p)"
    unfolding client_manager_send_def by (intro base raw)
  show "state_io_rel inbox_le (client_manager_send_to_username n t p)"
    unfolding client_manager_send_to_username_def by (intro base target)
  show "state_io_rel inbox_le (client_manager_send_file_stream fd t p file_fd k)"
    unfolding client_manager_send_file_stream_def by (intro base raw)
  show deliver: "state_io_rel inbox_le (deliver xs t p k)" for xs k
    by (induction xs arbitrary: k) (simp_all add: le.io_return le.io_bind target)
  show "state_io_rel inbox_le (client_manager_broadcast fd t p)"
    unfolding client_manager_broadcast_def by (intro base deliver)
qed

lemma inbox_le_upload_loop: "state_io_rel inbox_le (upload_loop fd u f file_fd n w)"
proof (induction fd u f file_fd n w rule: upload_loop.induct)
  case (1 fd u f file_fd n w)
  show ?case
    unfolding upload_loop.simps [of fd u f file_fd n w] Let_def
    by (intro inbox_le_rules "1.IH" refl)
qed

lemma inbox_le_list_loop: "state_io_rel inbox_le (State (list_loop fd dfd n))"
proof -
  have "inbox_le s (snd (list_loop fd dfd n s))" for s
  proof (induction fd dfd n s rule: list_loop.induct)
    case (1 fd dfd n s)
    obtain d s1 where rd: "run_state (sys_readdir dfd) s = (d, s1)" by fastforce
    have le1: "inbox_le s s1" using rd by (rule inbox_le_run [OF inbox_le_base(15)])
    show ?case
    proof (cases "\<exists>name. d = Some name \<and> is_valid_shared_filename name")
      case False
      with rd "1.IH"(1) [OF rd [symmetric]] le.trans [OF le1] le1 show ?thesis
        by (auto simp: list_loop.simps [of fd dfd n s] split: option.splits)
    next
      case True
      then obtain name where d: "d = Some name" "is_valid_shared_filename name" by blast
      obtain i s2 where st: "run_state (sys_fstatat dfd name) s1 = (i, s2)" by fastforce
      have le2: "inbox_le s s2"
        using inbox_le_run [OF inbox_le_base(6) st] by (rule le.trans [OF le1])
      define e where "e = name @ ''|'' @ nat_str (nat (snd (the i)))"
      obtain r s3 where sd: "run_state (client_manager_send fd MSG_FILELIST
          (snd (snprintf (FILE_NAME_MAX_SIZE + 64) e))) s2 = (r, s3)" by fastforce
      have le3: "inbox_le s s3"
        using inbox_le_run [OF inbox_le_manager(7) sd] by (rule le.trans [OF le2])
      have le4: "inbox_le s (exec (sys_close dfd) s3)"
        using io_rel_exec [OF inbox_le_base(1)] by (rule le.trans [OF le3])
      note IH = "1.IH"(2-6) [OF rd [symmetric]]
      show ?thesis
        using rd st sd d IH le2 le3 le4 le.trans [OF le2] le.trans [OF le3]
        by (auto simp: list_loop.simps [of fd dfd n s] e_def snprintf_def split: option.splits if_splits)
    qed
  qed
  then show ?thesis by (simp add: io_rel_State)
qed

lemma inbox_le_files:
  "state_io_rel inbox_le (send_error fd m)"
  "state_io_rel inbox_le (start_timer ev)"
  "state_io_rel inbox_le (upload_body fd u f n)"
  "state_io_rel inbox_le (upload_cleanup u f n lk v)"
  "state_io_rel inbox_le (file_manager_handle_upload fd u md)"
  "state_io_rel inbox_le (file_manager_handle_download fd u f)"
  "state_io_rel inbox_le (file_manager_handle_list fd u)"
proof -
  note base = inbox_le_rules inbox_le_manager inbox_le_upload_loop inbox_le_list_loop
  show err: "state_io_rel inbox_le (send_error fd m)" for m
    unfolding send_error_def by (intro base)
  show timer: "state_io_rel inbox_le (start_timer ev)" for ev
    unfolding start_timer_def by (intro base)
  have stops: "state_io_rel inbox_le (upload_stop_timer u f n t)"
    "state_io_rel inbox_le (upload_abort_timer u f n t)"
    "state_io_rel inbox_le (download_stop_timer u f n r t)" for f n t r
    unfolding upload_stop_timer_def upload_abort_timer_def download_stop_timer_def by (intro base)+
  have publish: "state_io_rel inbox_le (upload_publish fd u f n st tmp)" for f n st tmp
    unfolding upload_publish_def by (intro base err)
  have transfer: "state_io_rel inbox_le (upload_transfer fd u f n st tmp file_fd)" for f n st tmp file_fd
    unfolding upload_transfer_def by (intro base err timer stops publish)
  have create: "state_io_rel inbox_le (upload_create fd u f n st tmp)" for f n st tmp
    unfolding upload_create_def by (intro base err transfer)
  show body: "state_io_rel inbox_le (upload_body fd u f n)" for f n
    unfolding upload_body_def by (intro base err create)
  show cleanup: "state_io_rel inbox_le (upload_cleanup u f n lk v)" for f n lk v
    unfolding upload_cleanup_def by (intro base stops)
  show "state_io_rel inbox_le (file_manager_handle_upload fd u md)"
    unfolding file_manager_handle_upload_def by (intro base err body cleanup)
  have stream: "state_io_rel inbox_le (download_stream fd u f file_fd n)" for f file_fd n
    unfolding download_stream_def by (intro base err timer stops)
  have dfile: "state_io_rel inbox_le (download_file fd u f file_fd)" for f file_fd
    unfolding download_file_def by (intro base err stream)
  have dbody: "state_io_rel inbox_le (download_body fd u f st)" for f st
    unfolding download_body_def by (intro base err dfile)
  show "state_io_rel inbox_le (file_manager_handle_download fd u f)"
    unfolding file_manager_handle_download_def download_cleanup_def by (intro base err dbody)
  show "state_io_rel inbox_le (file_manager_handle_list fd u)"
    unfolding file_manager_handle_list_def list_opened_def list_close_def list_end_def by (intro base err)
qed

lemma inbox_le_handle_message: "state_io_rel inbox_le (handle_message fd i u t p)"
proof -
  note base = inbox_le_rules inbox_le_manager inbox_le_files
  have reply: "state_io_rel inbox_le (reply fd t m)" for t m
    unfolding reply_def by (intro base)
  have chat: "state_io_rel inbox_le (handle_chat fd i u p)"
    unfolding handle_chat_def by (intro base reply)
  have priv: "state_io_rel inbox_le (handle_private fd u p)"
    unfolding handle_private_def send_private_def private_delivered_def by (intro base reply)
  have users: "state_io_rel inbox_le (handle_list_users fd u)"
    unfolding handle_list_users_def by (intro base reply)
  show ?thesis
    unfolding handle_message_def by (intro base reply chat priv users)
qed

subsection \<open>Receiving a frame\<close>

lemma receive_message_ok:
  assumes "run_state (receive_message fd n) s = ((0, t, p), s')"
  shows "is_valid_message_type t \<and> length p \<le> MESSAGE_MAX_SIZE \<and> length p < n \<and>
    inbox (socks s fd) = frame t p @ inbox (socks s' fd) \<and> took fd (8 + length p) s s'"
proof -
  obtain r1 h s1 where rh: "run_state (recv_all fd HEADER_SIZE) s = ((r1, h), s1)" by (metis surj_pair)
  have "0 < n" using assms by (cases n) (simp_all add: receive_message_def)
  have r1: "r1 = 0" using assms rh \<open>0 < n\<close> by (auto simp: receive_message_def split: if_splits)
  from recv_all_took [OF rh] r1 have took1: "took fd 8 s s1" and h: "h = take 8 (inbox (socks s fd))"
    and len8: "8 \<le> length (inbox (socks s fd))" by (auto simp: HEADER_SIZE_def)
  let ?t = "type_field (parse_header h)" and ?l = "unat (length_field (parse_header h))"
  obtain r2 q s2 where rp: "run_state (recv_all fd ?l) s1 = ((r2, q), s2)" by (metis surj_pair)
  have case0: "is_valid_message_type ?t \<and> ?l \<le> MESSAGE_MAX_SIZE \<and> ?l < n \<and> t = ?t \<and>
      (if ?l = 0 then p = [] \<and> s' = s1 else r2 = 0 \<and> p = q \<and> s' = s2)"
    using assms rh r1 rp \<open>0 < n\<close>
    by (auto simp: receive_message_def Let_def split: if_splits prod.splits)
  have body: "took fd ?l s1 s' \<and> p = take ?l (inbox (socks s1 fd)) \<and> ?l \<le> length (inbox (socks s1 fd))"
  proof (cases "?l = 0")
    case True
    with case0 show ?thesis by simp
  next
    case False
    with case0 rp have "run_state (recv_all fd ?l) s1 = ((0, p), s')" by simp
    from recv_all_took [OF this] show ?thesis by auto
  qed
  have in1: "inbox (socks s1 fd) = drop 8 (inbox (socks s fd))" by (rule tookD(2) [OF took1])
  have lp: "length p = ?l" using body by auto
  have "header_bytes (parse_header h) = h" using h len8 by (intro header_bytes_parse) simp
  moreover have "parse_header h = \<lparr>type_field = t, length_field = of_nat (length p)\<rparr>"
    using case0 lp by (cases "parse_header h") simp
  ultimately have "frame t p = h @ p" by (simp add: frame_def)
  moreover have "inbox (socks s fd) = h @ p @ inbox (socks s' fd)"
    using body h tookD(2) [of fd ?l s1 s'] by (metis append_take_drop_id in1)
  ultimately show ?thesis using case0 lp took_trans [OF took1] body by simp
qed

subsection \<open>The thread\<close>

lemma receive_result:
  assumes "run_state (receive_message fd n) s = ((r, t, p), s')"
  shows "r = 0 \<or> r = 1 \<or> r = -1"
proof -
  have "q = 0 \<or> q = 1 \<or> q = -1" if "run_state (recv_all fd k) u = ((q, bs), u')" for q k bs and u u' :: "'a log_os_scheme"
    using recv_all_took [OF that] by blast
  note two = this
  from assms show ?thesis
    by (auto simp: receive_message_def Let_def split: if_splits prod.splits dest: two)
qed

lemma receive_progress:
  "run_state (receive_message fd n) s = ((0, t, p), s') \<Longrightarrow>
   length (inbox (socks s' fd)) < length (inbox (socks s fd))"
  by (drule receive_message_ok) simp

function client_loop :: "int \<Rightarrow> int \<Rightarrow> string \<Rightarrow> server \<Rightarrow> unit \<times> server" where
  "client_loop fd cid user s =
     (case run_state (receive_message fd (MESSAGE_MAX_SIZE + 1)) s of
        ((result, message_type, payload), s1) \<Rightarrow>
          if result = 1 then run_state (log_event (UnexpectedDisconnect cid user)) s1
          else if result < 0 then run_state (log_event (ReceiveError cid user)) s1
          else (case run_state (handle_message fd cid user message_type (cstr payload)) s1 of
              (True, s2) \<Rightarrow> client_loop fd cid user s2
            | (False, s2) \<Rightarrow> ((), s2)))"
  by pat_completeness auto
termination
proof (relation "measure (\<lambda>(fd, cid, user, s). length (inbox (socks s fd)))", goal_cases)
  case 1
  show ?case by simp
next
  case (2 fd cid user s x s1 result y t p b s2)
  then have "run_state (receive_message fd (MESSAGE_MAX_SIZE + 1)) s = ((result, t, p), s1)"
    and "result \<noteq> 1" "\<not> result < 0" by auto
  with receive_result [OF this(1)] have rx: "run_state (receive_message fd (MESSAGE_MAX_SIZE + 1)) s = ((0, t, p), s1)"
    by auto
  from 2 have hd: "run_state (handle_message fd cid user t (cstr p)) s1 = (True, s2)" by auto
  from inbox_le_run [OF inbox_le_handle_message hd] receive_progress [OF rx] show ?case
    by (auto simp: inbox_le_def intro: le_less_trans)
qed

declare client_loop.simps [simp del]

text \<open>From the label \<open>connection_end\<close>, \<open>client_registered\<close> being 1 there.\<close>

definition connection_end :: "int \<Rightarrow> int \<Rightarrow> string \<Rightarrow> unit srv" where
  "connection_end fd cid user = do {
     remove_result \<leftarrow> client_manager_remove fd;
     (if remove_result = 0 then ret () else log_event (RemovalFailed cid user));
     active_clients \<leftarrow> client_manager_count;
     log_event (ClientRemoved cid user active_clients);
     _ \<leftarrow> sys_close fd;
     t \<leftarrow> gets tid;
     log_event (ThreadTerminated t user)
   }"

definition client_handler :: "int \<Rightarrow> unit srv" where
  "client_handler fd = do {
     t \<leftarrow> gets tid;
     log_event (ThreadStarted t fd);
     (cid, user) \<leftarrow> perform_login fd USERNAME_MAX_SIZE;
     if cid \<le> 0
     then do { _ \<leftarrow> sys_close fd; log_event (UnregisteredTerminated t) }
     else do {
       State (client_loop fd cid user);
       connection_end fd cid user
     }
   }"

end
