(* ===== verification/Session.thy ===== *)
theory Session
  imports Listing_Spec Client_Handler
begin

section \<open>A whole session\<close>

text \<open>
  What a client's thread leaves behind, from the first log line to the closed socket. The
  mutex calls are taken to succeed, as they do on mutexes that are initialised and not held
  by the caller; socket, file and log calls may do anything.
\<close>

subsection \<open>Operations that leave the registry alone\<close>

definition settled :: "server \<Rightarrow> bool" where
  "settled s \<longleftrightarrow> idle s \<and> registry_inv s"

definition serene :: "server \<Rightarrow> server \<Rightarrow> bool" where
  "serene s s' \<longleftrightarrow> (settled s \<longrightarrow> settled s' \<and> others s' = others s)"

interpretation serene: frame_rel serene
  by unfold_locales (auto simp: serene_def)

lemma registry_others: "others t = others s \<Longrightarrow> registry t = registry s \<and> registry_inv t = registry_inv s"
proof -
  assume "others t = others s"
  then have tb: "table t = table s" and "manager_initialized t = manager_initialized s" by (simp_all add: others_def)
  then have inv: "registry_inv t = registry_inv s" by (simp add: registry_inv_def)
  have nth: "map f (table u) ! i = f (clients u ! i)"
    if "\<And>c. f (strip c) = f c" "i < length (clients u)" for f :: "client_entry_t \<Rightarrow> 'x" and u i
    using that by (simp add: table_def)
  have "find_username_slot n t = find_username_slot n s" for n by (simp add: find_table tb)
  moreover have "socket_fd (clients t ! i) = socket_fd (clients s ! i)" "client_id (clients t ! i) = client_id (clients s ! i)"
    if "i < length (clients s)" for i
  proof -
    have len: "length (clients t) = length (clients s)" using tb by (metis length_map table_def)
    show "socket_fd (clients t ! i) = socket_fd (clients s ! i)"
      using nth [of socket_fd i t] nth [of socket_fd i s] that len tb by simp
    show "client_id (clients t ! i) = client_id (clients s ! i)"
      using nth [of client_id i t] nth [of client_id i s] that len tb by simp
  qed
  ultimately have "registry t = registry s"
    using slot_props(3) [of _ s] by (auto simp: registry_def Let_def fun_eq_iff)
  with inv show ?thesis by simp
qed

lemma serene_more:
  fixes s t :: server
  assumes "os.more t = os.more s" and "mtx_script t = mtx_script s" and "pid t = pid s" and "tid t = tid s"
  shows "serene s t"
proof -
  have "others t = others s" using more_server [OF assms(1)] assms(3,4) by (simp add: others_def)
  moreover have "idle t = idle s" using more_server [OF assms(1)] assms(2) by (simp add: idle_def)
  ultimately show ?thesis using registry_others [of t s] by (simp add: serene_def settled_def)
qed

lemma serene_log: "log_rest t = log_rest s \<Longrightarrow> serene s t"
proof -
  assume eq: "log_rest t = log_rest s"
  have "others (log_rest u) = others u \<and> idle (log_rest u) = idle u" for u
    by (simp add: log_rest_def others_def table_def idle_def)
  with eq have "others t = others s \<and> idle t = idle s" by metis
  then show ?thesis using registry_others [of t s] by (simp add: serene_def settled_def)
qed

lemma serene_wrote: "wrote fd w s t \<Longrightarrow> serene s t"
  by (rule serene_more) (auto simp: wrote_def net_rest_def)

lemma serene_took: "took fd k s t \<Longrightarrow> serene s t"
  by (rule serene_more) (auto simp: took_def net_rest_def)

lemma serene_rest:
  "state_io_rel (same fs_rest) m \<Longrightarrow> state_io_rel serene m"
  "state_io_rel (same clk_rest) m \<Longrightarrow> state_io_rel serene m"
  "state_io_rel (same log_rest) m \<Longrightarrow> state_io_rel serene m"
proof -
  show "state_io_rel (same fs_rest) m \<Longrightarrow> state_io_rel serene m"
    by (erule io_rel_mono) (rule serene_more; simp add: same_def fs_rest_def)
  show "state_io_rel (same clk_rest) m \<Longrightarrow> state_io_rel serene m"
    by (erule io_rel_mono) (rule serene_more; simp add: same_def clk_rest_def)
  show "state_io_rel (same log_rest) m \<Longrightarrow> state_io_rel serene m"
    by (erule io_rel_mono) (rule serene_log; simp add: same_def)
qed

lemma serene_net:
  "state_io_rel serene (send_all fd bs)" "state_io_rel serene (recv_all fd n)"
proof -
  show "state_io_rel serene (send_all fd bs)"
    by (rule state_io_relI) (metis send_all_wrote serene_wrote)
  show "state_io_rel serene (recv_all fd n)"
    by (rule state_io_relI) (metis recv_all_took serene_took surj_pair)
qed

lemmas serene_rules = serene.io_sys fs_frames [THEN serene_rest(1)] fs_base [THEN serene_rest(1)]
  timer_frames [THEN serene_rest(2)] log_event_frame [THEN serene_rest(3)]
  file_lock_frames [THEN serene_rest(1)] write_all_frame [THEN serene_rest(1)]
  storage_frames [THEN serene_rest(1)] serene_net

subsection \<open>Routing\<close>

lemma serene_idleI:
  assumes "\<And>r s s'. run_state m s = (r, s') \<Longrightarrow> idle s \<Longrightarrow> registry_inv s \<Longrightarrow> s' = s \<or> serene s s'"
  shows "state_io_rel serene m"
  using assms by (intro state_io_relI) (fastforce simp: serene_def settled_def)

lemma through_slot_serene:
  assumes "run_state (through_slot k (send_message_raw fd t p)) s = (r, s')" and "idle s" and "k < length (clients s)"
  shows "serene s s'"
  using through_slot_sends [OF assms] serene_wrote by metis

lemma serene_send: "state_io_rel serene (client_manager_send fd t p)"
proof (rule serene_idleI)
  fix r s s'
  assume run: "run_state (client_manager_send fd t p) s = (r, s')" and "idle s"
  then show "s' = s \<or> serene s s'"
    using through_slot_serene slot_props(2) [of fd s]
    by (auto simp: client_manager_send_idle split: if_splits)
qed

lemma inv_length: "registry_inv s \<Longrightarrow> length (clients s) = MAX_CLIENTS"
  by (simp add: registry_inv_def entries_ok_def table_def)

lemma serene_send_to: "state_io_rel serene (client_manager_send_to_username n t p)"
proof (rule serene_idleI)
  fix r s s'
  assume run: "run_state (client_manager_send_to_username n t p) s = (r, s')" and i: "idle s" and "registry_inv s"
  then show "s' = s \<or> serene s s'"
    using through_slot_serene slot_props(3) [of n s]
    by (auto simp: client_manager_send_to_username_idle [OF i inv_length] Let_def split: if_splits)
qed

lemma serene_fanout: "fanout g s t \<Longrightarrow> serene s t"
  by (rule serene_more) (auto simp: fanout_def net_rest_def)

lemma serene_broadcast: "state_io_rel serene (client_manager_broadcast fd t p)"
proof (rule serene_idleI)
  fix r s s'
  assume run: "run_state (client_manager_broadcast fd t p) s = (r, s')" and i: "idle s" "registry_inv s"
  show "s' = s \<or> serene s s'"
  proof (cases "is_valid_message_type t \<and> length p \<le> MESSAGE_MAX_SIZE")
    case True
    then show ?thesis using broadcast_spec [OF run i] serene_fanout by metis
  qed (use run i in \<open>auto simp: broadcast_idle\<close>)
qed

lemma serene_queries:
  "state_io_rel serene client_manager_count"
  "state_io_rel serene (client_manager_build_userlist k)"
proof -
  show "state_io_rel serene client_manager_count"
    by (rule serene_idleI) (simp add: count_idle)
  show "state_io_rel serene (client_manager_build_userlist k)"
  proof (rule serene_idleI)
    fix r s s'
    assume "run_state (client_manager_build_userlist k) s = (r, s')" and "idle s" "registry_inv s"
    then show "s' = s \<or> serene s s'"
      by (auto simp: client_manager_build_userlist_def run_mutex idleD clients_mutex_restore
          split: if_splits option.splits)
  qed
qed

text \<open>The file stream holds the send mutex; what it leaves alone meanwhile is \<open>hard\<close>.\<close>

definition hard :: "server \<Rightarrow> _" where
  "hard s = (os.more s, mtx_script s, pid s, tid s)"

lemma hard_fs: "state_io_rel (same fs_rest) m \<Longrightarrow> state_io_rel (same hard) m"
  by (erule same_weaken) (simp add: fs_rest_def hard_def)

lemma hard_wrote: "wrote fd w s t \<Longrightarrow> hard t = hard s"
  by (simp add: wrote_def net_rest_def hard_def)

lemma hard_stream: "stream_loop fd ffd n s = (r, s') \<Longrightarrow> hard s' = hard s"
proof (induction fd ffd n s rule: stream_loop.induct)
  case (1 fd ffd n s)
  let ?n = "if n > FILE_CHUNK_SIZE then FILE_CHUNK_SIZE else n"
  obtain k bs s1 where rd: "run_state (sys_read ffd ?n) s = ((k, bs), s1)" by (metis surj_pair)
  obtain q s2 where sd: "run_state (send_all fd bs) s1 = (q, s2)" by fastforce
  have h: "hard s1 = hard s" using same_run [OF hard_fs [OF fs_frames(10)] rd] .
  have "hard s2 = hard s1" using send_all_wrote [OF sd] hard_wrote by metis
  with h "1.prems" "1.IH"(1) [OF _ refl rd [symmetric] refl] "1.IH"(2) [OF _ refl rd [symmetric] refl _ _ sd [symmetric]]
    rd sd show ?case
    by (auto simp: stream_loop.simps [of fd ffd n s] Let_def split: if_splits)
qed

lemma serene_released:
  assumes "hard t = hard (upd_entry k (\<lambda>c. c\<lparr>send_mutex := True\<rparr>) s)" and "idle s" and "k < length (clients s)"
  shows "serene s (upd_entry k (\<lambda>c. c\<lparr>send_mutex := False\<rparr>) t)"
proof -
  let ?u = "upd_entry k (\<lambda>c. c\<lparr>send_mutex := True\<rparr>) s"
  have m: "os.more t = os.more ?u" "mtx_script t = mtx_script s" "pid t = pid s" "tid t = tid s"
    using assms(1) by (simp_all add: hard_def upd_entry_def)
  have "(clients t)[k := (clients t ! k)\<lparr>send_mutex := False\<rparr>] = clients s"
    using more_server(1) [OF m(1)] assms(3) idleD(5) [OF assms(2,3)] by (simp add: send_mutex_self)
  then have "os.more (upd_entry k (\<lambda>c. c\<lparr>send_mutex := False\<rparr>) t) = os.more s"
    using m(1) by (cases s; cases t) (auto simp: upd_entry_def)
  then show ?thesis using m by (intro serene_more) (simp_all add: upd_entry_def)
qed

lemma serene_stream: "state_io_rel serene (client_manager_send_file_stream fd t m ffd n)"
proof (rule serene_idleI)
  fix r s s'
  assume run: "run_state (client_manager_send_file_stream fd t m ffd n) s = (r, s')" and i: "idle s" and "registry_inv s"
  let ?k = "nat (find_socket_slot fd s)"
  let ?u = "upd_entry ?k (\<lambda>c. c\<lparr>send_mutex := True\<rparr>) s"
  show "s' = s \<or> serene s s'"
  proof (cases "fd < 0 \<or> ffd < 0 \<or> \<not> is_valid_message_type t \<or> length m > MESSAGE_MAX_SIZE \<or>
      n > FILE_MAX_SIZE \<or> find_socket_slot fd s < 0")
    case True
    with run i show ?thesis
      by (auto simp: client_manager_send_file_stream_def run_mutex idleD clients_mutex_restore split: if_splits)
  next
    case False
    then have k: "?k < length (clients s)" "socket_fd (clients s ! ?k) = fd" "active (clients s ! ?k)"
      using slot_props(2) [of fd s] by auto
    obtain r1 u1 where a: "run_state (send_message_raw fd t m) ?u = (r1, u1)" by fastforce
    obtain r2 u2 where b: "stream_loop fd ffd n u1 = (r2, u2)" by fastforce
    have h1: "hard u1 = hard ?u" using raw.any [OF a] hard_wrote by metis
    have h2: "hard u2 = hard ?u" using hard_stream [OF b] h1 by simp
    have mtx: "mtx_script u1 = []" "mtx_script u2 = []" using h1 h2 idleD(1) [OF i] by (simp_all add: hard_def upd_entry_def)
    have "s' = upd_entry ?k (\<lambda>c. c\<lparr>send_mutex := False\<rparr>) u1 \<or> s' = upd_entry ?k (\<lambda>c. c\<lparr>send_mutex := False\<rparr>) u2"
      using run False i k idleD(1,2) [OF i] idleD(5) [OF i k(1)] a b mtx
      by (auto simp: client_manager_send_file_stream_def run_mutex clients_mutex_restore lock_order split: if_splits)
    with serene_released [OF h1 i k(1)] serene_released [OF h2 i k(1)] show ?thesis by auto
  qed
qed

subsection \<open>The file handlers\<close>

lemma serene_upload_loop: "state_io_rel serene (upload_loop fd u f ffd n w)"
proof (induction fd u f ffd n w rule: upload_loop.induct)
  case (1 fd u f ffd n w)
  show ?case
    unfolding upload_loop.simps [of fd u f ffd n w] Let_def by (intro serene_rules "1.IH" refl)
qed

lemma serene_list_loop: "state_io_rel serene (State (list_loop fd d n))"
proof -
  have "serene s (snd (list_loop fd d n s))" for s
  proof (induction fd d n s rule: list_loop.induct)
    case (1 fd d n s)
    obtain e s1 where rd: "run_state (sys_readdir d) s = (e, s1)" by fastforce
    have q1: "serene s s1" using state_io_relD [OF fs_frames(15) [THEN serene_rest(1)] rd] .
    show ?case
    proof (cases "\<exists>name. e = Some name \<and> is_valid_shared_filename name")
      case False
      with rd "1.IH"(1) [OF rd [symmetric]] serene.trans [OF q1] q1 show ?thesis
        by (auto simp: list_loop.simps [of fd d n s] split: option.splits)
    next
      case True
      then obtain name where e: "e = Some name" "is_valid_shared_filename name" by blast
      obtain i s2 where st: "run_state (sys_fstatat d name) s1 = (i, s2)" by fastforce
      have q2: "serene s s2"
        using serene.trans [OF q1 state_io_relD [OF fs_frames(6) [THEN serene_rest(1)] st]] .
      define x where "x = name @ ''|'' @ nat_str (nat (snd (the i)))"
      obtain r s3 where sd: "run_state (client_manager_send fd MSG_FILELIST
          (snd (snprintf (FILE_NAME_MAX_SIZE + 64) x))) s2 = (r, s3)" by fastforce
      have q3: "serene s s3" using serene.trans [OF q2 state_io_relD [OF serene_send sd]] .
      have q4: "serene s (exec (sys_close d) s3)"
        using serene.trans [OF q3 io_rel_exec [OF fs_frames(1) [THEN serene_rest(1)]]] .
      show ?thesis
        using rd st sd e "1.IH"(2-6) [OF rd [symmetric]] q2 q3 q4 serene.trans [OF q2] serene.trans [OF q3]
        by (auto simp: list_loop.simps [of fd d n s] x_def snprintf_def split: option.splits if_splits)
    qed
  qed
  then show ?thesis by (simp add: io_rel_State)
qed

lemma serene_files:
  "state_io_rel serene (file_manager_handle_upload fd u md)"
  "state_io_rel serene (file_manager_handle_download fd u f)"
  "state_io_rel serene (file_manager_handle_list fd u)"
proof -
  note base = serene_rules serene_send serene_stream serene_upload_loop serene_list_loop
  have err: "state_io_rel serene (send_error fd m)" for m
    unfolding send_error_def by (intro base)
  have timer: "state_io_rel serene (start_timer ev)" for ev
    unfolding start_timer_def by (intro base)
  have stops: "state_io_rel serene (upload_stop_timer u f n t)"
    "state_io_rel serene (upload_abort_timer u f n t)"
    "state_io_rel serene (download_stop_timer u f n r t)" for f n t r
    unfolding upload_stop_timer_def upload_abort_timer_def download_stop_timer_def by (intro base)+
  have publish: "state_io_rel serene (upload_publish fd u f n st tmp)" for f n st tmp
    unfolding upload_publish_def by (intro base err)
  have transfer: "state_io_rel serene (upload_transfer fd u f n st tmp ffd)" for f n st tmp ffd
    unfolding upload_transfer_def by (intro base err timer stops publish)
  have create: "state_io_rel serene (upload_create fd u f n st tmp)" for f n st tmp
    unfolding upload_create_def by (intro base err transfer)
  have body: "state_io_rel serene (upload_body fd u f n)" for f n
    unfolding upload_body_def by (intro base err create)
  have cleanup: "state_io_rel serene (upload_cleanup u f n lk v)" for f n lk v
    unfolding upload_cleanup_def by (intro base stops)
  show "state_io_rel serene (file_manager_handle_upload fd u md)"
    unfolding file_manager_handle_upload_def by (intro base err body cleanup)
  have stream: "state_io_rel serene (download_stream fd u f ffd n)" for f ffd n
    unfolding download_stream_def by (intro base err timer stops)
  have dfile: "state_io_rel serene (download_file fd u f ffd)" for f ffd
    unfolding download_file_def by (intro base err stream)
  have dbody: "state_io_rel serene (download_body fd u f st)" for f st
    unfolding download_body_def by (intro base err dfile)
  show "state_io_rel serene (file_manager_handle_download fd u f)"
    unfolding file_manager_handle_download_def download_cleanup_def by (intro base err dbody)
  show "state_io_rel serene (file_manager_handle_list fd u)"
    unfolding file_manager_handle_list_def list_opened_def list_close_def list_end_def by (intro base err)
qed

subsection \<open>Messages\<close>

definition sound :: "server \<Rightarrow> bool" where
  "sound s \<longleftrightarrow> settled s \<and> wf_locks s \<and> wf_storage s"

text \<open>\<open>tidy\<close>: the registry, the descriptors and the well-formedness of the server are kept.\<close>

definition tidy :: "server \<Rightarrow> server \<Rightarrow> bool" where
  "tidy s s' \<longleftrightarrow> (sound s \<longrightarrow> sound s' \<and> others s' = others s \<and> fds s' = fds s)"

interpretation tidy: frame_rel tidy
  by unfold_locales (auto simp: tidy_def)

lemma tidyI: "serene s t \<Longrightarrow> core t = core s \<Longrightarrow> tidy s t"
  by (auto simp: tidy_def serene_def sound_def wf_locks_def wf_storage_def entry_def core_def)

lemma tidy_same:
  "state_io_rel serene m \<Longrightarrow> state_io_rel (same core) m \<Longrightarrow> state_io_rel tidy m"
proof
  fix r s s'
  assume a: "state_io_rel serene m" and b: "state_io_rel (same core) m" and run: "run_state m s = (r, s')"
  show "tidy s s'" by (rule tidyI [OF state_io_relD [OF a run] same_run [OF b run]])
qed

lemma core_weaken:
  "state_io_rel (same send_rest) m \<Longrightarrow> state_io_rel (same core) m"
  "state_io_rel (same no_mutex) m \<Longrightarrow> state_io_rel (same core) m"
  "state_io_rel (same log_rest) m \<Longrightarrow> state_io_rel (same core) m"
proof -
  show "state_io_rel (same send_rest) m \<Longrightarrow> state_io_rel (same core) m"
    by (erule same_weaken) (simp add: send_rest_def core_def)
  show "state_io_rel (same no_mutex) m \<Longrightarrow> state_io_rel (same core) m"
    by (erule same_weaken) (rule core_no_mutex)
  show "state_io_rel (same log_rest) m \<Longrightarrow> state_io_rel (same core) m"
    by (erule same_weaken) (drule core_log, simp)
qed

lemma core_wrote: "wrote fd w s t \<Longrightarrow> core t = core s"
  using said_wrote [of fd w s t] by (simp add: said_def)

lemma core_took: "took fd k s t \<Longrightarrow> core t = core s"
  using more_server [of t s] by (simp add: took_def net_rest_def core_def)

lemma core_net:
  "state_io_rel (same core) (send_all fd bs)" "state_io_rel (same core) (recv_all fd n)"
proof -
  show "state_io_rel (same core) (send_all fd bs)"
    by (rule state_io_relI) (metis send_all_wrote core_wrote same_def)
  show "state_io_rel (same core) (recv_all fd n)"
    by (rule state_io_relI) (metis recv_all_took core_took same_def surj_pair)
qed

lemma tidy_base:
  "state_io_rel tidy (log_event ev)"
  "state_io_rel tidy (client_manager_send fd t p)"
  "state_io_rel tidy (client_manager_send_to_username n t p)"
  "state_io_rel tidy (client_manager_broadcast fd t p)"
  "state_io_rel tidy client_manager_count"
  "state_io_rel tidy (client_manager_build_userlist k)"
  "state_io_rel tidy (send_all fd bs)"
  "state_io_rel tidy (recv_all fd k)"
  by (intro tidy_same serene_rules serene_send serene_send_to serene_broadcast serene_queries core_net
      routing_frames [THEN core_weaken(1)] query_frames [THEN core_weaken(2)] log_event_frame [THEN core_weaken(3)])+

lemma tidy_files:
  "state_io_rel tidy (file_manager_handle_upload fd u md)"
  "state_io_rel tidy (file_manager_handle_download fd u f)"
  "state_io_rel tidy (file_manager_handle_list fd u)"
proof -
  have locks: "wf_locks t" if "fds t = fds s" "set (ofd_locks t) \<subseteq> set (ofd_locks s)" "wf_locks s" for s t :: server
    using that by (auto simp: wf_locks_def)
  have step: "tidy s s'" if "serene s s'" "sound s \<Longrightarrow> fds s' = fds s \<and> set (ofd_locks s') \<subseteq> set (ofd_locks s) \<and> wf_storage s'"
    for s s'
    using that locks by (auto simp: tidy_def sound_def serene_def)
  show "state_io_rel tidy (file_manager_handle_upload fd u md)"
  proof
    fix r s s'
    assume run: "run_state (file_manager_handle_upload fd u md) s = (r, s')"
    show "tidy s s'"
    proof (rule step [OF state_io_relD [OF serene_files(1) run]])
      assume "sound s"
      then have wf: "wf_locks s" "wf_storage s" by (simp_all add: sound_def)
      show "fds s' = fds s \<and> set (ofd_locks s') \<subseteq> set (ofd_locks s) \<and> wf_storage s'"
      proof (cases "parse_upload_metadata md FILE_NAME_MAX_SIZE")
        case None
        with run have rej: "run_state (do { log_event (RejectedUploadMetadata u);
            send_error fd ''INVALID_UPLOAD_METADATA'' }) s = (r, s')" by (simp add: file_manager_handle_upload_def)
        have "answered fd [] None r (fds s) s s'"
          using answered_error [OF rej log_event_frame(1) [THEN silent_rules(2)]] silent.refl by simp
        then have "core s' = core s" by (auto simp: answered_def said_def)
        with wf show ?thesis by (simp add: core_def wf_storage_def entry_def)
      next
        case (Some x)
        then obtain f n where p: "parse_upload_metadata md FILE_NAME_MAX_SIZE = Some (f, n)" by (cases x) auto
        note U = handle_upload_spec [OF run wf p]
        then have "touched {temp_name fd s} s s' \<or> touched {temp_name fd s, f} s s'"
          unfolding upload_outcome_def published_def by blast
        with U wf(2) show ?thesis by (auto simp: touched_def)
      qed
    qed
  qed
  show "state_io_rel tidy (file_manager_handle_download fd u f)"
  proof
    fix r s s'
    assume run: "run_state (file_manager_handle_download fd u f) s = (r, s')"
    show "tidy s s'"
      by (rule step [OF state_io_relD [OF serene_files(2) run]])
        (use handle_download_spec [OF run] in \<open>auto simp: sound_def touched_def\<close>)
  qed
  show "state_io_rel tidy (file_manager_handle_list fd u)"
  proof
    fix r s s'
    assume run: "run_state (file_manager_handle_list fd u) s = (r, s')"
    show "tidy s s'"
      by (rule step [OF state_io_relD [OF serene_files(3) run]])
        (use handle_list_spec [OF run] in \<open>auto simp: sound_def touched_def\<close>)
  qed
qed

lemma tidy_handle_message: "state_io_rel tidy (handle_message fd i u t p)"
proof -
  note base = tidy.io_sys tidy_base tidy_files
  have reply: "state_io_rel tidy (reply fd t m)" for t m
    unfolding reply_def by (intro base)
  have chat: "state_io_rel tidy (handle_chat fd i u p)"
    unfolding handle_chat_def by (intro base reply)
  have priv: "state_io_rel tidy (handle_private fd u p)"
    unfolding handle_private_def send_private_def private_delivered_def by (intro base reply)
  have users: "state_io_rel tidy (handle_list_users fd u)"
    unfolding handle_list_users_def by (intro base reply)
  show ?thesis
    unfolding handle_message_def by (intro base reply chat priv users)
qed

lemma tidy_receive: "state_io_rel tidy (receive_message fd k)"
  unfolding receive_message_def by (intro tidy.io_sys tidy_base)

lemma tidy_send: "state_io_rel tidy (send_message fd t p)"
  unfolding send_message_def by (intro tidy.io_sys tidy_base)

lemma tidy_client_loop: "state_io_rel tidy (State (client_loop fd cid user))"
proof -
  have "tidy s (snd (client_loop fd cid user s))" for s
  proof (induction fd cid user s rule: client_loop.induct)
    case (1 fd cid user s)
    obtain r t p s1 where rx: "run_state (receive_message fd (MESSAGE_MAX_SIZE + 1)) s = ((r, t, p), s1)" by (metis surj_pair)
    obtain b s2 where hm: "run_state (handle_message fd cid user t (cstr p)) s1 = (b, s2)" by fastforce
    have t1: "tidy s s1" using state_io_relD [OF tidy_receive rx] .
    have t2: "tidy s s2" using tidy.trans [OF t1 state_io_relD [OF tidy_handle_message hm]] .
    have log: "tidy s (exec (log_event ev) s1)" for ev using tidy.trans [OF t1 io_rel_exec [OF tidy_base(1)]] .
    note unfold = client_loop.simps [of fd cid user s]
    consider "r = 1" | "r < 0" | "r \<noteq> 1" "\<not> r < 0" "b" | "r \<noteq> 1" "\<not> r < 0" "\<not> b" by blast
    then show ?case
    proof cases
      case 3
      with "1.IH" [OF rx [symmetric] refl refl] hm tidy.trans [OF t2] rx show ?thesis by (simp add: unfold)
    qed (use rx hm log t2 in \<open>simp_all add: unfold\<close>)
  qed
  then show ?thesis by (simp add: io_rel_State)
qed

subsection \<open>Login and logout\<close>

lemma sound_registry:
  assumes "tidy s t" and "sound s"
  shows "sound t" "registry t = registry s" "next_client_id t = next_client_id s" "fds t = fds s" "tid t = tid s"
  using assms registry_others [of t s] by (auto simp: tidy_def others_def)

definition free_fd :: "int \<Rightarrow> server \<Rightarrow> bool" where
  "free_fd fd s \<longleftrightarrow> 0 \<le> fd \<and> (\<forall>m i. registry s m \<noteq> Some (fd, i))"

lemma sound_same:
  assumes "sound s" and "settled t" and "fds t = fds s" and "dirs t = dirs s" and "ofd_locks t = ofd_locks s"
    and "next_ino t = next_ino s"
  shows "sound t"
  using assms by (simp add: sound_def wf_locks_def wf_storage_def entry_def)

lemma add_sound:
  assumes "run_state (client_manager_add fd th n) s = (cid, s')" and "sound s" and "free_fd fd s"
  shows "sound s' \<and> fds s' = fds s \<and>
    (cid < 0 \<and> s' = s \<or> cid = sint (next_client_id s) \<and> is_valid_username n \<and> registry s n = None \<and>
       registry s' = (registry s)(n \<mapsto> (fd, next_client_id s)))"
proof -
  have i: "idle s" "registry_inv s" using assms(2) by (auto simp: sound_def settled_def)
  have add: "run_state (client_manager_add fd th n) s = (cid, s')" by fact
  consider "\<not> is_valid_username n \<or> registry s n \<noteq> None \<or> find_free_slot s < 0"
    | (ok) "is_valid_username n" "registry s n = None" "0 \<le> find_free_slot s" by force
  then show ?thesis
  proof cases
    case 1
    then have "cid < 0 \<and> s' = s" using add by (auto simp: add_idle [OF i(1)] registry_None_iff split: if_splits)
    with assms(2) show ?thesis by simp
  next
    case ok
    have "find_username_slot n s < 0" using ok(2) by (simp add: registry_None_iff)
    then have s': "s' = register_entry (find_free_slot s) fd th n s" and cid: "cid = sint (next_client_id s)"
      using add ok by (auto simp: add_idle [OF i(1)] split: if_splits)
    have "idle s \<and> registry_inv s" using i by simp
    from reg.add_new [OF this ok(1,2) _ _ _, of fd th] ok(3) assms(3) add
    have reg: "registry s' = (registry s)(n \<mapsto> (fd, next_client_id s))" "idle s' \<and> registry_inv s'"
      by (auto simp: free_fd_def)
    have "sound s'"
      by (rule sound_same [OF assms(2)]) (use reg(2) in \<open>simp_all add: settled_def s' register_entry_def upd_entry_def\<close>)
    with reg(1) cid ok show ?thesis by (simp add: s' register_entry_def upd_entry_def)
  qed
qed

lemma remove_sound:
  assumes "run_state (client_manager_remove fd) s = (r, s')" and "sound s"
  shows "sound s' \<and> fds s' = fds s \<and> (registry s n = Some (fd, i) \<longrightarrow> registry s' = (registry s)(n := None))"
proof -
  have i: "idle s" "registry_inv s" using assms(2) by (auto simp: sound_def settled_def)
  have "settled s'"
    using keeps_run [OF remove_keeps_inv assms(1) i(2)] assms(1) i(1) idle_clear
    by (auto simp: settled_def remove_idle [OF i(1)] split: if_splits)
  moreover have "s' = s \<or> s' = upd_entry (nat (find_socket_slot fd s)) clear_entry s"
    using assms(1) by (auto simp: remove_idle [OF i(1)] split: if_splits)
  ultimately have "sound s'" "fds s' = fds s" using sound_same [OF assms(2)] by (auto simp: upd_entry_def)
  moreover have "registry s' = (registry s)(n := None)" if "registry s n = Some (fd, i)"
    using reg.remove_known [of s n fd i] i that assms(1) by simp
  ultimately show ?thesis by simp
qed

lemma refuse:
  assumes "run_state (do { _ \<leftarrow> send_message fd t m; log_event ev; ret x }) s = (y, s')"
  shows "tidy s s' \<and> y = x"
proof
  have "state_io_rel tidy (do { _ \<leftarrow> send_message fd t m; log_event ev; ret x })"
    by (intro tidy.io_sys tidy_send tidy_base)
  from state_io_relD [OF this assms] show "tidy s s'" .
  show "y = x" using assms by (elim run_bindE) simp
qed

lemma logged:
  assumes "run_state (do { log_event ev; ret x }) s = (y, s')"
  shows "tidy s s' \<and> y = x"
proof
  have "state_io_rel tidy (do { log_event ev; ret x })" by (intro tidy.io_sys tidy_base)
  from state_io_relD [OF this assms] show "tidy s s'" .
  show "y = x" using assms by (elim run_bindE) simp
qed

text \<open>A login either leaves the registry as it was or enters the name for this connection.\<close>

definition logged_in :: "int \<Rightarrow> int \<Rightarrow> string \<Rightarrow> server \<Rightarrow> server \<Rightarrow> bool" where
  "logged_in fd cid user s s' \<longleftrightarrow> sound s' \<and> fds s' = fds s \<and>
     (cid \<le> 0 \<and> registry s' = registry s \<or>
      cid = sint (next_client_id s) \<and> is_valid_username user \<and> registry s user = None \<and>
        registry s' = (registry s)(user \<mapsto> (fd, next_client_id s)))"

lemma login_succeeded_spec:
  assumes "run_state (login_succeeded fd cid user) t = (r, s')" and "sound t" and "0 < cid"
    and "registry t user = Some (fd, i)"
  shows "sound s' \<and> fds s' = fds t \<and>
    (r = cid \<and> registry s' = registry t \<or> r = -1 \<and> registry s' = (registry t)(user := None))"
proof -
  let ?text = "''LOGIN_SUCCESS '' @ user"
  obtain q t1 where a: "run_state (client_manager_send fd MSG_RESPONSE (snd (snprintf (USERNAME_MAX_SIZE + 32) ?text))) t = (q, t1)"
    by fastforce
  define t2 where "t2 = exec (log_event (LoginSendFailed cid user)) t1"
  define t3 where "t3 = exec (log_event (LoginSuccess cid user)) t1"
  obtain x u where b: "run_state (client_manager_remove fd) t = (x, u)" by fastforce
  obtain y w where c: "run_state (client_manager_remove fd) t2 = (y, w)" by fastforce
  have t1: "tidy t t1" using state_io_relD [OF tidy_base(2) a] .
  have t2: "tidy t t2" and t3: "tidy t t3"
    using tidy.trans [OF t1 io_rel_exec [OF tidy_base(1)]] by (simp_all add: t2_def t3_def)
  note S2 = sound_registry [OF t2 assms(2)] and S3 = sound_registry [OF t3 assms(2)]
  have U: "sound u \<and> fds u = fds t \<and> registry u = (registry t)(user := None)"
    using remove_sound [OF b assms(2), of user i] assms(4) by simp
  have W: "sound w \<and> fds w = fds t \<and> registry w = (registry t)(user := None)"
    using remove_sound [OF c S2(1), of user i] S2 assms(4) by simp
  have "r = -1 \<and> s' = u \<or> r = -1 \<and> s' = w \<or> r = cid \<and> s' = t3"
    using assms(1) a b c by (auto simp: login_succeeded_def t2_def t3_def snprintf_def Let_def split: if_splits prod.splits)
  with U W S3 show ?thesis by auto
qed

lemma login_register_spec:
  assumes "run_state (login_register fd user) s = (cid, s')" and "sound s" and "free_fd fd s"
    and "0 < sint (next_client_id s)"
  shows "logged_in fd cid user s s'"
proof -
  obtain c t where add: "run_state (client_manager_add fd (tid s) user) s = (c, t)" by fastforce
  note A = add_sound [OF add assms(2,3)]
  show ?thesis
  proof (cases "c < 0")
    case True
    with A assms(4) have t: "t = s" by auto
    consider "run_state (do { _ \<leftarrow> send_message fd MSG_ERROR ''USERNAME_ALREADY_EXISTS'';
          log_event (LoginDuplicate user); ret 0 }) s = (cid, s')"
      | "run_state (do { _ \<leftarrow> send_message fd MSG_ERROR ''SERVER_CLIENT_LIMIT'';
          log_event (LoginUnableToRegister user); ret (- 1) }) s = (cid, s')"
      using assms(1) add True t by (simp add: login_register_def split: if_splits)
    then have "tidy s s' \<and> cid \<le> 0" using refuse by cases fastforce+
    with sound_registry [of s s'] assms(2) show ?thesis by (simp add: logged_in_def)
  next
    case False
    with A have c: "c = sint (next_client_id s)" "is_valid_username user" "registry s user = None"
      "registry t = (registry s)(user \<mapsto> (fd, next_client_id s))" "sound t" "fds t = fds s" by auto
    have run: "run_state (login_succeeded fd c user) t = (cid, s')"
      using assms(1) add False by (simp add: login_register_def)
    have "0 < c" using c(1) assms(4) by simp
    moreover have "registry t user = Some (fd, next_client_id s)" using c(4) by simp
    ultimately show ?thesis
      using login_succeeded_spec [OF run c(5)] c by (auto simp: logged_in_def fun_upd_idem)
  qed
qed

lemma login_answer_spec:
  assumes "run_state (login_answer fd USERNAME_MAX_SIZE) s = ((cid, user), s')" and "sound s" and "free_fd fd s"
    and "0 < sint (next_client_id s)"
  shows "logged_in fd cid user s s'"
proof -
  obtain r t p s2 where b: "run_state (receive_message fd (MESSAGE_MAX_SIZE + 1)) s = ((r, t, p), s2)" by (metis surj_pair)
  have t2: "tidy s s2" using state_io_relD [OF tidy_receive b] .
  note S2 = sound_registry [OF t2 assms(2)]
  let ?u = "strncpy_buf USERNAME_MAX_SIZE (cstr p)"
  obtain c s3 where lr: "run_state (login_register fd ?u) s2 = (c, s3)" by fastforce
  have "logged_in fd c ?u s2 s3"
    using login_register_spec [OF lr S2(1)] assms(3,4) S2 by (simp add: free_fd_def)
  then have L: "logged_in fd c ?u s s3" using S2 by (simp add: logged_in_def)
  have quit: "logged_in fd cid user s s'" if "tidy s u" "tidy u s'" "cid \<le> 0" for u
    using sound_registry [OF tidy.trans [OF that(1,2)] assms(2)] that(3) by (simp add: logged_in_def)
  consider "run_state (do { log_event (LoginDisconnected fd); ret (- 1, []) }) s2 = ((cid, user), s')"
    | "run_state (do { _ \<leftarrow> send_message fd MSG_ERROR ''LOGIN_REQUIRED''; log_event (LoginNonLogin fd); ret (0, []) }) s2
        = ((cid, user), s')"
    | "run_state (do { _ \<leftarrow> send_message fd MSG_ERROR ''INVALID_USERNAME''; log_event (LoginInvalidUsername fd);
        ret (0, []) }) s2 = ((cid, user), s')"
    | (go) "cid = c" "user = ?u" "s' = s3"
    using assms(1) b lr by (simp add: login_answer_def Let_def split: if_splits)
  then show ?thesis
  proof cases
    case 1
    from logged [OF this] quit [OF t2] show ?thesis by simp
  next
    case 2
    from refuse [OF this] quit [OF t2] show ?thesis by simp
  next
    case 3
    from refuse [OF this] quit [OF t2] show ?thesis by simp
  next
    case go
    with L show ?thesis by simp
  qed
qed

lemma perform_login_spec:
  assumes "run_state (perform_login fd USERNAME_MAX_SIZE) s = ((cid, user), s')" and "sound s" and "free_fd fd s"
    and "0 < sint (next_client_id s)"
  shows "logged_in fd cid user s s'"
proof -
  obtain q s1 where a: "run_state (send_message fd MSG_RESPONSE ''USERNAME_REQUIRED'') s = (q, s1)" by fastforce
  have t1: "tidy s s1" using state_io_relD [OF tidy_send a] .
  note S1 = sound_registry [OF t1 assms(2)]
  show ?thesis
  proof (cases "q = 0")
    case True
    with assms(1) a have "run_state (login_answer fd USERNAME_MAX_SIZE) s1 = ((cid, user), s')" by (simp add: perform_login_def)
    from login_answer_spec [OF this S1(1)] assms(3,4) S1 show ?thesis by (simp add: free_fd_def logged_in_def)
  next
    case False
    with assms(1) a have run: "run_state (do { log_event (LoginRequestFailed fd); ret (- 1, []) }) s1 = ((cid, user), s')"
      by (simp add: perform_login_def)
    with logged [OF run] sound_registry [OF tidy.trans [OF t1] assms(2)] show ?thesis by (simp add: logged_in_def)
  qed
qed

subsection \<open>The thread\<close>

lemma close_sound:
  assumes "run_state (sys_close fd) s = (c, t)" and "sound s" and "fd_obj s fd \<noteq> None"
  shows "sound t" and "registry t = registry s" and "fds t = AList.delete fd (fds s)"
proof -
  have b: "blip (closed fd s) t" using sys_close_spec [OF assms(1,3)] by blast
  have q: "serene s t" using state_io_relD [OF fs_frames(1) [THEN serene_rest(1)] assms(1)] .
  show fds: "fds t = AList.delete fd (fds s)" using blipD(1) [OF b] by (simp add: closed_def)
  have "wf_locks t"
    using assms(2) fds blipD(5) [OF b] by (force simp: sound_def wf_locks_def closed_def AList.delete_eq)
  moreover have "wf_storage t"
    using assms(2) blipD(2,4) [OF b] by (simp add: sound_def wf_storage_def entry_def closed_def)
  ultimately show "sound t" using q assms(2) by (simp add: sound_def serene_def)
  show "registry t = registry s" using q assms(2) registry_others [of t s] by (simp add: sound_def serene_def)
qed

lemma close_session:
  assumes "run_state (do { _ \<leftarrow> sys_close fd; a }) s = (x, s')" and "sound s" and "fd_obj s fd \<noteq> None"
    and "state_io_rel tidy a"
  shows "sound s' \<and> registry s' = registry s \<and> fds s' = AList.delete fd (fds s)"
proof -
  from assms(1) obtain c t where cl: "run_state (sys_close fd) s = (c, t)" and run: "run_state a t = (x, s')"
    by (elim run_bindE)
  note C = close_sound [OF cl assms(2,3)]
  show ?thesis using sound_registry [OF state_io_relD [OF assms(4) run] C(1)] C by simp
qed

lemma connection_end_spec:
  assumes "run_state (connection_end fd cid user) s = (x, s')" and "sound s" and "fd_obj s fd \<noteq> None"
    and "registry s user = Some (fd, i)"
  shows "sound s' \<and> registry s' = (registry s)(user := None) \<and> fds s' = AList.delete fd (fds s)"
proof -
  obtain q s1 where a: "run_state (client_manager_remove fd) s = (q, s1)" by fastforce
  obtain y s2 where b: "run_state (if q = 0 then ret () else log_event (RemovalFailed cid user)) s1 = (y, s2)"
    by (rule that [OF surjective_pairing])
  obtain n s3 where c: "run_state client_manager_count s2 = (n, s3)" by fastforce
  obtain z s4 where d: "run_state (log_event (ClientRemoved cid user n)) s3 = (z, s4)" by (rule that [OF surjective_pairing])
  have run: "run_state (do { _ \<leftarrow> sys_close fd; do { t \<leftarrow> gets tid; log_event (ThreadTerminated t user) } }) s4 = (x, s')"
    using assms(1) unfolding connection_end_def
    by (simp only: run_bind [OF a] run_bind [OF b] run_bind [OF c] run_bind [OF d])
  have R: "sound s1" "fds s1 = fds s" "registry s1 = (registry s)(user := None)"
    using remove_sound [OF a assms(2), of user i] assms(4) by auto
  have "state_io_rel tidy (if q = 0 then ret () else log_event (RemovalFailed cid user))"
    by (intro tidy.io_sys tidy_base)
  from state_io_relD [OF this b] state_io_relD [OF tidy_base(5) c] state_io_relD [OF tidy_base(1) d]
  have t: "tidy s1 s4" by (blast intro: tidy.trans)
  note S = sound_registry [OF t R(1)]
  have open4: "fd_obj s4 fd \<noteq> None" using assms(3) S(4) R(2) by (simp add: fd_obj_def)
  have "state_io_rel tidy (do { t \<leftarrow> gets tid; log_event (ThreadTerminated t user) })"
    by (intro tidy.io_sys tidy_base)
  from close_session [OF run S(1) open4 this] S R show ?thesis by simp
qed

lemma client_handler_spec:
  assumes "run_state (client_handler fd) s = (x, s')" and "sound s" and "free_fd fd s"
    and "0 < sint (next_client_id s)" and "fd_obj s fd \<noteq> None"
  shows "sound s' \<and> registry s' = registry s \<and> fds s' = AList.delete fd (fds s)"
proof -
  obtain y s1 where a: "run_state (log_event (ThreadStarted (tid s) fd)) s = (y, s1)" by (rule that [OF surjective_pairing])
  obtain cid user s2 where b: "run_state (perform_login fd USERNAME_MAX_SIZE) s1 = ((cid, user), s2)" by (metis surj_pair)
  obtain z s3 where c: "client_loop fd cid user s2 = (z, s3)" by (rule that [OF surjective_pairing])
  have t: "tidy s s1" using state_io_relD [OF tidy_base(1) a] .
  note S = sound_registry [OF t assms(2)]
  have L: "logged_in fd cid user s1 s2"
    using perform_login_spec [OF b S(1)] assms(3,4) S by (simp add: free_fd_def)
  have open2: "fd_obj s2 fd \<noteq> None" using assms(5) L S(4) by (simp add: fd_obj_def logged_in_def)
  show ?thesis
  proof (cases "cid \<le> 0")
    case True
    then have reg: "registry s2 = registry s" "sound s2" "fds s2 = fds s"
      using L S assms(4) by (auto simp: logged_in_def)
    have run: "run_state (do { _ \<leftarrow> sys_close fd; log_event (UnregisteredTerminated (tid s)) }) s2 = (x, s')"
      using assms(1) a b True by (simp add: client_handler_def)
    from close_session [OF run reg(2) open2 tidy_base(1)] reg show ?thesis by simp
  next
    case False
    with L have lg: "registry s2 = (registry s1)(user \<mapsto> (fd, next_client_id s1))" "registry s1 user = None" "sound s2"
      "fds s2 = fds s1" by (auto simp: logged_in_def)
    have t3: "tidy s2 s3" using io_rel_exec [OF tidy_client_loop [of fd cid user], of s2] c by simp
    note S3 = sound_registry [OF t3 lg(3)]
    have run: "run_state (connection_end fd cid user) s3 = (x, s')"
      using assms(1) a b c False by (simp add: client_handler_def)
    have "registry s3 user = Some (fd, next_client_id s1)" using S3(2) lg(1) by simp
    from connection_end_spec [OF run S3(1) _ this] S3 lg S open2 show ?thesis by (simp add: fd_obj_def fun_upd_idem)
  qed
qed

end
