(* ===== verification/Handler_Properties.thy ===== *)
theory Handler_Properties
  imports Session Online
begin

section \<open>The properties of the client handler\<close>

subsection \<open>Frames\<close>

text \<open>The handler's own sender and receiver meet the contracts of \<open>Framing\<close>.\<close>

interpretation hsend: frame_sender send_message is_valid_message_type
proof (unfold_locales, goal_cases)
  case (1 t p fd s)
  then show ?case by (auto simp: send_message_def)
next
  case (2 t p fd s)
  then show ?case by (auto simp: send_message_def split: prod.splits)
qed

lemma receive_header:
  assumes "run_state (recv_all fd HEADER_SIZE) s = ((0, header_bytes \<lparr>type_field = t, length_field = of_nat (length p)\<rparr>), s1)"
    and "is_valid_message_type t" and "length p \<le> MESSAGE_MAX_SIZE"
  shows "run_state (receive_message fd (MESSAGE_MAX_SIZE + 1)) s =
    (if p = [] then ((0, t, []), s1)
     else case run_state (recv_all fd (length p)) s1 of ((r, q), s2) \<Rightarrow> if r \<noteq> 0 then ((r, 0, []), s2) else ((0, t, q), s2))"
proof -
  have "parse_header (header_bytes \<lparr>type_field = t, length_field = of_nat (length p)\<rparr>) =
      \<lparr>type_field = t, length_field = of_nat (length p)\<rparr>" using parse_header_bytes [of _ "[]"] by simp
  with assms show ?thesis
    by (auto simp: receive_message_def unat_payload_length split: prod.splits)
qed

lemma took_inbox: "took fd k s s' \<Longrightarrow> inbox (socks s' fd) = drop k (inbox (socks s fd))"
  by (simp add: took_def)

interpretation hrecv: frame_receiver "\<lambda>fd. receive_message fd (MESSAGE_MAX_SIZE + 1)"
proof (unfold_locales, goal_cases)
  case (1 fd s t p s')
  from receive_message_ok [OF this] show ?case by blast
next
  case (2 fd s t p rest)
  let ?h = "header_bytes \<lparr>type_field = t, length_field = of_nat (length p)\<rparr>"
  have inb: "inbox (socks s fd) = ?h @ p @ rest" using 2(4) by (simp add: frame_def)
  then have "HEADER_SIZE \<le> length (inbox (socks s fd))" "take HEADER_SIZE (inbox (socks s fd)) = ?h"
    by (simp_all add: HEADER_SIZE_def)
  with recv_all_calm [OF 2(1)] obtain s1 where a: "run_state (recv_all fd HEADER_SIZE) s = ((0, ?h), s1)"
    "took fd HEADER_SIZE s s1" "calm fd s1" by metis
  have inb1: "inbox (socks s1 fd) = p @ rest" using took_inbox [OF a(2)] inb by (simp add: HEADER_SIZE_def)
  then have "length p \<le> length (inbox (socks s1 fd))" "take (length p) (inbox (socks s1 fd)) = p" by simp_all
  with recv_all_calm [OF a(3)] obtain s2 where b: "run_state (recv_all fd (length p)) s1 = ((0, p), s2)" "calm fd s2"
    by metis
  show ?case using receive_header [OF a(1) 2(2,3)] a(3) b by (cases "p = []") auto
next
  case (3 fd s r t p s')
  have "r = 1 \<or> r = -1" using receive_result [OF 3(1)] 3(2) by blast
  moreover have "\<exists>k. drew fd k s s'"
  proof -
    obtain r1 h s1 where a: "run_state (recv_all fd HEADER_SIZE) s = ((r1, h), s1)" by (metis surj_pair)
    from recv_all_took [OF a] obtain k1 where t1: "took fd k1 s s1" by metis
    obtain r2 q s2 where b: "run_state (recv_all fd (unat (length_field (parse_header h)))) s1 = ((r2, q), s2)" by (metis surj_pair)
    from recv_all_took [OF b] obtain k2 where t2: "took fd k2 s1 s2" by metis
    have d: "drew fd k1 s s1" "drew fd (k1 + k2) s s2"
      using took_drew [OF t1] took_drew [OF took_trans [OF t1 t2]] by auto
    have lg: "drew fd k1 s (exec (log_event ev) s1)" for ev
    proof -
      have "log_rest (exec (log_event ev) s1) = log_rest s1" by (rule same_exec [OF log_event_frame(1)])
      from log_socks [OF this] d(1) show ?thesis by (simp add: drew_def)
    qed
    have "s' \<in> {s1, s2} \<or> s' = exec (log_event (RejectedMessageType (type_field (parse_header h)) fd)) s1 \<or>
        s' = exec (log_event (RejectedOversized (length_field (parse_header h)) fd)) s1"
      using 3(1) a b by (auto simp: receive_message_def Let_def split: if_splits prod.splits)
    with d lg show ?thesis by blast
  qed
  ultimately show ?case by blast
qed

interpretation hchan: frame_channel send_message is_valid_message_type "\<lambda>fd. receive_message fd (MESSAGE_MAX_SIZE + 1)"
  by unfold_locales

text \<open>C18: a message of any valid type and up to the maximal length that a sender reports as sent is
  received by the handler with the same type and payload, whatever interruptions and short
  transfers occur on either side, and the stream then stands at the next message.\<close>

theorem frame_round_trip:
  assumes "run_state (send_message fd t p) s = (0, s')" and "outbox (socks s fd) = []"
    and "is_valid_message_type t" and "calm fd' u" and "inbox (socks u fd') = outbox (socks s' fd) @ later"
  shows "\<exists>u'. run_state (receive_message fd' (MESSAGE_MAX_SIZE + 1)) u = ((0, t, p), u') \<and>
    inbox (socks u' fd') = later"
  using hchan.delivered [OF assms] .

definition reader :: server where
  "reader = online\<lparr>net_script := [Short 3, Fault EINTR],
     socks := (socks online)(4 := \<lparr>inbox = frame MSG_CHAT ''hi'' @ ''x'', outbox = [], shut = False\<rparr>)\<rparr>"

lemma online_socks: "socks online = (\<lambda>_. \<lparr>inbox = [], outbox = [], shut = False\<rparr>)"
  by (simp add: online_def alice_only_def nobody_def boot_def register_entry_def upd_entry_def)

theorem frame_round_trip_witness:
  "\<exists>u. run_state (receive_message 4 (MESSAGE_MAX_SIZE + 1)) reader = ((0, MSG_CHAT, ''hi''), u) \<and>
    inbox (socks u 4) = ''x''"
proof -
  have "length ''hi'' \<le> MESSAGE_MAX_SIZE" by (simp add: MESSAGE_MAX_SIZE_def)
  from hsend.lively [OF _ this online_calm, of MSG_CHAT 3] obtain s' where
    s': "run_state (send_message 3 MSG_CHAT ''hi'') online = (0, s')" "wrote 3 (frame MSG_CHAT ''hi'') online s'" by auto
  have "outbox (socks s' 3) = frame MSG_CHAT ''hi''" using s'(2) by (simp add: wrote_def online_socks)
  then have "inbox (socks reader 4) = outbox (socks s' 3) @ ''x''" by (simp add: reader_def)
  moreover have "calm 4 reader"
    using online_calm [of 4] by (simp add: calm_def reader_def is_sock_def fd_obj_def)
  ultimately show ?thesis using frame_round_trip [OF s'(1), of 4 reader "''x''"] by (simp add: online_socks)
qed

subsection \<open>The thread\<close>

text \<open>C3: for every input a client may send and every failure of socket, file and log calls, the
  thread that serves it ends; then the registry is what it was before, no mutex is held, the
  client's socket is closed and no other descriptor was opened or lost.\<close>

theorem session_leaves_nothing_behind:
  assumes "idle s" and "registry_inv s" and "wf_locks s" and "wf_storage s" and "0 \<le> fd"
    and "\<forall>m i. registry s m \<noteq> Some (fd, i)" and "fd_obj s fd = Some FSock" and "0 < sint (next_client_id s)"
  shows "idle (exec (client_handler fd) s) \<and> registry_inv (exec (client_handler fd) s) \<and>
    registry (exec (client_handler fd) s) = registry s \<and> fds (exec (client_handler fd) s) = AList.delete fd (fds s)"
  using client_handler_spec [OF surjective_pairing, of s fd] assms by (simp add: sound_def settled_def free_fd_def)

lemma online_wf: "wf_locks online" "wf_storage online"
  by (simp_all add: wf_locks_def wf_storage_def entry_def online_def alice_only_def nobody_def
      boot_def register_entry_def upd_entry_def)

theorem session_leaves_nothing_behind_witness:
  "registry (exec (client_handler 5) online) = [''alice'' \<mapsto> (3, 1), ''bob'' \<mapsto> (4, 2)] \<and>
   fds (exec (client_handler 5) online) = [(3, FSock), (4, FSock)]"
proof -
  have f: "fds online = [(3, FSock), (4, FSock), (5, FSock)]" "next_client_id online = 3"
    by (simp_all add: online_def alice_only_def nobody_def boot_def register_entry_def upd_entry_def)
  then have "fd_obj online 5 = Some FSock" "0 < sint (next_client_id online)" by (simp_all add: fd_obj_def)
  moreover have "\<forall>m i. registry online m \<noteq> Some (5, i)" by (simp add: online_ok)
  ultimately show ?thesis
    using session_leaves_nothing_behind [of online 5] online_ok online_wf f(1) by simp
qed

text \<open>C33: once the identifier counter has passed the largest positive \<open>int\<close>, a successful
  registration is reported as a negative number; the login is then refused and the socket
  closed, but the name and the table slot stay taken for ever.\<close>

theorem overflowed_id_leaks_the_slot:
  assumes "idle s" and "registry_inv s" and "wf_locks s" and "wf_storage s" and "0 \<le> fd"
    and "\<forall>m i. registry s m \<noteq> Some (fd, i)" and "is_valid_username user" and "registry s user = None"
    and "0 \<le> find_free_slot s" and "sint (next_client_id s) < 0" and "sint (next_client_id s) \<noteq> -2"
  shows "eval_in (login_register fd user) s = -1 \<and>
    registry (exec (login_register fd user) s) = (registry s)(user \<mapsto> (fd, next_client_id s))"
proof -
  obtain c t where add: "run_state (client_manager_add fd (tid s) user) s = (c, t)" by fastforce
  have "idle s \<and> registry_inv s" using assms by simp
  note A = reg.add_new [OF this assms(7,8,9,5,6), of "tid s", unfolded add]
  let ?rest = "do { _ \<leftarrow> send_message fd MSG_ERROR ''SERVER_CLIENT_LIMIT''; log_event (LoginUnableToRegister user);
      ret (- 1 :: int) }"
  obtain r u where run: "run_state ?rest t = (r, u)" by fastforce
  have "run_state (login_register fd user) s = (r, u)"
    using add run A assms(10,11) by (simp add: login_register_def)
  moreover have "sound s" using assms by (simp add: sound_def settled_def)
  then have "sound t" using add_sound [OF add] assms(5,6) by (simp add: free_fd_def)
  ultimately show ?thesis using refuse [OF run] sound_registry(2) [of t u] A by simp
qed

definition exhausted :: server where
  "exhausted = nobody\<lparr>next_client_id := 2147483648\<rparr>"

theorem overflowed_id_leaks_the_slot_witness:
  "eval_in (login_register 3 ''alice'') exhausted = -1 \<and>
   registry (exec (login_register 3 ''alice'') exhausted) ''alice'' = Some (3, 2147483648)"
proof -
  have o: "registry exhausted = registry nobody" "idle exhausted = idle nobody"
    "registry_inv exhausted = registry_inv nobody" "find_free_slot exhausted = find_free_slot nobody"
    by (simp_all add: exhausted_def registry_def find_username_slot_def fun_eq_iff Let_def idle_def registry_inv_def
        table_def find_free_slot_def)
  have "wf_locks exhausted" "wf_storage exhausted"
    by (simp_all add: wf_locks_def wf_storage_def entry_def exhausted_def nobody_def boot_def)
  moreover have "sint (next_client_id exhausted) = -2147483648" by (simp add: exhausted_def)
  moreover have "next_client_id exhausted = 2147483648" by (simp add: exhausted_def)
  ultimately show ?thesis
    using overflowed_id_leaks_the_slot [of exhausted 3 "''alice''"] nobody_ok o free_slots(1) by simp
qed

end
