(* ===== verification/Paths.thy ===== *)
theory Paths
  imports Posix
begin

section \<open>System calls on path names\<close>

text \<open>
  The calls the client and the logger daemon make with a path instead of a directory
  descriptor. A path is given by its directory and its last component; the directory may be
  reached through a symbolic link. The client names files of its own choice too: those are
  single entries of the directory \<open>d\<close> their path leads to.
\<close>

definition sys_stat_dir :: "string \<Rightarrow> ('z, stat_t option) sys" where
  "sys_stat_dir path = do {
     f \<leftarrow> fs_fault;
     case f of Fault e \<Rightarrow> fail_none e
     | _ \<Rightarrow> do {
         d \<leftarrow> gets (\<lambda>s. dkind (dirs s path));
         case d of DMissing \<Rightarrow> fail_none ENOENT
         | DDir \<Rightarrow> ret (Some (IDir, 0))
         | DLink \<Rightarrow> ret (Some (IDir, 0))
         | DOther \<Rightarrow> ret (Some (IOther, 0))
       }
   }"

text \<open>\<open>access (path, F_OK)\<close>.\<close>

definition sys_access :: "string \<Rightarrow> string \<Rightarrow> ('z, int) sys" where
  "sys_access d name = do {
     f \<leftarrow> fs_fault;
     case f of Fault e \<Rightarrow> fail e
     | _ \<Rightarrow> do {
         e \<leftarrow> gets (\<lambda>s. entry s d name);
         if e = None then fail ENOENT else ret 0
       }
   }"

text \<open>\<open>open (path, O_WRONLY | O_CREAT | O_APPEND, 0644)\<close>; a symbolic link stands for its
  target.\<close>

definition sys_open_append :: "string \<Rightarrow> string \<Rightarrow> ('z, int) sys" where
  "sys_open_append d name = do {
     f \<leftarrow> fs_fault;
     case f of Fault e \<Rightarrow> fail e
     | _ \<Rightarrow> do {
         s \<leftarrow> State_Monad.get;
         if dkind (dirs s d) = DMissing then fail ENOENT
         else if dkind (dirs s d) = DOther then fail ENOTDIR
         else (case entry s d name of
             None \<Rightarrow> do { modify (create_inode d name 420); alloc_fd (FReg (next_ino s) 0) }
           | Some i \<Rightarrow> if ikind (inodes s i) = IDir then fail EISDIR else alloc_fd (FReg i 0))
       }
   }"

definition sys_unlink :: "string \<Rightarrow> string \<Rightarrow> ('z, int) sys" where
  "sys_unlink d name = do {
     f \<leftarrow> fs_fault;
     case f of Fault e \<Rightarrow> fail e
     | _ \<Rightarrow> do {
         s \<leftarrow> State_Monad.get;
         case entry s d name of None \<Rightarrow> fail ENOENT
         | Some i \<Rightarrow> if ikind (inodes s i) = IDir then fail EISDIR
             else do { modify (del_entry d name); ret 0 }
       }
   }"

text \<open>\<open>open (path, O_WRONLY | O_CREAT | O_EXCL, m)\<close>.\<close>

definition sys_create :: "string \<Rightarrow> string \<Rightarrow> nat \<Rightarrow> ('z, int) sys" where
  "sys_create d name m = do {
     f \<leftarrow> fs_fault;
     case f of Fault e \<Rightarrow> fail e
     | _ \<Rightarrow> do {
         s \<leftarrow> State_Monad.get;
         if dkind (dirs s d) = DMissing then fail ENOENT
         else if dkind (dirs s d) = DOther then fail ENOTDIR
         else if entry s d name \<noteq> None then fail EEXIST
         else do { modify (create_inode d name m); alloc_fd (FReg (next_ino s) 0) }
       }
   }"

text \<open>\<open>open (path, O_RDONLY)\<close>; a directory opens too, and a symbolic link stands for its target.\<close>

definition sys_open_read :: "string \<Rightarrow> string \<Rightarrow> ('z, int) sys" where
  "sys_open_read d name = do {
     f \<leftarrow> fs_fault;
     case f of Fault e \<Rightarrow> fail e
     | _ \<Rightarrow> do {
         e \<leftarrow> gets (\<lambda>s. entry s d name);
         case e of None \<Rightarrow> fail ENOENT | Some i \<Rightarrow> alloc_fd (FReg i 0)
       }
   }"

text \<open>\<open>link\<close> inside one directory.\<close>

definition sys_link :: "string \<Rightarrow> string \<Rightarrow> string \<Rightarrow> ('z, int) sys" where
  "sys_link d old new = do {
     f \<leftarrow> fs_fault;
     case f of Fault e \<Rightarrow> fail e
     | _ \<Rightarrow> do {
         s \<leftarrow> State_Monad.get;
         case entry s d old of None \<Rightarrow> fail ENOENT
         | Some i \<Rightarrow> if entry s d new \<noteq> None then fail EEXIST
             else do { modify (add_entry d new i); ret 0 }
       }
   }"

text \<open>A new socket.\<close>

definition sys_socket :: "('z, int) sys" where
  "sys_socket = do {
     f \<leftarrow> fs_fault;
     case f of Fault e \<Rightarrow> fail e | _ \<Rightarrow> alloc_fd FSock
   }"

text \<open>\<open>setsockopt\<close>, \<open>bind\<close> to a port, \<open>listen\<close> and \<open>connect\<close>: they succeed or fail as the
  script decides.\<close>

definition socket_call :: "int \<Rightarrow> ('z, int) sys" where
  "socket_call fd = do {
     f \<leftarrow> net_fault;
     case f of Fault e \<Rightarrow> fail e | _ \<Rightarrow> ret 0
   }"

end
