(* ===== verification/Logger_Daemon.thy ===== *)
theory Logger_Daemon
  imports Framing Logger_Client Paths
begin

section \<open>The logger daemon\<close>

text \<open>
  \<open>src/logger/main.c\<close> and the manual test program \<open>src/logger/test_client.c\<close>. The
  record \<open>logd\<close> adds to the operating system the static variables of the daemon, what its
  socket will receive, the wall clock and the time zone. A datagram is a list of bytes; the
  packet is the memory image of \<open>log_packet_t\<close> on the machine both ends run on (little
  endian, no padding, 1068 bytes).

  \<open>arrivals\<close> is what the calls of \<open>recvfrom\<close> meet, in order: a datagram, an error, or a
  termination signal that interrupts the call. When the list is exhausted the next event is
  a termination signal; a daemon that is never stopped never returns. \<open>late_signals\<close> tells
  at each test of \<open>running\<close> whether a signal arrived while the loop body was running.
\<close>

subsection \<open>State\<close>

datatype arrival = Datagram "byte list" | RecvError errno_t | Signal

text \<open>\<open>struct tm\<close>, as far as the daemon prints it.\<close>

record tm =
  tm_year :: int
  tm_mon :: int
  tm_mday :: int
  tm_hour :: int
  tm_min :: int
  tm_sec :: int

record logd = os +
  logger_running :: bool
  logger_socket :: int
  log_file :: int
  arrivals :: "arrival list"
  late_signals :: "bool list"
  wall_now :: int
  wall_script :: "(fault \<times> int) list"
  time_zone :: "int \<Rightarrow> tm option"

definition LOGGER_SOCKET_DIR :: string where "LOGGER_SOCKET_DIR = ''/tmp''"
definition LOGGER_SOCKET_NAME :: string where "LOGGER_SOCKET_NAME = ''syncchat_logger.sock''"
definition LOGGER_SOCKET_PATH :: string where "LOGGER_SOCKET_PATH = ''/tmp/syncchat_logger.sock''"
definition LOGGER_LOG_DIR :: string where "LOGGER_LOG_DIR = ''logs''"
definition LOGGER_LOG_NAME :: string where "LOGGER_LOG_NAME = ''server.log''"

subsection \<open>The packet in memory\<close>

definition mem16 :: "u16 \<Rightarrow> byte list" where
  "mem16 w = [char_of (unat w), char_of (unat w div 256)]"

definition of_mem16 :: "byte list \<Rightarrow> u16" where
  "of_mem16 bs = of_nat (of_char (bs ! 0) + 256 * of_char (bs ! 1))"

definition mem32 :: "u32 \<Rightarrow> byte list" where
  "mem32 w = rev (htonl_bytes w)"

definition of_mem32 :: "byte list \<Rightarrow> u32" where
  "of_mem32 bs = ntohl_bytes (rev bs)"

definition PACKET_SIZE :: nat where "PACKET_SIZE = 1068"

definition packet_bytes :: "log_packet_t \<Rightarrow> byte list" where
  "packet_bytes p = mem32 (magic p) @ mem16 (version p) @ mem16 (level p) @
     mem32 (of_int (sender_pid p)) @ source p @ message p"

definition parse_packet :: "byte list \<Rightarrow> log_packet_t" where
  "parse_packet bs = \<lparr>magic = of_mem32 (take 4 bs), version = of_mem16 (take 2 (drop 4 bs)),
     level = of_mem16 (take 2 (drop 6 bs)), sender_pid = sint (of_mem32 (take 4 (drop 8 bs))),
     source = take 32 (drop 12 bs), message = take 1024 (drop 44 bs)\<rparr>"

subsection \<open>System calls of the daemon\<close>

text \<open>The handler of \<open>SIGINT\<close> and \<open>SIGTERM\<close>.\<close>

definition handle_signal :: "(logd, unit) state" where
  "handle_signal = modify (\<lambda>s. s\<lparr>logger_running := False\<rparr>)"

definition late_signal :: "(logd, unit) state" where
  "late_signal = do {
     l \<leftarrow> gets late_signals;
     modify (\<lambda>s. s\<lparr>late_signals := tl l\<rparr>);
     if l \<noteq> [] \<and> hd l then handle_signal else ret ()
   }"

text \<open>\<open>recvfrom\<close> keeps the first \<open>n\<close> bytes of a longer datagram and drops the rest.\<close>

definition sys_recvfrom :: "int \<Rightarrow> nat \<Rightarrow> (logd, int \<times> byte list) state" where
  "sys_recvfrom fd n = do {
     a \<leftarrow> gets arrivals;
     (case a of
        [] \<Rightarrow> do { handle_signal; r \<leftarrow> fail EINTR; ret (r, []) }
      | Signal # rest \<Rightarrow> do {
          modify (\<lambda>s. s\<lparr>arrivals := rest\<rparr>);
          handle_signal;
          r \<leftarrow> fail EINTR;
          ret (r, []) }
      | RecvError e # rest \<Rightarrow> do {
          modify (\<lambda>s. s\<lparr>arrivals := rest\<rparr>);
          r \<leftarrow> fail e;
          ret (r, []) }
      | Datagram d # rest \<Rightarrow> do {
          modify (\<lambda>s. s\<lparr>arrivals := rest\<rparr>);
          ret (int (min n (length d)), take n d) })
   }"

text \<open>\<open>write\<close> on a descriptor opened with \<open>O_APPEND\<close>: always at the end of the file.\<close>

definition add_content :: "nat \<Rightarrow> byte list \<Rightarrow> 'z os_scheme \<Rightarrow> 'z os_scheme" where
  "add_content i bs s =
     s\<lparr>inodes := (inodes s)(i := (inodes s i)\<lparr>content := content (inodes s i) @ bs\<rparr>)\<rparr>"

definition sys_append :: "int \<Rightarrow> byte list \<Rightarrow> ('z, int) sys" where
  "sys_append fd bs = do {
     f \<leftarrow> fs_fault;
     case f of Fault e \<Rightarrow> fail e
     | _ \<Rightarrow> do {
         obj \<leftarrow> gets (\<lambda>s. fd_obj s fd);
         case obj of
           Some (FReg i _) \<Rightarrow>
             (let out = (case f of Short k \<Rightarrow> take k bs | _ \<Rightarrow> bs)
              in do { modify (add_content i out); ret (int (length out)) })
         | _ \<Rightarrow> fail EBADF
       }
   }"

text \<open>\<open>bind\<close> to a path creates a socket file there.\<close>

definition sys_bind_path :: "int \<Rightarrow> string \<Rightarrow> string \<Rightarrow> ('z, int) sys" where
  "sys_bind_path fd d name = do {
     f \<leftarrow> fs_fault;
     case f of Fault e \<Rightarrow> fail e
     | _ \<Rightarrow> do {
         s \<leftarrow> State_Monad.get;
         if entry s d name \<noteq> None then fail EADDRINUSE
         else do {
           modify (\<lambda>s. add_entry d name (next_ino s)
             (s\<lparr>inodes := (inodes s)(next_ino s := \<lparr>ikind = IOther, content = [], imode = 0\<rparr>),
                next_ino := Suc (next_ino s)\<rparr>));
           ret 0
         }
       }
   }"

text \<open>The seconds of \<open>CLOCK_REALTIME\<close>; the script may move the clock either way.\<close>

definition wall_time :: "(logd, int option) state" where
  "wall_time = do {
     s \<leftarrow> State_Monad.get;
     (case wall_script s of [] \<Rightarrow> ret (Some (wall_now s))
      | (f, t) # rest \<Rightarrow> do {
          modify (\<lambda>s. s\<lparr>wall_script := rest, wall_now := t\<rparr>);
          case f of Fault e \<Rightarrow> fail_none e | _ \<Rightarrow> ret (Some t) })
   }"

subsection \<open>Entries\<close>

definition log_level_name :: "log_level_t \<Rightarrow> string" where
  "log_level_name l =
     (if l = LOG_DEBUG then ''DEBUG''
      else if l = LOG_INFO then ''INFO''
      else if l = LOG_WARN then ''WARN''
      else if l = LOG_ERROR then ''ERROR''
      else ''UNKNOWN'')"

lemma sys_append_script:
  assumes "run_state (sys_append fd bs) s = (r, s')"
  shows "length (fs_script s') \<le> length (fs_script s)"
    and "r < 0 \<Longrightarrow> errno s' = EINTR \<Longrightarrow> length (fs_script s') < length (fs_script s)"
  using assms
  by (auto simp: sys_append_def add_content_def fs_fault_def fail_def set_errno_def Let_def
      split: list.splits fault.splits option.splits fdobj.splits)

function log_write_loop :: "int \<Rightarrow> byte list \<Rightarrow> nat \<Rightarrow> 'z os_scheme \<Rightarrow> int \<times> 'z os_scheme" where
  "log_write_loop fd buffer total_written s =
     (if total_written < length buffer
      then (case run_state (sys_append fd (drop total_written buffer)) s of (written, s') \<Rightarrow>
              if written < 0
              then (if errno s' = EINTR then log_write_loop fd buffer total_written s' else (- 1, s'))
              else if written = 0 then (- 1, s')
              else log_write_loop fd buffer (total_written + nat written) s')
      else (0, s))"
  by pat_completeness auto
termination
proof (relation "measure (\<lambda>(fd, buffer, n, s). (length buffer - n) + length (fs_script s))", goal_cases)
  case 1
  show ?case by simp
next
  case (2 fd buffer n s written s')
  then show ?case using sys_append_script(2) [of fd "drop n buffer" s written s'] by simp
next
  case (3 fd buffer n s written s')
  then show ?case using sys_append_script(1) [of fd "drop n buffer" s written s'] by simp
qed

declare log_write_loop.simps [simp del]

definition write_all :: "int \<Rightarrow> byte list \<Rightarrow> ('z, int) sys" where
  "write_all fd buffer = State (log_write_loop fd buffer 0)"

definition strnlen :: "byte list \<Rightarrow> nat \<Rightarrow> nat" where
  "strnlen bs n = length (cstr (take n bs))"

definition validate_packet :: "log_packet_t \<Rightarrow> int" where
  "validate_packet p =
     (if magic p \<noteq> LOGGER_MAGIC then - 1
      else if version p \<noteq> LOGGER_VERSION then - 1
      else if int (unat (level p)) > LOG_ERROR then - 1
      else if strnlen (source p) LOGGER_SOURCE_MAX = LOGGER_SOURCE_MAX then - 1
      else if strnlen (message p) LOGGER_MESSAGE_MAX = LOGGER_MESSAGE_MAX then - 1
      else if strnlen (source p) LOGGER_SOURCE_MAX = 0 then - 1
      else if strnlen (message p) LOGGER_MESSAGE_MAX = 0 then - 1
      else 0)"

text \<open>\<open>%0wd\<close>.\<close>

definition pad_int :: "nat \<Rightarrow> int \<Rightarrow> string" where
  "pad_int w i =
     (let ds = nat_str (nat \<bar>i\<bar>)
      in if i < 0 then CHR ''-'' # replicate (w - 1 - length ds) (CHR ''0'') @ ds
         else replicate (w - length ds) (CHR ''0'') @ ds)"

definition timestamp_text :: "tm \<Rightarrow> string" where
  "timestamp_text t = pad_int 4 (tm_year t + 1900) @ ''-'' @ pad_int 2 (tm_mon t + 1) @ ''-'' @
     pad_int 2 (tm_mday t) @ '' '' @ pad_int 2 (tm_hour t) @ '':'' @ pad_int 2 (tm_min t) @
     '':'' @ pad_int 2 (tm_sec t)"

text \<open>The text left in the buffer, \<open>None\<close> for the result -1.\<close>

definition create_timestamp :: "nat \<Rightarrow> (logd, string option) state" where
  "create_timestamp buffer_size = do {
     current_time \<leftarrow> wall_time;
     (case current_time of
        None \<Rightarrow> ret None
      | Some seconds \<Rightarrow> do {
          zone \<leftarrow> gets time_zone;
          (case zone seconds of
             None \<Rightarrow> ret None
           | Some local_time \<Rightarrow>
               (let (len, buffer) = snprintf buffer_size (timestamp_text local_time)
                in if len < 0 then ret None
                   else if nat len \<ge> buffer_size then ret None
                   else ret (Some buffer)))
        })
   }"

definition ENTRY_SIZE :: nat where "ENTRY_SIZE = LOGGER_MESSAGE_MAX + 128"

definition entry_text :: "string \<Rightarrow> log_packet_t \<Rightarrow> string" where
  "entry_text timestamp p = ''['' @ timestamp @ ''] [PID:'' @ int_str (sender_pid p) @ ''] ['' @
     log_level_name (int (unat (level p))) @ ''] ['' @ cstr (source p) @ ''] '' @
     cstr (message p) @ [CHR 0x0A]"

definition write_log_entry :: "log_packet_t \<Rightarrow> (logd, int) state" where
  "write_log_entry p = do {
     timestamp \<leftarrow> create_timestamp 32;
     (case timestamp of
        None \<Rightarrow> ret (- 1)
      | Some ts \<Rightarrow>
          (let (len, buffer) = snprintf ENTRY_SIZE (entry_text ts p)
           in if len < 0 then ret (- 1)
              else if nat len \<ge> ENTRY_SIZE then ret (- 1)
              else do {
                fd \<leftarrow> gets log_file;
                w \<leftarrow> write_all fd buffer;
                if w \<noteq> 0 then ret (- 1) else ret 0
              }))
   }"

subsection \<open>Start, loop and end\<close>

definition create_logger_socket :: "(logd, int) state" where
  "create_logger_socket = do {
     fd \<leftarrow> sys_socket;
     modify (\<lambda>s. s\<lparr>logger_socket := fd\<rparr>);
     if fd < 0 then ret (- 1)
     else if fst (snprintf 108 LOGGER_SOCKET_PATH) \<ge> 108
     then do { _ \<leftarrow> sys_close fd; modify (\<lambda>s. s\<lparr>logger_socket := - 1\<rparr>); ret (- 1) }
     else do {
       u \<leftarrow> sys_unlink LOGGER_SOCKET_DIR LOGGER_SOCKET_NAME;
       e \<leftarrow> gets errno;
       if u \<noteq> 0 \<and> e \<noteq> ENOENT
       then do { _ \<leftarrow> sys_close fd; modify (\<lambda>s. s\<lparr>logger_socket := - 1\<rparr>); ret (- 1) }
       else do {
         b \<leftarrow> sys_bind_path fd LOGGER_SOCKET_DIR LOGGER_SOCKET_NAME;
         if b < 0
         then do { _ \<leftarrow> sys_close fd; modify (\<lambda>s. s\<lparr>logger_socket := - 1\<rparr>); ret (- 1) }
         else ret 0
       }
     }
   }"

definition open_log_file :: "(logd, int) state" where
  "open_log_file = do {
     fd \<leftarrow> sys_open_append LOGGER_LOG_DIR LOGGER_LOG_NAME;
     modify (\<lambda>s. s\<lparr>log_file := fd\<rparr>);
     if fd < 0 then ret (- 1) else ret 0
   }"

definition cleanup :: "(logd, unit) state" where
  "cleanup = do {
     fd \<leftarrow> gets logger_socket;
     (if fd \<ge> 0 then do { _ \<leftarrow> sys_close fd; modify (\<lambda>s. s\<lparr>logger_socket := - 1\<rparr>) } else ret ());
     fd \<leftarrow> gets log_file;
     (if fd \<ge> 0 then do { _ \<leftarrow> sys_close fd; modify (\<lambda>s. s\<lparr>log_file := - 1\<rparr>) } else ret ());
     _ \<leftarrow> sys_unlink LOGGER_SOCKET_DIR LOGGER_SOCKET_NAME;
     ret ()
   }"

text \<open>What the loop does with one datagram: go on, or stop after a failed write.\<close>

definition process_datagram :: "int \<Rightarrow> byte list \<Rightarrow> (logd, bool) state" where
  "process_datagram received bytes =
     (if nat received \<noteq> PACKET_SIZE then ret True
      else if validate_packet (parse_packet bytes) \<noteq> 0 then ret True
      else do {
        w \<leftarrow> write_log_entry (parse_packet bytes);
        ret (w = 0)
      })"

subsection \<open>The main loop\<close>

definition loop_rest :: "logd \<Rightarrow> _" where
  "loop_rest s = (arrivals s, late_signals s, logger_running s, logger_socket s, log_file s,
     time_zone s)"

definition loop_measure :: "logd \<Rightarrow> nat" where
  "loop_measure s = length (arrivals s) + (if logger_running s then 1 else 0)"

text \<open>\<open>appended i p s s'\<close>: the only change is that \<open>p\<close> was appended to the inode \<open>i\<close>
  (and \<open>errno\<close> and the script of the file calls moved on).\<close>

definition appended :: "nat \<Rightarrow> byte list \<Rightarrow> 'z os_scheme \<Rightarrow> 'z os_scheme \<Rightarrow> bool" where
  "appended i p s s' \<longleftrightarrow> s' = (add_content i p s)\<lparr>errno := errno s', fs_script := fs_script s'\<rparr>"

lemma add_content_Nil [simp]: "add_content i [] s = s"
  by (simp add: add_content_def)

lemma appended_refl [simp]: "appended i [] s s"
  by (simp add: appended_def)

lemma appended_trans: "appended i p s t \<Longrightarrow> appended i q t u \<Longrightarrow> appended i (p @ q) s u"
  by (cases s; cases t; cases u) (auto simp: appended_def add_content_def)

lemma appendedD:
  assumes "appended i p s s'"
  shows "content (inodes s' i) = content (inodes s i) @ p"
    and "j \<noteq> i \<Longrightarrow> inodes s' j = inodes s j" and "ikind (inodes s' j) = ikind (inodes s j)"
    and "fds s' = fds s" and "dirs s' = dirs s" and "os.more s' = os.more s"
    and "next_ino s' = next_ino s" and "fd_obj s' = fd_obj s"
  using assms
  by (cases s; cases s'; simp add: appended_def add_content_def fd_obj_def fun_eq_iff)+

lemma sys_append_spec:
  assumes "run_state (sys_append fd bs) s = (r, s')" and "fd_obj s fd = Some (FReg i off)"
  shows "r = -1 \<and> appended i [] s s' \<or>
    0 \<le> r \<and> nat r \<le> length bs \<and> appended i (take (nat r) bs) s s'"
  using assms
  by (auto simp: sys_append_def fs_fault_def fail_def set_errno_def appended_def add_content_def
      fd_obj_def min_def split: list.splits fault.splits)

text \<open>On a descriptor that is not a file every write fails.\<close>

lemma sys_append_bad:
  assumes "run_state (sys_append fd bs) s = (r, s')" and "\<nexists>i off. fd_obj s fd = Some (FReg i off)"
  shows "r = -1 \<and> appended 0 [] s s'"
  using assms
  by (auto simp: sys_append_def fs_fault_def fail_def set_errno_def appended_def fd_obj_def
      split: list.splits fault.splits option.splits fdobj.splits)

lemma log_write_loop_spec:
  assumes "log_write_loop fd buf n s = (r, s')" and "n \<le> length buf"
    and "fd_obj s fd = Some (FReg i off)"
  shows "\<exists>p. appended i p s s' \<and>
    (r = 0 \<and> p = drop n buf \<or> r = -1 \<and> strict_prefix p (drop n buf))"
  using assms
proof (induction fd buf n s rule: log_write_loop.induct)
  case (1 fd buf n s)
  show ?case
  proof (cases "n < length buf")
    case False
    with "1.prems" show ?thesis by (simp add: log_write_loop.simps [of fd buf n s])
  next
    case True
    obtain k t where run: "run_state (sys_append fd (drop n buf)) s = (k, t)" by fastforce
    note step = sys_append_spec [OF run "1.prems"(3)]
      and eq = "1.prems"(1) [unfolded log_write_loop.simps [of fd buf n s]]
    from step have obj: "fd_obj t fd = Some (FReg i off)" using "1.prems"(3) by (auto dest: appendedD(8))
    consider (intr) "k < 0" "errno t = EINTR" | (err) "k < 0" "errno t \<noteq> EINTR"
      | (zero) "k = 0" | (more) "0 < k" by linarith
    then show ?thesis
    proof cases
      case intr
      with eq True run have "log_write_loop fd buf n t = (r, s')" by simp
      from "1.IH"(1) [OF True run [symmetric] intr this "1.prems"(2) obj]
      obtain p where "appended i p t s'"
        and "r = 0 \<and> p = drop n buf \<or> r = -1 \<and> strict_prefix p (drop n buf)" by blast
      moreover from step intr have "appended i [] s t" by auto
      ultimately show ?thesis using appended_trans [of i "[]" s t p s'] by auto
    next
      case err
      with eq True run step show ?thesis by (auto simp: strict_prefix_def intro!: exI [of _ "[]"])
    next
      case zero
      with eq True run step show ?thesis by (auto simp: strict_prefix_def intro!: exI [of _ "[]"])
    next
      case more
      with eq True run have rec: "log_write_loop fd buf (n + nat k) t = (r, s')" by simp
      from step more have k: "nat k \<le> length buf - n"
        and w: "appended i (take (nat k) (drop n buf)) s t" by auto
      from more have "\<not> k < 0" "k \<noteq> 0" by auto
      moreover from k True have "n + nat k \<le> length buf" by linarith
      ultimately obtain p where p: "appended i p t s'"
        and cases: "r = 0 \<and> p = drop (n + nat k) buf \<or> r = -1 \<and> strict_prefix p (drop (n + nat k) buf)"
        using "1.IH"(2) [OF True run [symmetric] _ _ rec _ obj] by blast
      have split: "drop n buf = take (nat k) (drop n buf) @ drop (n + nat k) buf"
        by (metis append_take_drop_id drop_drop add.commute)
      have "appended i (take (nat k) (drop n buf) @ p) s s'"
        by (rule appended_trans [OF w p])
      moreover have "r = 0 \<and> take (nat k) (drop n buf) @ p = drop n buf \<or>
          r = -1 \<and> strict_prefix (take (nat k) (drop n buf) @ p) (drop n buf)"
        using cases split by (metis same_prefix_prefix strict_prefix_def append_same_eq same_append_eq)
      ultimately show ?thesis by blast
    qed
  qed
qed

lemma log_write_loop_frame: "os.more (snd (log_write_loop fd buf n s)) = os.more s"
proof (induction fd buf n s rule: log_write_loop.induct)
  case (1 fd buf n s)
  obtain k t where run: "run_state (sys_append fd (drop n buf)) s = (k, t)" by fastforce
  have t: "os.more t = os.more s"
  proof (cases "\<exists>i off. fd_obj s fd = Some (FReg i off)")
    case True
    with sys_append_spec [OF run] show ?thesis by (auto dest: appendedD(6))
  next
    case False
    with sys_append_bad [OF run] show ?thesis by (auto dest: appendedD(6))
  qed
  show ?case
    using "1.IH" t run by (subst log_write_loop.simps) auto
qed

lemma more_loop_rest: "os.more s = os.more t \<Longrightarrow> loop_rest s = loop_rest t"
  by (cases s; cases t) (simp add: loop_rest_def)

lemma log_write_all_frame: "state_io_rel (same loop_rest) (write_all fd buf)"
  by (auto simp: write_all_def io_rel_State same_def intro!: more_loop_rest log_write_loop_frame)

lemma loop_modify:
  "(\<And>s. loop_rest (f s) = loop_rest s) \<Longrightarrow> state_io_rel (same loop_rest) (modify f)"
  by (rule same.io_modify) (simp add: same_def)

lemma fail_none_loop: "state_io_rel (same loop_rest) (fail_none e)"
  unfolding fail_none_def set_errno_def
  by (intro same.io_sys loop_modify) (simp add: loop_rest_def)

lemma wall_time_frame: "state_io_rel (same loop_rest) wall_time"
  unfolding wall_time_def
  by (intro same.io_sys loop_modify fail_none_loop) (simp add: loop_rest_def)

lemma process_datagram_frame: "state_io_rel (same loop_rest) (process_datagram n bs)"
  unfolding process_datagram_def write_log_entry_def create_timestamp_def
  by (intro same.io_sys wall_time_frame log_write_all_frame)

lemma loop_rest_measure: "loop_rest s = loop_rest t \<Longrightarrow> loop_measure s = loop_measure t"
  by (simp add: loop_rest_def loop_measure_def)

lemma late_signal_measure: "loop_measure (exec late_signal s) \<le> loop_measure s"
  by (simp add: late_signal_def handle_signal_def loop_measure_def split_def)

lemma sys_recvfrom_measure:
  assumes "run_state (sys_recvfrom fd n) s = ((r, bs), s')" and "logger_running s"
  shows "loop_measure s' < loop_measure s"
  using assms
  by (auto simp: sys_recvfrom_def handle_signal_def fail_def set_errno_def loop_measure_def
      split: list.splits arrival.splits)

function logger_loop :: "logd \<Rightarrow> logd" where
  "logger_loop s0 =
     (let s = exec late_signal s0
      in if logger_running s
         then (case run_state (sys_recvfrom (logger_socket s) PACKET_SIZE) s of
             ((received, bytes), s1) \<Rightarrow>
               if received < 0
               then (if errno s1 = EINTR then logger_loop s1 else s1)
               else (case run_state (process_datagram received bytes) s1 of (continue, s2) \<Rightarrow>
                       if continue then logger_loop s2 else s2))
         else s)"
  by pat_completeness auto
termination
proof (relation "measure loop_measure", goal_cases)
  case 1
  show ?case by simp
next
  case (2 s0 s x s1 received bytes)
  then have "loop_measure s1 < loop_measure s"
    using sys_recvfrom_measure [of "logger_socket s" PACKET_SIZE s received bytes s1] by simp
  with late_signal_measure [of s0] 2(1) show ?case by simp
next
  case (3 s0 s x s1 received bytes continue s2)
  then have "loop_measure s1 < loop_measure s"
    using sys_recvfrom_measure [of "logger_socket s" PACKET_SIZE s received bytes s1] by simp
  moreover have "loop_measure s2 = loop_measure s1"
    using same_run [OF process_datagram_frame, of received bytes s1 continue s2] 3
    by (intro loop_rest_measure) simp
  ultimately show ?case using late_signal_measure [of s0] 3(1) by simp
qed

declare logger_loop.simps [simp del]

definition EXIT_SUCCESS :: int where "EXIT_SUCCESS = 0"
definition EXIT_FAILURE :: int where "EXIT_FAILURE = 1"

text \<open>\<open>sigemptyset\<close> and the two \<open>sigaction\<close> calls succeed or fail as the script decides.\<close>

definition logger_main :: "(logd, int) state" where
  "logger_main = do {
     ok \<leftarrow> mtx_ok;
     if \<not> ok then ret EXIT_FAILURE
     else do {
       ok \<leftarrow> mtx_ok;
       if \<not> ok then ret EXIT_FAILURE
       else do {
         ok \<leftarrow> mtx_ok;
         if \<not> ok then ret EXIT_FAILURE
         else do {
           r \<leftarrow> create_logger_socket;
           if r \<noteq> 0 then ret EXIT_FAILURE
           else do {
             r \<leftarrow> open_log_file;
             if r \<noteq> 0 then do { cleanup; ret EXIT_FAILURE }
             else do {
               modify logger_loop;
               cleanup;
               ret EXIT_SUCCESS
             }
           }
         }
       }
     }
   }"

subsection \<open>The test program\<close>

definition test_packet :: "int \<Rightarrow> log_packet_t" where
  "test_packet p = \<lparr>magic = LOGGER_MAGIC, version = LOGGER_VERSION, level = of_int LOG_INFO,
     sender_pid = p,
     source = zero_pad LOGGER_SOURCE_MAX (strncpy_buf LOGGER_SOURCE_MAX ''TEST_CLIENT''),
     message = zero_pad LOGGER_MESSAGE_MAX (strncpy_buf LOGGER_MESSAGE_MAX
       ''Logger IPC test message received successfully.'')\<rparr>"

definition test_client_main :: "('z, int) log_sys" where
  "test_client_main = do {
     sock \<leftarrow> log_fault;
     case sock of
       Fault e \<Rightarrow> ret EXIT_FAILURE
     | _ \<Rightarrow> do {
         p \<leftarrow> gets pid;
         sent \<leftarrow> log_fault;
         if sent \<noteq> NoFault then do { _ \<leftarrow> log_fault; ret EXIT_FAILURE }
         else do {
           modify (\<lambda>s. s\<lparr>log_queue := log_queue s @ [test_packet p]\<rparr>);
           _ \<leftarrow> log_fault;
           ret EXIT_SUCCESS
         }
       }
   }"

end
