(* ===== verification/Logger_Spec.thy ===== *)
theory Logger_Spec
  imports Logger_Daemon
begin

section \<open>What the logger daemon guarantees\<close>

text \<open>
  The packet survives the trip through memory; an accepted packet always fits the entry
  buffer; one accepted datagram adds one entry to the log file; the loop consumes a prefix of
  the arrivals and adds the entries of exactly the accepted ones.
\<close>

subsection \<open>The packet in memory\<close>

lemma length_mem16 [simp]: "length (mem16 w) = 2"
  by (simp add: mem16_def)

lemma length_mem32 [simp]: "length (mem32 w) = 4"
  by (simp add: mem32_def)

lemma of_mem32_mem32 [simp]: "of_mem32 (mem32 w) = w"
  by (simp add: of_mem32_def mem32_def)

lemma of_mem16_mem16 [simp]: "of_mem16 (mem16 w) = w"
proof -
  have "unat w < 65536" using unsigned_less [of w, where ?'a = nat] by simp
  then have "unat w mod 256 + 256 * (unat w div 256 mod 256) = unat w" by simp
  then have "of_mem16 (mem16 w) = of_nat (unat w)"
    by (simp add: of_mem16_def mem16_def)
  then show ?thesis by simp
qed

definition packet_wf :: "log_packet_t \<Rightarrow> bool" where
  "packet_wf p \<longleftrightarrow> length (source p) = LOGGER_SOURCE_MAX \<and> length (message p) = LOGGER_MESSAGE_MAX \<and>
     - (2 ^ 31) \<le> sender_pid p \<and> sender_pid p < 2 ^ 31"

lemma sint_of_int32: "- (2 ^ 31) \<le> i \<Longrightarrow> i < 2 ^ 31 \<Longrightarrow> sint (of_int i :: u32) = i"
  by (simp add: int_word_sint mod_pos_pos_trivial)

lemma length_packet_bytes: "packet_wf p \<Longrightarrow> length (packet_bytes p) = PACKET_SIZE"
  by (simp add: packet_bytes_def packet_wf_def PACKET_SIZE_def LOGGER_SOURCE_MAX_def LOGGER_MESSAGE_MAX_def)

lemma parse_packet_bytes:
  assumes "packet_wf p"
  shows "parse_packet (packet_bytes p @ junk) = p"
  using assms
  by (simp add: parse_packet_def packet_bytes_def packet_wf_def LOGGER_SOURCE_MAX_def
      LOGGER_MESSAGE_MAX_def sint_of_int32 numeral_eq_Suc)

lemma parse_packet_wf: "length bs = PACKET_SIZE \<Longrightarrow> packet_wf (parse_packet bs)"
  using sint_range_size [of "of_mem32 (take 4 (drop 8 bs))"]
  by (simp add: parse_packet_def packet_wf_def PACKET_SIZE_def LOGGER_SOURCE_MAX_def LOGGER_MESSAGE_MAX_def
      word_size)

subsection \<open>Accepted datagrams\<close>

definition accepted :: "byte list \<Rightarrow> log_packet_t option" where
  "accepted d = (if PACKET_SIZE \<le> length d \<and> validate_packet (parse_packet (take PACKET_SIZE d)) = 0
     then Some (parse_packet (take PACKET_SIZE d)) else None)"

fun accepted_from :: "arrival list \<Rightarrow> log_packet_t list" where
  "accepted_from [] = []"
| "accepted_from (Datagram d # as) =
     (case accepted d of None \<Rightarrow> accepted_from as | Some p \<Rightarrow> p # accepted_from as)"
| "accepted_from (_ # as) = accepted_from as"

lemma accepted_from_append: "accepted_from (as @ bs) = accepted_from as @ accepted_from bs"
  by (induction as rule: accepted_from.induct) (auto split: option.splits)

lemma validate_packetD:
  assumes "validate_packet p = 0" and "packet_wf p"
  shows "0 < length (cstr (source p))" "length (cstr (source p)) < 32"
    "0 < length (cstr (message p))" "length (cstr (message p)) < 1024" "unat (level p) \<le> 3"
    "magic p = LOGGER_MAGIC" "version p = LOGGER_VERSION"
proof -
  have "strnlen (source p) LOGGER_SOURCE_MAX = length (cstr (source p))"
    and "strnlen (message p) LOGGER_MESSAGE_MAX = length (cstr (message p))"
    using assms(2) by (simp_all add: strnlen_def packet_wf_def)
  moreover have "int (unat (level p)) \<le> 3"
    using assms(1) by (auto simp: validate_packet_def LOG_ERROR_def split: if_splits)
  then have "unat (level p) \<le> 3" by linarith
  ultimately show "0 < length (cstr (source p))" "length (cstr (source p)) < 32"
    "0 < length (cstr (message p))" "length (cstr (message p)) < 1024" "unat (level p) \<le> 3"
    "magic p = LOGGER_MAGIC" "version p = LOGGER_VERSION"
    using assms length_cstr_le [of "source p"] length_cstr_le [of "message p"]
    by (auto simp: validate_packet_def packet_wf_def LOGGER_SOURCE_MAX_def LOGGER_MESSAGE_MAX_def
        LOG_ERROR_def split: if_splits)
qed

lemma length_int_str:
  assumes "- (2 ^ 31) \<le> i" and "i < 2 ^ 31"
  shows "length (int_str i) \<le> 11"
proof -
  have "nat \<bar>i\<bar> < 10 ^ 10" using assms by simp
  then have "length (nat_str (nat \<bar>i\<bar>)) \<le> 10" by (intro length_nat_str) auto
  then show ?thesis by (auto simp: int_str_def split: if_splits)
qed

lemma length_log_level_name: "length (log_level_name l) \<le> 7"
  by (simp add: log_level_name_def)

lemma log_entry_fits:
  assumes "validate_packet p = 0" and "packet_wf p" and "length ts < 32"
  shows "length (entry_text ts p) < ENTRY_SIZE"
  using validate_packetD [OF assms(1,2)] assms(3) length_int_str [of "sender_pid p"] assms(2)
    length_log_level_name [of "int (unat (level p))"]
  by (simp add: entry_text_def ENTRY_SIZE_def LOGGER_MESSAGE_MAX_def packet_wf_def)

subsection \<open>What one step may change\<close>

definition logged :: "nat \<Rightarrow> byte list \<Rightarrow> logd \<Rightarrow> logd \<Rightarrow> bool" where
  "logged i q s s' \<longleftrightarrow>
     inodes s' = (inodes s)(i := (inodes s i)\<lparr>content := content (inodes s i) @ q\<rparr>) \<and>
     fds s' = fds s \<and> dirs s' = dirs s \<and> next_ino s' = next_ino s \<and>
     logger_socket s' = logger_socket s \<and> log_file s' = log_file s \<and> time_zone s' = time_zone s"

lemma logged_refl [simp]: "logged i [] s s"
  by (simp add: logged_def)

lemma logged_trans: "logged i p s t \<Longrightarrow> logged i q t u \<Longrightarrow> logged i (p @ q) s u"
  by (simp add: logged_def)

lemma logged_fd_obj: "logged i q s s' \<Longrightarrow> fd_obj s' fd = fd_obj s fd"
  by (simp add: logged_def fd_obj_def)

lemma appended_logged: "appended i q s s' \<Longrightarrow> logged i q s s'"
  by (cases s; cases s') (simp add: appended_def logged_def add_content_def)

lemma logged_modify: "(\<And>s. logged i [] s (f s)) \<Longrightarrow> state_io_rel (logged i []) (modify f)"
  by (simp add: state_io_rel_def)

interpretation still: frame_rel "logged i []" for i
  by unfold_locales (auto dest: logged_trans)

lemma wall_time_logged: "state_io_rel (logged i []) wall_time"
  unfolding wall_time_def fail_none_def set_errno_def
  by (intro still.io_sys logged_modify) (simp_all add: logged_def)

lemma late_signal_logged: "state_io_rel (logged i []) late_signal"
  unfolding late_signal_def handle_signal_def
  by (intro still.io_sys logged_modify) (simp_all add: logged_def)

lemma io_arrival:
  "(\<And>d. state_io_rel (logged i []) (f d)) \<Longrightarrow> (\<And>e. state_io_rel (logged i []) (g e)) \<Longrightarrow>
   state_io_rel (logged i []) h \<Longrightarrow>
   state_io_rel (logged i []) (case a of Datagram d \<Rightarrow> f d | RecvError e \<Rightarrow> g e | Signal \<Rightarrow> h)"
  by (cases a) auto

lemma sys_recvfrom_logged: "state_io_rel (logged i []) (sys_recvfrom fd n)"
  unfolding sys_recvfrom_def handle_signal_def fail_def set_errno_def
  by (intro still.io_sys io_arrival logged_modify) (simp_all add: logged_def)

lemma create_timestamp_short:
  assumes "run_state (create_timestamp n) s = (Some ts, s')"
  shows "length ts < n"
  using assms
  by (auto simp: create_timestamp_def snprintf_def split: option.splits if_splits prod.splits)

lemma create_timestamp_logged: "state_io_rel (logged i []) (create_timestamp n)"
  unfolding create_timestamp_def by (intro still.io_sys wall_time_logged)

subsection \<open>One entry per accepted packet\<close>

inductive entries :: "log_packet_t list \<Rightarrow> byte list \<Rightarrow> bool" where
  none: "entries [] []"
| entry: "length ts < 32 \<Longrightarrow> entries ps q \<Longrightarrow> entries (p # ps) (entry_text ts p @ q)"

inductive_simps entries_simps [simp]:
  "entries [] q" "entries (p # ps) q"

text \<open>The entries of all packets, or of all but the last, which is cut short.\<close>

definition journal :: "log_packet_t list \<Rightarrow> byte list \<Rightarrow> bool" where
  "journal ps q \<longleftrightarrow> entries ps q \<or>
     (\<exists>ps' p q' r ts. ps = ps' @ [p] \<and> entries ps' q' \<and> length ts < 32 \<and>
        strict_prefix r (entry_text ts p) \<and> q = q' @ r)"

lemma journal_Nil [simp]: "journal [] []"
  by (simp add: journal_def)

lemma journal_cut: "length ts < 32 \<Longrightarrow> strict_prefix r (entry_text ts p) \<Longrightarrow> journal [p] r"
  unfolding journal_def by (metis append_Nil entries.none)

lemma journal_entry:
  assumes "length ts < 32" and "journal ps q"
  shows "journal (p # ps) (entry_text ts p @ q)"
proof (cases "entries ps q")
  case True
  with assms show ?thesis unfolding journal_def by (blast intro: entries.entry)
next
  case False
  with assms(2) obtain ps' p' q' r ts' where "ps = ps' @ [p']" "entries ps' q'" "length ts' < 32"
      "strict_prefix r (entry_text ts' p')" "q = q' @ r"
    unfolding journal_def by blast
  with assms(1) have "p # ps = (p # ps') @ [p']" "entries (p # ps') (entry_text ts p @ q')"
      "entry_text ts p @ q = (entry_text ts p @ q') @ r"
    by (auto intro: entries.entry)
  then show ?thesis unfolding journal_def
    using \<open>length ts' < 32\<close> \<open>strict_prefix r (entry_text ts' p')\<close> by blast
qed

lemma write_log_entry_spec:
  assumes run: "run_state (write_log_entry p) s = (r, s')"
    and obj: "fd_obj s (log_file s) = Some (FReg i off)"
    and ok: "validate_packet p = 0" "packet_wf p"
  shows "\<exists>ts q. length ts < 32 \<and> logged i q s s' \<and>
    (r = 0 \<and> q = entry_text ts p \<or> r = -1 \<and> strict_prefix q (entry_text ts p))"
proof -
  obtain x t where x: "run_state (create_timestamp 32) s = (x, t)" by fastforce
  have st: "logged i [] s t" by (rule state_io_relD [OF create_timestamp_logged x])
  show ?thesis
  proof (cases x)
    case None
    with run x have "r = -1" and "s' = t" by (simp_all add: write_log_entry_def)
    moreover have "strict_prefix [] (entry_text [] p)" by (simp add: entry_text_def)
    ultimately show ?thesis using st by (intro exI [of _ "[]"]) simp
  next
    case (Some ts)
    with x have ts: "length ts < 32" by (auto dest: create_timestamp_short)
    obtain w u where w: "run_state (write_all (log_file t) (entry_text ts p)) t = (w, u)" by fastforce
    from run x Some log_entry_fits [OF ok ts] w
    have r: "r = (if w \<noteq> 0 then -1 else 0)" and "s' = u"
      by (auto simp: write_log_entry_def snprintf_fits split: if_splits)
    have "fd_obj t (log_file t) = Some (FReg i off)"
      using obj st logged_fd_obj [OF st] by (simp add: logged_def)
    moreover have "log_write_loop (log_file t) (entry_text ts p) 0 t = (w, u)"
      using w by (simp add: write_all_def)
    ultimately
    obtain q where "appended i q t u"
      and "w = 0 \<and> q = entry_text ts p \<or> w = -1 \<and> strict_prefix q (entry_text ts p)"
      using log_write_loop_spec [of "log_file t" "entry_text ts p" 0 t w u i off] by auto
    moreover from this(1) have "logged i q s u"
      using logged_trans [OF st appended_logged] by simp
    ultimately show ?thesis using ts r \<open>s' = u\<close> by (intro exI [of _ ts] exI [of _ q]) auto
  qed
qed

lemma process_datagram_spec:
  assumes "run_state (process_datagram (int (min PACKET_SIZE (length d))) (take PACKET_SIZE d)) s = (c, s')"
    and obj: "fd_obj s (log_file s) = Some (FReg i off)"
  shows "\<exists>q. logged i q s s' \<and>
    (case accepted d of
       None \<Rightarrow> c \<and> q = []
     | Some p \<Rightarrow> \<exists>ts. length ts < 32 \<and>
         (c \<and> q = entry_text ts p \<or> \<not> c \<and> strict_prefix q (entry_text ts p)))"
proof (cases "accepted d")
  case None
  with assms(1) have "c" and "s' = s"
    by (auto simp: process_datagram_def accepted_def min_def split: if_splits)
  then show ?thesis using None by (intro exI [of _ "[]"]) simp
next
  case (Some p)
  then have len: "PACKET_SIZE \<le> length d" and p: "p = parse_packet (take PACKET_SIZE d)"
    and ok: "validate_packet p = 0" by (auto simp: accepted_def split: if_splits)
  then have wf: "packet_wf p" by (simp add: parse_packet_wf)
  obtain w u where w: "run_state (write_log_entry p) s = (w, u)" by fastforce
  with assms(1) len p ok have "c \<longleftrightarrow> w = 0" and "s' = u"
    by (auto simp: process_datagram_def min_def split: if_splits)
  moreover from write_log_entry_spec [OF w obj ok wf] obtain ts q where "length ts < 32" "logged i q s u"
    "w = 0 \<and> q = entry_text ts p \<or> w = -1 \<and> strict_prefix q (entry_text ts p)" by blast
  ultimately show ?thesis using Some by (intro exI [of _ q]) auto
qed

subsection \<open>The loop\<close>

lemma sys_recvfrom_cases:
  assumes "run_state (sys_recvfrom fd n) s = ((r, bs), s')"
  obtains (datagram) d where "arrivals s = Datagram d # arrivals s'" "r = int (min n (length d))"
      "bs = take n d" "logger_running s' = logger_running s"
    | (error) e where "arrivals s = RecvError e # arrivals s'" "r = -1" "errno s' = e"
    | (stop) "arrivals s = Signal # arrivals s' \<or> arrivals s = [] \<and> arrivals s' = []" "r = -1"
      "errno s' = EINTR" "\<not> logger_running s'"
  using assms
  by (auto simp: sys_recvfrom_def handle_signal_def fail_def set_errno_def
      split: list.splits arrival.splits)

lemma late_signal_arrivals: "arrivals (exec late_signal s) = arrivals s"
  by (simp add: late_signal_def handle_signal_def split_def)

text \<open>What the loop has done: some arrivals are consumed and the log has gained their entries.\<close>

definition loop_done :: "nat \<Rightarrow> logd \<Rightarrow> logd \<Rightarrow> bool" where
  "loop_done i s t \<longleftrightarrow> (\<exists>consumed q. arrivals s = consumed @ arrivals t \<and> logged i q s t \<and> journal (accepted_from consumed) q)"

lemma loop_doneI:
  "arrivals s = consumed @ arrivals t \<Longrightarrow> logged i q s t \<Longrightarrow> journal (accepted_from consumed) q \<Longrightarrow> loop_done i s t"
  unfolding loop_done_def by blast

lemma loop_done_again:
  assumes "logged i q s t" and "arrivals s = a @ arrivals t" and "loop_done i t u"
    and "\<And>cs q'. journal (accepted_from cs) q' \<Longrightarrow> journal (accepted_from (a @ cs)) (q @ q')"
  shows "loop_done i s u"
proof -
  from assms(3) obtain cs q' where "arrivals t = cs @ arrivals u" "logged i q' t u" "journal (accepted_from cs) q'"
    unfolding loop_done_def by blast
  with assms(2) logged_trans [OF assms(1)] assms(4) [of cs q'] show ?thesis by (intro loop_doneI [of s "a @ cs" u i "q @ q'"]) simp_all
qed

lemma loop_datagram:
  assumes "run_state (process_datagram (int (min PACKET_SIZE (length d))) (take PACKET_SIZE d)) s1 = (c, s2)"
    and "fd_obj s1 (log_file s1) = Some (FReg i off)" and "logged i [] s0 s1" and "arrivals s0 = Datagram d # arrivals s1"
  obtains q where "logged i q s0 s2" and "arrivals s0 = [Datagram d] @ arrivals s2"
    and "\<not> c \<Longrightarrow> journal (accepted_from [Datagram d]) q"
    and "\<And>cs q'. c \<Longrightarrow> journal (accepted_from cs) q' \<Longrightarrow> journal (accepted_from ([Datagram d] @ cs)) (q @ q')"
proof -
  from process_datagram_spec [OF assms(1,2)] obtain q where
    q: "logged i q s1 s2" and acc: "case accepted d of None \<Rightarrow> c \<and> q = []
      | Some p \<Rightarrow> \<exists>ts. length ts < 32 \<and> (c \<and> q = entry_text ts p \<or> \<not> c \<and> strict_prefix q (entry_text ts p))" by blast
  have "arrivals s2 = arrivals s1" using same_run [OF process_datagram_frame assms(1)] by (simp add: loop_rest_def)
  moreover have "journal (accepted_from [Datagram d]) q" if "\<not> c" using acc that by (auto split: option.splits intro: journal_cut)
  moreover have "journal (accepted_from ([Datagram d] @ cs)) (q @ q')" if "c" "journal (accepted_from cs) q'" for cs q'
    using acc that by (auto split: option.splits intro: journal_entry)
  ultimately show thesis using that [of q] logged_trans [OF assms(3) q] assms(4) by simp
qed

lemma logger_loop_spec:
  assumes "fd_obj s (log_file s) = Some (FReg i off)"
  shows "loop_done i s (logger_loop s)"
  using assms
proof (induction s rule: logger_loop.induct)
  case (1 s0)
  define s where "s = exec late_signal s0"
  have arr: "arrivals s = arrivals s0" by (simp add: s_def late_signal_arrivals)
  have l0: "logged i [] s0 s" using late_signal_logged by (simp add: s_def io_rel_exec)
  note unfold = logger_loop.simps [of s0, folded s_def, unfolded Let_def]
  obtain received bytes s1 where recv:
    "run_state (sys_recvfrom (logger_socket s) PACKET_SIZE) s = ((received, bytes), s1)"
    by (metis prod_cases3 surj_pair)
  have "logged i [] s s1" by (rule state_io_relD [OF sys_recvfrom_logged recv])
  with l0 have l1: "logged i [] s0 s1" using logged_trans [of i "[]" s0 s "[]" s1] by simp
  have obj: "fd_obj t (log_file t) = Some (FReg i off)" if "logged i q s0 t" for t q
    using "1.prems" that logged_fd_obj [OF that] by (simp add: logged_def)
  show ?case
  proof (cases "logger_running s")
    case False
    with unfold arr l0 show ?thesis by (intro loop_doneI [of _ "[]" _ _ "[]"]) simp_all
  next
    case True
    note loop = unfold [unfolded if_P [OF True] recv, simplified]
    note IH = "1.IH"(1) [OF s_def True recv [symmetric] refl]
    from recv show ?thesis
    proof (cases rule: sys_recvfrom_cases)
      case (datagram d)
      obtain c s2 where proc: "run_state (process_datagram received bytes) s1 = (c, s2)" by fastforce
      have "arrivals s0 = Datagram d # arrivals s1" using datagram arr by simp
      from loop_datagram [OF proc [unfolded datagram] obj [OF l1] l1 this] obtain q where
        q: "logged i q s0 s2" "arrivals s0 = [Datagram d] @ arrivals s2" "\<not> c \<Longrightarrow> journal (accepted_from [Datagram d]) q"
          "\<And>cs q'. c \<Longrightarrow> journal (accepted_from cs) q' \<Longrightarrow> journal (accepted_from ([Datagram d] @ cs)) (q @ q')" by blast
      show ?thesis
      proof (cases c)
        case c: True
        have "loop_done i s2 (logger_loop s2)"
          using "1.IH"(2) [OF s_def True recv [symmetric] refl _ proc [symmetric] c] datagram obj [OF q(1)] by simp
        from loop_done_again [OF q(1,2) this q(4) [OF c]] loop datagram proc c show ?thesis by simp
      next
        case False
        with loop datagram proc have "logger_loop s0 = s2" by simp
        with loop_doneI [OF q(2,1) q(3) [OF False]] show ?thesis by simp
      qed
    next
      case (error e)
      show ?thesis
      proof (cases "e = EINTR")
        case True
        with IH error obj [OF l1] have "loop_done i s1 (logger_loop s1)" by simp
        from loop_done_again [OF l1 _ this, of "[RecvError e]"] error True arr loop show ?thesis by simp
      next
        case False
        with loop error have "logger_loop s0 = s1" by simp
        with l1 error arr show ?thesis by (intro loop_doneI [of _ "[RecvError e]" _ _ "[]"]) simp_all
      qed
    next
      case stop
      then have eq: "logger_loop s0 = logger_loop s1" using loop by simp
      obtain a where a: "arrivals s0 = a @ arrivals s1" and none: "accepted_from a = []"
        using stop(1) arr by (elim disjE conjE) (metis accepted_from.simps append_Cons append_Nil)+
      have "loop_done i s1 (logger_loop s1)" using IH stop obj [OF l1] by simp
      from loop_done_again [OF l1 a this] none eq show ?thesis by (simp add: accepted_from_append)
    qed
  qed
qed

subsection \<open>Nothing is lost while nothing fails\<close>

lemma sys_append_soft:
  assumes "run_state (sys_append fd bs) s = (r, s')" and "fd_obj s fd = Some (FReg i off)"
    and "list_all soft (fs_script s)" and "bs \<noteq> []"
  shows "list_all soft (fs_script s') \<and> (r = -1 \<and> errno s' = EINTR \<or> 0 < r)"
  using assms
  by (auto simp: sys_append_def fs_fault_def fail_def set_errno_def add_content_def fd_obj_def
      split: list.splits fault.splits)

lemma log_write_loop_soft:
  assumes "fd_obj s fd = Some (FReg i off)" and "list_all soft (fs_script s)" and "n \<le> length buf"
  shows "fst (log_write_loop fd buf n s) = 0 \<and> list_all soft (fs_script (snd (log_write_loop fd buf n s)))"
  using assms
proof (induction fd buf n s rule: log_write_loop.induct)
  case (1 fd buf n s)
  show ?case
  proof (cases "n < length buf")
    case False
    then have "log_write_loop fd buf n s = (0, s)" by (subst log_write_loop.simps) simp
    with "1.prems" show ?thesis by simp
  next
    case True
    obtain k t where run: "run_state (sys_append fd (drop n buf)) s = (k, t)" by fastforce
    from sys_append_soft [OF run "1.prems"(1,2)] True
    have t: "list_all soft (fs_script t)" and k: "k = -1 \<and> errno t = EINTR \<or> 0 < k" by auto
    note step = sys_append_spec [OF run "1.prems"(1)]
    then have obj: "fd_obj t fd = Some (FReg i off)" using "1.prems"(1) by (auto dest: appendedD(8))
    from k show ?thesis
    proof
      assume "k = -1 \<and> errno t = EINTR"
      with "1.IH"(1) [OF True run [symmetric] _ _ obj t "1.prems"(3)] True run show ?thesis
        by (simp add: log_write_loop.simps [of fd buf n s])
    next
      assume pos: "0 < k"
      with step True have "n + nat k \<le> length buf" by auto
      with "1.IH"(2) [OF True run [symmetric] _ _ obj t] pos True run show ?thesis
        by (simp add: log_write_loop.simps [of fd buf n s])
    qed
  qed
qed

definition healthy :: "logd \<Rightarrow> bool" where
  "healthy s \<longleftrightarrow> list_all soft (fs_script s) \<and> (\<forall>f t e. (f, t) \<in> set (wall_script s) \<longrightarrow> f \<noteq> Fault e) \<and>
     late_signals s = [] \<and> (\<forall>t. \<exists>x. time_zone s t = Some x \<and> length (timestamp_text x) < 32)"

lemma create_timestamp_healthy:
  assumes "healthy s"
  obtains ts t where "run_state (create_timestamp 32) s = (Some ts, t)" and "healthy t"
    and "arrivals t = arrivals s" and "logger_running t = logger_running s" and "fs_script t = fs_script s"
proof -
  obtain now t where w: "run_state wall_time s = (Some now, t)" and t: "healthy t"
      "arrivals t = arrivals s" "logger_running t = logger_running s" "fs_script t = fs_script s"
  proof (cases "wall_script s")
    case Nil
    with assms show thesis by (intro that [of "wall_now s" s]) (simp_all add: wall_time_def)
  next
    case (Cons c rest)
    obtain f now where c: "c = (f, now)" by fastforce
    with Cons assms have "\<nexists>e. f = Fault e" by (auto simp: healthy_def)
    with Cons c assms show thesis
      by (intro that [of now "s\<lparr>wall_script := rest, wall_now := now\<rparr>"])
        (auto simp: wall_time_def healthy_def split: fault.splits)
  qed
  from t(1) obtain x where "time_zone t now = Some x" "length (timestamp_text x) < 32"
    unfolding healthy_def by blast
  with w have "run_state (create_timestamp 32) s = (Some (timestamp_text x), t)"
    by (simp add: create_timestamp_def snprintf_fits)
  with t that show ?thesis by blast
qed

lemma write_log_entry_healthy:
  assumes "healthy s" and obj: "fd_obj s (log_file s) = Some (FReg i off)"
    and ok: "validate_packet p = 0" "packet_wf p"
  obtains s' where "run_state (write_log_entry p) s = (0, s')" and "healthy s'"
    and "arrivals s' = arrivals s" and "logger_running s' = logger_running s"
proof -
  from create_timestamp_healthy [OF assms(1)] obtain ts t where
    ts: "run_state (create_timestamp 32) s = (Some ts, t)" and t: "healthy t"
      "arrivals t = arrivals s" "logger_running t = logger_running s" by metis
  have st: "logged i [] s t" by (rule state_io_relD [OF create_timestamp_logged ts])
  then have "fd_obj t (log_file t) = Some (FReg i off)"
    using obj logged_fd_obj [OF st] by (simp add: logged_def)
  then have w: "fst (log_write_loop (log_file t) (entry_text ts p) 0 t) = 0"
    and soft: "list_all soft (fs_script (snd (log_write_loop (log_file t) (entry_text ts p) 0 t)))"
    using log_write_loop_soft [of t "log_file t" i off 0 "entry_text ts p"] t(1)
    by (auto simp: healthy_def)
  define u where "u = snd (log_write_loop (log_file t) (entry_text ts p) 0 t)"
  have m: "os.more u = os.more t" unfolding u_def by (rule log_write_loop_frame)
  have "healthy u" using m t(1) soft unfolding u_def [symmetric]
    by (cases u; cases t) (simp add: healthy_def)
  have "run_state (write_log_entry p) s = (0, u)"
    using ts log_entry_fits [OF ok create_timestamp_short [OF ts]] w
    by (auto simp: write_log_entry_def snprintf_fits write_all_def u_def split_def)
  moreover have "arrivals u = arrivals s" "logger_running u = logger_running s"
    using more_loop_rest [OF m] t by (simp_all add: loop_rest_def)
  ultimately show ?thesis using \<open>healthy u\<close> by (intro that [of u])
qed

lemma late_signal_healthy: "healthy s \<Longrightarrow> exec late_signal s = s"
  by (simp add: healthy_def late_signal_def)

lemma logger_loop_healthy:
  assumes "healthy s" and "fd_obj s (log_file s) = Some (FReg i off)" and "logger_running s"
    and "arrivals s = map Datagram ds"
  shows "\<exists>q. logged i q s (logger_loop s) \<and> entries (accepted_from (arrivals s)) q \<and>
    arrivals (logger_loop s) = [] \<and> list_all soft (fs_script (logger_loop s))"
  using assms
proof (induction ds arbitrary: s)
  case Nil
  obtain s1 where recv: "run_state (sys_recvfrom (logger_socket s) PACKET_SIZE) s = ((-1, []), s1)"
      and s1: "errno s1 = EINTR" "\<not> logger_running s1" "healthy s1" "arrivals s1 = []"
    using Nil by (simp add: sys_recvfrom_def handle_signal_def fail_def set_errno_def healthy_def)
  have "logger_loop s1 = s1"
    using s1 by (simp add: logger_loop.simps [of s1] late_signal_healthy Let_def)
  then have "logger_loop s = s1"
    using Nil recv s1 by (simp add: logger_loop.simps [of s] late_signal_healthy Let_def)
  moreover have "logged i [] s s1" by (rule state_io_relD [OF sys_recvfrom_logged recv])
  ultimately show ?case using Nil s1 by (auto simp: healthy_def)
next
  case (Cons d ds)
  obtain s1 where recv: "run_state (sys_recvfrom (logger_socket s) PACKET_SIZE) s =
        ((int (min PACKET_SIZE (length d)), take PACKET_SIZE d), s1)"
      and s1: "logger_running s1" "healthy s1" "arrivals s1 = map Datagram ds"
    using Cons.prems by (simp add: sys_recvfrom_def healthy_def)
  have l1: "logged i [] s s1" by (rule state_io_relD [OF sys_recvfrom_logged recv])
  then have obj1: "fd_obj s1 (log_file s1) = Some (FReg i off)"
    using Cons.prems(2) logged_fd_obj [OF l1] by (simp add: logged_def)
  obtain s2 where proc: "run_state (process_datagram (int (min PACKET_SIZE (length d)))
        (take PACKET_SIZE d)) s1 = (True, s2)"
      and s2: "healthy s2" "arrivals s2 = map Datagram ds" "logger_running s2"
  proof (cases "accepted d")
    case None
    with s1 show thesis
      by (intro that [of s1]) (auto simp: process_datagram_def accepted_def min_def split: if_splits)
  next
    case (Some p)
    then have p: "p = parse_packet (take PACKET_SIZE d)" "validate_packet p = 0" "PACKET_SIZE \<le> length d"
      by (auto simp: accepted_def split: if_splits)
    then have "packet_wf p" by (simp add: parse_packet_wf)
    from write_log_entry_healthy [OF s1(2) obj1 p(2) this] obtain u where
      "run_state (write_log_entry p) s1 = (0, u)" "healthy u" "arrivals u = arrivals s1"
      "logger_running u = logger_running s1" by metis
    with p s1 show thesis by (intro that [of u]) (auto simp: process_datagram_def)
  qed
  have loop: "logger_loop s = logger_loop s2"
    using Cons.prems recv proc
    by (simp add: logger_loop.simps [of s] late_signal_healthy Let_def)
  from process_datagram_spec [OF proc obj1] obtain q where q: "logged i q s1 s2"
    and acc: "case accepted d of None \<Rightarrow> q = [] | Some p \<Rightarrow> \<exists>ts. length ts < 32 \<and> q = entry_text ts p"
    by (cases "accepted d") auto
  have l2: "logged i q s s2" using logged_trans [OF l1 q] by simp
  then have "fd_obj s2 (log_file s2) = Some (FReg i off)"
    using Cons.prems(2) logged_fd_obj [OF l2] by (simp add: logged_def)
  from Cons.IH [OF s2(1) this s2(3,2)] obtain q' where q': "logged i q' s2 (logger_loop s2)"
      "entries (accepted_from (map Datagram ds)) q'" "arrivals (logger_loop s2) = []"
      "list_all soft (fs_script (logger_loop s2))"
    using s2 by auto
  have "entries (accepted_from (arrivals s)) (q @ q')"
    using acc q'(2) Cons.prems(4) by (auto split: option.splits)
  with logged_trans [OF l2 q'(1)] q'(3,4) show ?case unfolding loop by blast
qed

subsection \<open>Start and end\<close>

text \<open>Everything outside the directory of the socket file stays as it was, and the descriptors
  and the two static descriptor variables are tracked separately.\<close>

definition around :: "logd \<Rightarrow> logd \<Rightarrow> bool" where
  "around s s' \<longleftrightarrow> (\<forall>p. p \<noteq> LOGGER_SOCKET_DIR \<longrightarrow> dirs s' p = dirs s p) \<and>
     (\<forall>j < next_ino s. inodes s' j = inodes s j) \<and> next_ino s \<le> next_ino s' \<and>
     suffix (fs_script s') (fs_script s) \<and> arrivals s' = arrivals s \<and>
     late_signals s' = late_signals s \<and> logger_running s' = logger_running s \<and>
     time_zone s' = time_zone s \<and> wall_script s' = wall_script s \<and> wall_now s' = wall_now s"

lemma around_refl: "around s s"
  by (simp add: around_def)

lemma around_trans: "around s t \<Longrightarrow> around t u \<Longrightarrow> around s u"
  unfolding around_def by (auto intro: suffix_order.trans)

interpretation around: frame_rel around
  by unfold_locales (rule around_refl, rule around_trans)

lemma around_modify: "(\<And>s. around s (f s)) \<Longrightarrow> state_io_rel around (modify f)"
  by (simp add: state_io_rel_def)

lemma fs_fault_around: "state_io_rel around fs_fault"
  by (auto simp: fs_fault_def io_rel_State around_def suffix_Cons split: list.splits)

lemma fail_around: "state_io_rel around (fail e)" and mtx_ok_around: "state_io_rel around mtx_ok"
  by (auto simp: fail_def set_errno_def mtx_ok_def mtx_fault_def state_io_rel_def around_def
      split: list.splits)

lemma alloc_fd_around: "state_io_rel around (alloc_fd obj)"
  by (simp add: alloc_fd_def io_rel_State around_def)

lemmas around_base = fs_fault_around fail_around mtx_ok_around alloc_fd_around around_modify

lemma sys_around:
  "state_io_rel around sys_socket" "state_io_rel around (sys_close fd)"
  "state_io_rel around (sys_unlink LOGGER_SOCKET_DIR name)"
  "state_io_rel around (sys_bind_path fd LOGGER_SOCKET_DIR name)"
  unfolding sys_socket_def sys_close_def sys_unlink_def sys_bind_path_def
  by (intro around.io_sys around_base; simp add: around_def del_entry_def add_entry_def)+

lemma create_logger_socket_around: "state_io_rel around create_logger_socket"
  unfolding create_logger_socket_def
  by (intro around.io_sys sys_around around_modify) (simp_all add: around_def)

lemma cleanup_around: "state_io_rel around cleanup"
  unfolding cleanup_def
  by (intro around.io_sys sys_around around_modify) (simp_all add: around_def)

text \<open>Descriptors: the socket is entered once and taken out again.\<close>

lemma delete_fresh [simp]: "AList.delete (fresh_fd t) t = t"
  by (rule AList.delete_id) (rule fresh_fd_props(1))

lemmas daemon_fds = sys_socket_def sys_close_def sys_unlink_def sys_bind_path_def fail_def set_errno_def
  fs_fault_def alloc_fd_def fd_obj_def del_entry_def add_entry_def

lemma sys_socket_fds:
  assumes "run_state sys_socket s = (fd, s')"
  shows "fd = -1 \<and> fds s' = fds s \<or> fd = fresh_fd (fds s) \<and> fds s' = (fd, FSock) # fds s"
  using assms by (auto simp: daemon_fds split: list.splits fault.splits)

lemma path_calls_fds:
  "state_io_rel (same fds) (sys_unlink d name)" "state_io_rel (same fds) (sys_bind_path fd d name)"
  by (auto simp: daemon_fds state_io_rel_def same_def split: list.splits fault.splits option.splits)

lemma sys_close_fds:
  assumes "run_state (sys_close fd) s = (r, s')"
  shows "fds s' = AList.delete fd (fds s)"
  using assms
  by (auto simp: daemon_fds map_of_eq_None_iff split: list.splits fault.splits if_splits)


lemma daemon_more:
  "state_io_rel (same os.more) (sys_close fd)" "state_io_rel (same os.more) (sys_unlink d name)"
  "state_io_rel (same os.more) (sys_bind_path fd d name)" "state_io_rel (same os.more) sys_socket"
  by (auto simp: daemon_fds state_io_rel_def same_def split: list.splits fault.splits option.splits)

lemma more_log_file:
  fixes s s' :: logd
  shows "os.more s' = os.more s \<Longrightarrow> log_file s' = log_file s \<and> logger_socket s' = logger_socket s"
  using more_loop_rest [of s' s] by (simp add: loop_rest_def)

lemma close_socket:
  fixes s s' :: logd
  assumes "run_state (do { _ \<leftarrow> sys_close fd; modify (\<lambda>s. s\<lparr>logger_socket := - 1\<rparr>); ret (- 1 :: int) }) s = (r, s')"
    and "fds s = (fd, FSock) # fds0" and "fd = fresh_fd fds0"
  shows "r = -1 \<and> logger_socket s' = -1 \<and> fds s' = fds0 \<and> log_file s' = log_file s"
proof -
  obtain c t where c: "run_state (sys_close fd) s = (c, t)" by fastforce
  with assms(1) have "r = -1" and s': "s' = t\<lparr>logger_socket := - 1\<rparr>" by auto
  moreover have "fds t = fds0" using sys_close_fds [OF c] assms(2,3) by simp
  moreover have "log_file t = log_file s"
    using more_log_file same_run [OF daemon_more(1) c] by blast
  ultimately show ?thesis by simp
qed

lemma create_logger_socket_fds:
  assumes "run_state create_logger_socket s = (r, s')"
  shows "log_file s' = log_file s \<and>
    (r = 0 \<and> logger_socket s' = fresh_fd (fds s) \<and> fds s' = (fresh_fd (fds s), FSock) # fds s \<or>
     r = -1 \<and> logger_socket s' = -1 \<and> fds s' = fds s)"
proof -
  obtain fd t where t: "run_state sys_socket s = (fd, t)" by fastforce
  note lf = more_log_file [OF same_run [OF daemon_more(4) t]]
  show ?thesis
  proof (cases "fd < 0")
    case True
    with assms t sys_socket_fds [OF t] lf fresh_fd_props(2) [of "fds s"] show ?thesis
      by (auto simp: create_logger_socket_def)
  next
    case False
    then have fd: "fd = fresh_fd (fds s)" "fds t = (fd, FSock) # fds s"
      using sys_socket_fds [OF t] by auto
    define t0 where "t0 = t\<lparr>logger_socket := fd\<rparr>"
    obtain u t1 where u: "run_state (sys_unlink LOGGER_SOCKET_DIR LOGGER_SOCKET_NAME) t0 = (u, t1)"
      by fastforce
    obtain b t2 where b: "run_state (sys_bind_path fd LOGGER_SOCKET_DIR LOGGER_SOCKET_NAME) t1 = (b, t2)"
      by fastforce
    have 1: "fds t1 = fds t0" "os.more t1 = os.more t0"
      using same_run [OF path_calls_fds(1) u] same_run [OF daemon_more(2) u] by auto
    have 2: "fds t2 = fds t1" "os.more t2 = os.more t1"
      using same_run [OF path_calls_fds(2) b] same_run [OF daemon_more(3) b] by auto
    have path: "\<not> fst (snprintf 108 LOGGER_SOCKET_PATH) \<ge> 108"
      by (simp add: snprintf_def LOGGER_SOCKET_PATH_def)
    consider (stale) "run_state (do { _ \<leftarrow> sys_close fd; modify (\<lambda>s. s\<lparr>logger_socket := - 1\<rparr>); ret (- 1 :: int) }) t1 = (r, s')"
      | (taken) "run_state (do { _ \<leftarrow> sys_close fd; modify (\<lambda>s. s\<lparr>logger_socket := - 1\<rparr>); ret (- 1 :: int) }) t2 = (r, s')"
      | (bound) "r = 0" "s' = t2"
      using assms t False u b path
      by (auto simp: create_logger_socket_def t0_def [symmetric] split: if_splits prod.splits)
    then show ?thesis
      using close_socket [of fd t1 r s' "fds s"] close_socket [of fd t2 r s' "fds s"] 1 2 fd lf
        more_log_file [of t1 t0] more_log_file [of t2 t1]
      by cases (auto simp: t0_def)
  qed
qed

lemma cleanup_fds:
  assumes "fds s = (fd2, x) # (fd1, y) # fds0" and "logger_socket s = fd1" and "log_file s = fd2"
    and "fd1 = fresh_fd fds0" and "fd2 = fresh_fd ((fd1, y) # fds0)"
  shows "fds (exec cleanup s) = fds0"
proof -
  have ne: "fd2 \<noteq> fd1" "fd2 \<notin> fst ` set fds0" "0 \<le> fd1" "0 \<le> fd2"
    using fresh_fd_props [of fds0] fresh_fd_props [of "(fd1, y) # fds0"] assms(4,5) by auto
  obtain c t where c: "run_state (sys_close fd1) s = (c, t)" by fastforce
  define t0 where "t0 = t\<lparr>logger_socket := - 1\<rparr>"
  obtain c' u where c': "run_state (sys_close fd2) t0 = (c', u)" by fastforce
  define u0 where "u0 = u\<lparr>log_file := - 1\<rparr>"
  have "fds t = (fd2, x) # fds0" using sys_close_fds [OF c] assms ne by simp
  then have "fds u = fds0" using sys_close_fds [OF c'] ne by (simp add: t0_def)
  moreover have "log_file t0 = fd2"
    using more_log_file [OF same_run [OF daemon_more(1) c]] assms(3) by (simp add: t0_def)
  then have "exec cleanup s = exec (sys_unlink LOGGER_SOCKET_DIR LOGGER_SOCKET_NAME) u0"
    using c c' ne assms(2,3) by (simp add: cleanup_def t0_def u0_def split_def)
  ultimately show ?thesis
    using same_exec [OF path_calls_fds(1), of LOGGER_SOCKET_DIR LOGGER_SOCKET_NAME u0]
    by (simp add: u0_def)
qed

definition log_text :: "logd \<Rightarrow> byte list" where
  "log_text s = (case entry s LOGGER_LOG_DIR LOGGER_LOG_NAME of
     None \<Rightarrow> [] | Some i \<Rightarrow> content (inodes s i))"

definition log_wf :: "logd \<Rightarrow> bool" where
  "log_wf s \<longleftrightarrow> (\<forall>i. entry s LOGGER_LOG_DIR LOGGER_LOG_NAME = Some i \<longrightarrow> i < next_ino s)"

lemma log_dirs_differ [simp]: "LOGGER_LOG_DIR \<noteq> LOGGER_SOCKET_DIR"
  by (simp add: LOGGER_LOG_DIR_def LOGGER_SOCKET_DIR_def)

lemma around_log:
  assumes "around s s'" and "log_wf s"
  shows "log_text s' = log_text s" and "log_wf s'"
    and "entry s' LOGGER_LOG_DIR LOGGER_LOG_NAME = entry s LOGGER_LOG_DIR LOGGER_LOG_NAME"
proof -
  show e: "entry s' LOGGER_LOG_DIR LOGGER_LOG_NAME = entry s LOGGER_LOG_DIR LOGGER_LOG_NAME"
    using assms(1) by (simp add: around_def entry_def)
  show "log_text s' = log_text s"
    using assms e by (auto simp: log_text_def log_wf_def around_def split: option.splits)
  show "log_wf s'"
    using assms e by (force simp: log_wf_def around_def)
qed

lemma open_log_file_spec:
  assumes "run_state open_log_file s = (r, s')" and "log_wf s"
  obtains (failed) "r = -1" "fds s' = fds s" "log_file s' = -1" "logger_socket s' = logger_socket s"
      "log_text s' = log_text s" "log_wf s'" "arrivals s' = arrivals s"
    | (opened) i where "r = 0" "fds s' = (fresh_fd (fds s), FReg i 0) # fds s"
      "log_file s' = fresh_fd (fds s)" "logger_socket s' = logger_socket s"
      "entry s' LOGGER_LOG_DIR LOGGER_LOG_NAME = Some i" "i < next_ino s'"
      "content (inodes s' i) = log_text s" "arrivals s' = arrivals s"
      "healthy s \<Longrightarrow> healthy s'" "logger_running s' = logger_running s"
proof -
  obtain fd t where t: "run_state (sys_open_append LOGGER_LOG_DIR LOGGER_LOG_NAME) s = (fd, t)" by fastforce
  with assms(1) have s': "s' = t\<lparr>log_file := fd\<rparr>" and r: "r = (if fd < 0 then -1 else 0)"
    by (auto simp: open_log_file_def split: if_splits)
  have "fd = -1 \<and> fds t = fds s \<and> dirs t = dirs s \<and> inodes t = inodes s \<and> next_ino t = next_ino s \<and>
      os.more t = os.more s \<or>
    (\<exists>i. fd = fresh_fd (fds s) \<and> fds t = (fd, FReg i 0) # fds s \<and>
      entry t LOGGER_LOG_DIR LOGGER_LOG_NAME = Some i \<and> i < next_ino t \<and>
      content (inodes t i) = log_text s \<and> os.more t = os.more s \<and> suffix (fs_script t) (fs_script s))"
    using t assms(2)
    by (auto simp: sys_open_append_def fs_fault_def fail_def set_errno_def alloc_fd_def
        create_inode_def add_entry_def entry_def log_text_def log_wf_def map_add_def suffix_Cons
        split: list.splits fault.splits option.splits if_splits)
  then show thesis
  proof (elim disjE exE conjE)
    assume *: "fd = -1" "fds t = fds s" "dirs t = dirs s" "inodes t = inodes s" "next_ino t = next_ino s"
      "os.more t = os.more s"
    have "loop_rest t = loop_rest s" by (rule more_loop_rest) (rule *(6))
    with * s' r assms(2) show thesis
      by (intro failed) (simp_all add: log_text_def log_wf_def entry_def loop_rest_def split: option.split)
  next
    fix i
    assume *: "fd = fresh_fd (fds s)" "fds t = (fd, FReg i 0) # fds s"
      "entry t LOGGER_LOG_DIR LOGGER_LOG_NAME = Some i" "i < next_ino t"
      "content (inodes t i) = log_text s" "os.more t = os.more s" "suffix (fs_script t) (fs_script s)"
    have m: "loop_rest t = loop_rest s" by (rule more_loop_rest) (rule *(6))
    have w: "wall_script t = wall_script s" using *(6) by (cases s; cases t) simp
    have "list_all soft (fs_script t)" if "list_all soft (fs_script s)"
      using that *(7) by (auto simp: suffix_def)
    with m w s' have "healthy s \<Longrightarrow> healthy s'" by (auto simp: healthy_def loop_rest_def)
    then show thesis
      using * s' r m fresh_fd_props(2) [of "fds s"]
      by (intro opened [of i]) (simp_all add: entry_def loop_rest_def)
  qed
qed

lemma logged_log_text:
  assumes "logged i q s s'" and "entry s LOGGER_LOG_DIR LOGGER_LOG_NAME = Some i" and "i < next_ino s"
  shows "log_text s' = content (inodes s i) @ q" and "log_wf s'"
    and "entry s' LOGGER_LOG_DIR LOGGER_LOG_NAME = Some i"
  using assms by (simp_all add: logged_def log_text_def log_wf_def entry_def)

text \<open>The daemon from its start to its end, for every sequence of arrivals and faults.\<close>

lemma logger_main_spec:
  assumes "run_state logger_main s = (r, s')" and "log_wf s"
  shows "fds s' = fds s \<and>
    (r = EXIT_FAILURE \<and> log_text s' = log_text s \<or>
     r = EXIT_SUCCESS \<and> (\<exists>consumed q. arrivals s = consumed @ arrivals s' \<and>
       log_text s' = log_text s @ q \<and> journal (accepted_from consumed) q))"
proof -
  have mtx: "state_io_rel (same (\<lambda>s. (fds s, arrivals s))) (mtx_ok :: (logd, bool) state)"
    by (auto simp: mtx_ok_def mtx_fault_def state_io_rel_def same_def split: list.splits)
  obtain a1 s1 where 1: "run_state mtx_ok s = (a1, s1)" by fastforce
  obtain a2 s2 where 2: "run_state mtx_ok s1 = (a2, s2)" by fastforce
  obtain a3 s3 where 3: "run_state mtx_ok s2 = (a3, s3)" by fastforce
  have f: "fds s1 = fds s" "fds s2 = fds s" "fds s3 = fds s" "arrivals s3 = arrivals s"
    using same_run [OF mtx 1] same_run [OF mtx 2] same_run [OF mtx 3] by auto
  note ar = state_io_relD [OF mtx_ok_around 1] state_io_relD [OF mtx_ok_around 2]
    state_io_relD [OF mtx_ok_around 3]
  note l1 = around_log [OF ar(1) assms(2)]
  note l2 = around_log [OF ar(2) l1(2)]
  note l3 = around_log [OF ar(3) l2(2)]
  obtain c t where c: "run_state create_logger_socket s3 = (c, t)" by fastforce
  have art: "around s3 t" by (rule state_io_relD [OF create_logger_socket_around c])
  note lt = around_log [OF art l3(2)] and ct = create_logger_socket_fds [OF c]
  obtain d u where d: "run_state open_log_file t = (d, u)" by fastforce
  show ?thesis
  proof (cases "a1 \<and> a2 \<and> a3 \<and> c = 0")
    case False
    then show ?thesis
      using assms(1) 1 2 3 c f l1(1) l2(1) l3(1) lt(1) ct
      by (auto simp: logger_main_def split: if_splits)
  next
    case True
    then have ct: "logger_socket t = fresh_fd (fds s)" "fds t = (fresh_fd (fds s), FSock) # fds s"
      using ct f by auto
    from d lt(2) show ?thesis
    proof (cases rule: open_log_file_spec)
      case failed
      with assms(1) True 1 2 3 c d have r: "r = EXIT_FAILURE" "s' = exec cleanup u"
        by (auto simp: logger_main_def split_def)
      have "around u s'" unfolding r by (rule io_rel_exec) (rule cleanup_around)
      then have "log_text s' = log_text s"
        using around_log(1) failed(5,6) l1(1) l2(1) l3(1) lt(1) by simp
      moreover have "fds s' = fds s"
      proof -
        obtain k v where k: "run_state (sys_close (logger_socket u)) u = (k, v)" by fastforce
        have "fds v = fds s" using sys_close_fds [OF k] failed ct by simp
        moreover have "log_file v = -1"
          using more_log_file [OF same_run [OF daemon_more(1) k]] failed by simp
        ultimately show ?thesis
          unfolding r using k failed ct fresh_fd_props(2) [of "fds s"]
            same_exec [OF path_calls_fds(1), of LOGGER_SOCKET_DIR LOGGER_SOCKET_NAME "v\<lparr>logger_socket := - 1\<rparr>"]
          by (simp add: cleanup_def split_def)
      qed
      ultimately show ?thesis using r by simp
    next
      case (opened i)
      with assms(1) True 1 2 3 c d have r: "r = EXIT_SUCCESS" "s' = exec cleanup (logger_loop u)"
        by (auto simp: logger_main_def split_def)
      have "fd_obj u (log_file u) = Some (FReg i 0)" using opened by (simp add: fd_obj_def)
      from logger_loop_spec [OF this] obtain consumed q where
        q: "arrivals u = consumed @ arrivals (logger_loop u)" "logged i q u (logger_loop u)"
          "journal (accepted_from consumed) q" unfolding loop_done_def by blast
      have arr: "around (logger_loop u) s'" unfolding r by (rule io_rel_exec) (rule cleanup_around)
      note lq = logged_log_text [OF q(2) opened(5,6)]
      have "log_text s' = log_text s @ q"
        using around_log(1) [OF arr lq(2)] lq(1) opened(7) l1(1) l2(1) l3(1) lt(1) by simp
      moreover have "arrivals s = consumed @ arrivals s'"
        using arr q(1) opened f(4) art by (simp add: around_def)
      moreover have "fds s' = fds s"
        unfolding r using q(2) opened ct
        by (intro cleanup_fds [of _ _ "FReg i 0" _ FSock]) (auto simp: logged_def)
      ultimately show ?thesis using r(1) q(3) by blast
    qed
  qed
qed

subsection \<open>A run without failures\<close>

definition socket_file :: "logd \<Rightarrow> nat option" where
  "socket_file s = entry s LOGGER_SOCKET_DIR LOGGER_SOCKET_NAME"

text \<open>The state a daemon starts from when its log directory is there and no call will fail.\<close>

definition daemon_ready :: "logd \<Rightarrow> bool" where
  "daemon_ready s \<longleftrightarrow> healthy s \<and> fs_script s = [] \<and> mtx_script s = [] \<and> log_wf s \<and> logger_running s \<and>
     dkind (dirs s LOGGER_LOG_DIR) = DDir \<and>
     (\<forall>i. entry s LOGGER_LOG_DIR LOGGER_LOG_NAME = Some i \<longrightarrow> ikind (inodes s i) \<noteq> IDir) \<and>
     (\<forall>i. socket_file s = Some i \<longrightarrow> ikind (inodes s i) \<noteq> IDir)"

lemma sys_unlink_quiet:
  assumes "fs_script s = []" and "\<And>i. entry s d name = Some i \<Longrightarrow> ikind (inodes s i) \<noteq> IDir"
  shows "\<exists>r s'. run_state (sys_unlink d name) s = (r, s') \<and> (r = 0 \<or> errno s' = ENOENT) \<and>
    entry s' d name = None \<and> fs_script s' = []"
  using assms
  by (auto simp: daemon_fds entry_def delete_conv' split: option.splits)

lemma sys_bind_quiet:
  assumes "fs_script s = []" and "entry s d name = None"
  shows "\<exists>s' i. run_state (sys_bind_path fd d name) s = (0, s') \<and> entry s' d name = Some i \<and>
    i < next_ino s' \<and> ikind (inodes s' i) = IOther \<and> fs_script s' = []"
  using assms
  by (auto simp: daemon_fds entry_def map_add_def intro!: exI [of _ "next_ino s"])

lemma create_logger_socket_ready:
  assumes "daemon_ready s"
  obtains t i where "run_state create_logger_socket s = (0, t)" "socket_file t = Some i"
    "ikind (inodes t i) = IOther" "i < next_ino t" "fs_script t = []"
proof -
  obtain t where t: "run_state sys_socket s = (fresh_fd (fds s), t)" "fs_script t = []"
      "dirs t = dirs s" "inodes t = inodes s"
    using assms by (simp add: daemon_ready_def daemon_fds)
  define t0 where "t0 = t\<lparr>logger_socket := fresh_fd (fds s)\<rparr>"
  have "\<exists>r s'. run_state (sys_unlink LOGGER_SOCKET_DIR LOGGER_SOCKET_NAME) t0 = (r, s') \<and>
      (r = 0 \<or> errno s' = ENOENT) \<and> entry s' LOGGER_SOCKET_DIR LOGGER_SOCKET_NAME = None \<and> fs_script s' = []"
    using assms t by (intro sys_unlink_quiet) (auto simp: t0_def daemon_ready_def socket_file_def entry_def)
  then obtain r t1 where u: "run_state (sys_unlink LOGGER_SOCKET_DIR LOGGER_SOCKET_NAME) t0 = (r, t1)"
    "r = 0 \<or> errno t1 = ENOENT" "entry t1 LOGGER_SOCKET_DIR LOGGER_SOCKET_NAME = None" "fs_script t1 = []"
    by blast
  from sys_bind_quiet [OF u(4,3), of "fresh_fd (fds s)"] obtain t2 i where
    "run_state (sys_bind_path (fresh_fd (fds s)) LOGGER_SOCKET_DIR LOGGER_SOCKET_NAME) t1 = (0, t2)"
    "entry t2 LOGGER_SOCKET_DIR LOGGER_SOCKET_NAME = Some i" "i < next_ino t2"
    "ikind (inodes t2 i) = IOther" "fs_script t2 = []" by blast
  moreover have "\<not> fst (snprintf 108 LOGGER_SOCKET_PATH) \<ge> 108"
    by (simp add: snprintf_def LOGGER_SOCKET_PATH_def)
  ultimately show thesis
    using t u fresh_fd_props(2) [of "fds s"]
    by (intro that [of t2 i])
      (auto simp: create_logger_socket_def t0_def [symmetric] socket_file_def split: prod.splits)
qed

lemma open_log_file_ready:
  assumes "fs_script s = []" and "dkind (dirs s LOGGER_LOG_DIR) = DDir"
    and "\<And>i. entry s LOGGER_LOG_DIR LOGGER_LOG_NAME = Some i \<Longrightarrow> ikind (inodes s i) \<noteq> IDir"
    and "socket_file s = Some k" "k < next_ino s" "ikind (inodes s k) = IOther"
  obtains t where "run_state open_log_file s = (0, t)" "fs_script t = []" "socket_file t = Some k"
    "ikind (inodes t k) = IOther"
proof (cases "entry s LOGGER_LOG_DIR LOGGER_LOG_NAME")
  case None
  let ?t = "(create_inode LOGGER_LOG_DIR LOGGER_LOG_NAME 420 s)
    \<lparr>fds := (fresh_fd (fds s), FReg (next_ino s) 0) # fds s, log_file := fresh_fd (fds s)\<rparr>"
  have "run_state open_log_file s = (0, ?t)"
    using assms(1,2) None fresh_fd_props(2) [of "fds s"]
    by (simp add: open_log_file_def sys_open_append_def fs_fault_def alloc_fd_def create_inode_def add_entry_def)
  with assms show thesis
    by (intro that [of ?t]) (simp_all add: create_inode_def add_entry_def socket_file_def entry_def
        log_dirs_differ [symmetric] del: log_dirs_differ)
next
  case (Some i)
  let ?t = "s\<lparr>fds := (fresh_fd (fds s), FReg i 0) # fds s, log_file := fresh_fd (fds s)\<rparr>"
  have "run_state open_log_file s = (0, ?t)"
    using assms(1-3) Some fresh_fd_props(2) [of "fds s"]
    by (simp add: open_log_file_def sys_open_append_def fs_fault_def alloc_fd_def)
  with assms show thesis by (intro that [of ?t]) (simp_all add: socket_file_def entry_def)
qed

text \<open>An exhausted script of the file calls stays exhausted.\<close>

lemma quiet_modify:
  "(\<And>s. fs_script (f s) = fs_script s) \<Longrightarrow> state_io_rel (keeps (\<lambda>s. fs_script s = [])) (modify f)"
  by (rule keeps.io_modify) (simp add: keeps_def)

lemma sys_append_quiet: "fs_script s = [] \<Longrightarrow> run_state (sys_append fd bs) s = (r, s') \<Longrightarrow> fs_script s' = []"
  using sys_append_script(1) [of fd bs s r s'] by simp

lemma log_write_loop_quiet: "fs_script s = [] \<Longrightarrow> fs_script (snd (log_write_loop fd buf n s)) = []"
proof (induction fd buf n s rule: log_write_loop.induct)
  case (1 fd buf n s)
  obtain k t where run: "run_state (sys_append fd (drop n buf)) s = (k, t)" by fastforce
  with sys_append_quiet [OF "1.prems"] have "fs_script t = []" by blast
  with "1.IH" run "1.prems" show ?case by (subst log_write_loop.simps) auto
qed

lemma process_datagram_quiet: "state_io_rel (keeps (\<lambda>s. fs_script s = [])) (process_datagram n bs)"
proof -
  have w: "state_io_rel (keeps (\<lambda>s. fs_script s = [])) (write_all fd b :: (logd, int) state)" for fd b
    by (auto simp: write_all_def io_rel_State keeps_def log_write_loop_quiet)
  show ?thesis
    unfolding process_datagram_def write_log_entry_def create_timestamp_def wall_time_def
      fail_none_def set_errno_def
    by (intro keeps.io_sys w quiet_modify) simp_all
qed

lemma logger_loop_quiet: "fs_script s = [] \<Longrightarrow> fs_script (logger_loop s) = []"
proof (induction s rule: logger_loop.induct)
  case (1 s0)
  define s where "s = exec late_signal s0"
  have s: "fs_script s = []"
    using "1.prems" by (simp add: s_def late_signal_def handle_signal_def split_def)
  obtain received bytes s1 where recv:
    "run_state (sys_recvfrom (logger_socket s) PACKET_SIZE) s = ((received, bytes), s1)"
    by (metis prod_cases3 surj_pair)
  with s have s1: "fs_script s1 = []"
    by (auto simp: sys_recvfrom_def handle_signal_def fail_def set_errno_def
        split: list.splits arrival.splits)
  obtain c s2 where proc: "run_state (process_datagram received bytes) s1 = (c, s2)" by fastforce
  have s2: "fs_script s2 = []" by (rule keeps_run [OF process_datagram_quiet proc s1])
  show ?case
    using "1.IH" s s1 s2 recv proc unfolding logger_loop.simps [of s0] Let_def s_def [symmetric]
    by (auto simp: s_def [symmetric])
qed

lemma cleanup_quiet:
  assumes "fs_script s = []" and "socket_file s = Some k" and "ikind (inodes s k) = IOther"
  shows "socket_file (exec cleanup s) = None"
proof -
  have close: "fs_script (exec (sys_close fd) t) = [] \<and> dirs (exec (sys_close fd) t) = dirs t \<and>
      inodes (exec (sys_close fd) t) = inodes t" if "fs_script t = []" for fd and t :: logd
    using that by (simp add: daemon_fds)
  define t where "t = (if logger_socket s \<ge> 0
    then (exec (sys_close (logger_socket s)) s)\<lparr>logger_socket := - 1\<rparr> else s)"
  define u where "u = (if log_file t \<ge> 0
    then (exec (sys_close (log_file t)) t)\<lparr>log_file := - 1\<rparr> else t)"
  have t: "fs_script t = []" "dirs t = dirs s" "inodes t = inodes s"
    using close assms(1) by (simp_all add: t_def)
  then have u: "fs_script u = []" "dirs u = dirs s" "inodes u = inodes s"
    using close by (simp_all add: u_def)
  have "exec cleanup s = exec (sys_unlink LOGGER_SOCKET_DIR LOGGER_SOCKET_NAME) u"
    by (simp add: cleanup_def t_def u_def split_def)
  moreover have "\<exists>r s'. run_state (sys_unlink LOGGER_SOCKET_DIR LOGGER_SOCKET_NAME) u = (r, s') \<and>
      (r = 0 \<or> errno s' = ENOENT) \<and> entry s' LOGGER_SOCKET_DIR LOGGER_SOCKET_NAME = None \<and> fs_script s' = []"
    using u assms(2,3) by (intro sys_unlink_quiet) (auto simp: socket_file_def entry_def)
  ultimately show ?thesis by (auto simp: socket_file_def)
qed

lemma logger_loop_files: "logged i q u s \<Longrightarrow> socket_file s = socket_file u \<and>
    (ikind (inodes u k) = IOther \<longrightarrow> ikind (inodes s k) = IOther)"
  by (auto simp: logged_def socket_file_def entry_def)

lemma around_healthy: "around s t \<Longrightarrow> healthy s \<Longrightarrow> healthy t"
  by (auto simp: around_def healthy_def suffix_def)

lemma logger_main_ready:
  assumes "daemon_ready s" and "arrivals s = map Datagram ds"
  shows "\<exists>s' q. run_state logger_main s = (EXIT_SUCCESS, s') \<and> log_text s' = log_text s @ q \<and>
    entries (accepted_from (arrivals s)) q \<and> arrivals s' = [] \<and> fds s' = fds s \<and> socket_file s' = None"
proof -
  note r = assms(1) [unfolded daemon_ready_def]
  from create_logger_socket_ready [OF assms(1)] obtain t k where
    c: "run_state create_logger_socket s = (0, t)" and t: "socket_file t = Some k"
      "ikind (inodes t k) = IOther" "k < next_ino t" "fs_script t = []" by blast
  have art: "around s t" by (rule state_io_relD [OF create_logger_socket_around c])
  have wf: "log_wf s" using r by simp
  note lt = around_log [OF art wf]
  have kind: "ikind (inodes t i) \<noteq> IDir" if "entry t LOGGER_LOG_DIR LOGGER_LOG_NAME = Some i" for i
    using that r art lt(3) by (auto simp: around_def log_wf_def)
  have dir: "dkind (dirs t LOGGER_LOG_DIR) = DDir" using r art by (simp add: around_def)
  from open_log_file_ready [OF t(4) dir kind t(1,3,2)] obtain u where
    d: "run_state open_log_file t = (0, u)" and u: "fs_script u = []" "socket_file u = Some k"
      "ikind (inodes u k) = IOther" by blast
  from open_log_file_spec [OF d lt(2)] obtain i where o: "fds u = (fresh_fd (fds t), FReg i 0) # fds t"
      "log_file u = fresh_fd (fds t)" "entry u LOGGER_LOG_DIR LOGGER_LOG_NAME = Some i" "i < next_ino u"
      "content (inodes u i) = log_text t" "arrivals u = arrivals t" "healthy t \<Longrightarrow> healthy u"
      "logger_running u = logger_running t" by auto
  have obj: "fd_obj u (log_file u) = Some (FReg i 0)" using o by (simp add: fd_obj_def)
  have h: "healthy u" "logger_running u" "arrivals u = map Datagram ds"
    using o art r assms(2) around_healthy [OF art] by (auto simp: around_def)
  from logger_loop_healthy [OF h(1) obj h(2,3)] obtain q where
    q: "logged i q u (logger_loop u)" "entries (accepted_from (arrivals u)) q"
      "arrivals (logger_loop u) = []" by blast
  define s' where "s' = exec cleanup (logger_loop u)"
  have run: "run_state logger_main s = (EXIT_SUCCESS, s')"
    using r c d by (simp add: logger_main_def mtx_ok_quiet s'_def split_def)
  have "fs_script (logger_loop u) = []" by (rule logger_loop_quiet) (rule u(1))
  have arr: "around (logger_loop u) s'" unfolding s'_def by (rule io_rel_exec) (rule cleanup_around)
  note lq = logged_log_text [OF q(1) o(3,4)]
  have "log_text s' = log_text s @ q"
    using around_log(1) [OF arr lq(2)] lq(1) o(5) lt(1) by simp
  moreover have "arrivals s' = []" using arr q(3) by (simp add: around_def)
  moreover have "fds s' = fds s" using logger_main_spec [OF run wf] by blast
  moreover have "socket_file s' = None"
    unfolding s'_def using logger_loop_files [OF q(1)] u \<open>fs_script (logger_loop u) = []\<close>
    by (intro cleanup_quiet) auto
  ultimately show ?thesis using run q(2) h(3) assms(2) by auto
qed

end
