(* ===== verification/Logger_Properties.thy ===== *)
theory Logger_Properties
  imports Logger_Spec
begin

section \<open>The properties of the logger\<close>

subsection \<open>From the logging call to the log file\<close>

lemma cstr_zero_pad: "is_cstr s \<Longrightarrow> cstr (zero_pad n s) = s"
proof -
  assume "is_cstr s"
  then have "takeWhile (\<lambda>c. c \<noteq> NUL) (s @ replicate k NUL) = s" for k
    by (subst takeWhile_append2) (auto simp: is_cstr_def)
  then show ?thesis by (simp add: cstr_def zero_pad_def)
qed

lemma strnlen_zero_pad: "is_cstr s \<Longrightarrow> length s \<le> n \<Longrightarrow> strnlen (zero_pad n s) n = length s"
  by (simp add: strnlen_def length_zero_pad cstr_zero_pad)

text \<open>What a call of \<open>logger_client_log\<close> puts on the wire.\<close>

lemma logger_client_log_sent:
  assumes "run_state (logger_client_log lvl src text) s = (0, s')"
  shows "LOG_DEBUG \<le> lvl" "lvl \<le> LOG_ERROR" "0 < length src" "length src < LOGGER_SOURCE_MAX"
    "log_queue s' = log_queue s @ [build_packet lvl src text (pid s)]"
  using assms
  by (auto simp: logger_client_log_def log_fault_def split: if_splits list.splits)

lemma build_packet_wf:
  assumes "length src < LOGGER_SOURCE_MAX" and "- (2 ^ 31) \<le> p" and "p < 2 ^ 31"
  shows "packet_wf (build_packet lvl src text p)"
  using assms length_build_packet [OF assms(1), of lvl "text" p]
  by (simp add: packet_wf_def build_packet_def)

lemma build_packet_valid:
  assumes "LOG_DEBUG \<le> lvl" "lvl \<le> LOG_ERROR" "0 < length src" "length src < LOGGER_SOURCE_MAX"
    and "is_cstr src" "is_cstr text"
  shows "validate_packet (build_packet lvl src text p) = 0 \<longleftrightarrow> text \<noteq> []"
proof -
  have "uint (word_of_int lvl :: u16) = lvl"
    using assms(1,2) by (simp add: log_level_defs uint_word_of_int)
  with assms show ?thesis
    by (auto simp: validate_packet_def build_packet_def strnlen_zero_pad snprintf_def LOGGER_MESSAGE_MAX_def
        LOGGER_SOURCE_MAX_def min_eq_0_iff)
qed

lemma build_packet_entry:
  assumes "LOG_DEBUG \<le> lvl" "lvl \<le> LOG_ERROR" and "is_cstr src" "is_cstr text"
  shows "entry_text ts (build_packet lvl src text p) =
    ''['' @ ts @ ''] [PID:'' @ int_str p @ ''] ['' @ log_level_name lvl @ ''] ['' @ src @ ''] '' @
    take 1023 text @ [CHR 0x0A]"
proof -
  have "uint (word_of_int lvl :: u16) = lvl"
    using assms(1,2) by (simp add: log_level_defs uint_word_of_int)
  with assms show ?thesis
    by (simp add: entry_text_def build_packet_def cstr_zero_pad snprintf_def LOGGER_MESSAGE_MAX_def)
qed

text \<open>C28: every log message that the logging client reports as sent, with a text that is not
  empty, is accepted by the daemon and produces the entry
  \<open>[time] [PID:n] [LEVEL] [SOURCE] text\<close>, the text cut after 1023 bytes; a message with an empty
  text is the only one the daemon refuses.\<close>

theorem sent_log_message_is_accepted:
  assumes "run_state (logger_client_log lvl src text) s = (0, s')" and "is_cstr src" and "is_cstr text"
    and "- (2 ^ 31) \<le> pid s" and "pid s < 2 ^ 31"
  shows "\<exists>p. log_queue s' = log_queue s @ [p] \<and>
    accepted (packet_bytes p) = (if text = [] then None else Some p) \<and>
    (\<forall>ts. entry_text ts p = ''['' @ ts @ ''] [PID:'' @ int_str (pid s) @ ''] ['' @ log_level_name lvl @
       ''] ['' @ src @ ''] '' @ take 1023 text @ [CHR 0x0A])"
proof -
  note sent = logger_client_log_sent [OF assms(1)]
  let ?p = "build_packet lvl src text (pid s)"
  have wf: "packet_wf ?p" by (rule build_packet_wf [OF sent(4) assms(4,5)])
  then have "accepted (packet_bytes ?p) = (if text = [] then None else Some ?p)"
    using build_packet_valid [OF sent(1-4) assms(2,3), of "pid s"] parse_packet_bytes [OF wf, of "[]"]
    by (auto simp: accepted_def length_packet_bytes)
  with sent(5) build_packet_entry [OF sent(1,2) assms(2,3)] show ?thesis by blast
qed

definition logging_server :: log_os where
  "logging_server = \<lparr>errno = E0, pid = 7, tid = 1, fds = [], socks = \<lambda>_. \<lparr>inbox = [], outbox = [], shut = False\<rparr>,
     dirs = \<lambda>_. \<lparr>dkind = DMissing, ents = []\<rparr>, inodes = \<lambda>_. \<lparr>ikind = IOther, content = [], imode = 0\<rparr>,
     next_ino = 0, ofd_locks = [], mono_ns = 0, net_script = [], fs_script = [], mtx_script = [],
     clk_script = [], log_queue = [], log_script = []\<rparr>"

theorem sent_log_message_is_accepted_witness:
  "\<exists>p. log_queue (exec (logger_client_log LOG_WARN ''SERVER'' ''low disk'') logging_server) = [p] \<and>
    accepted (packet_bytes p) = Some p \<and>
    entry_text ''now'' p = ''[now] [PID:7] [WARN] [SERVER] low disk'' @ [CHR 0x0A]"
proof -
  let ?run = "run_state (logger_client_log LOG_WARN ''SERVER'' ''low disk'') logging_server"
  have "fst ?run = 0"
    by (simp add: logger_client_log_def log_level_defs LOGGER_SOURCE_MAX_def log_fault_def logging_server_def)
  then have run: "?run = (0, snd ?run)" by (simp add: prod_eq_iff)
  have [simp]: "log_queue logging_server = []" "pid logging_server = 7"
    by (simp_all add: logging_server_def)
  have "int_str 7 = ''7''" by code_simp
  moreover have "log_level_name LOG_WARN = ''WARN''" by (simp add: log_level_name_def log_level_defs)
  ultimately show ?thesis
    using sent_log_message_is_accepted [OF run] by (auto simp: NUL_def)
qed

subsection \<open>The daemon\<close>



text \<open>C20: whatever arrives at the daemon's socket and whatever calls fail or are interrupted, the
  daemon gives back every descriptor, and the log file gains exactly the entries of the accepted
  datagrams among those it consumed, in order, one entry each; only the entry whose write failed,
  after which the daemon stops, may be cut short. When the daemon reports that it could not start
  the log is unchanged.\<close>

theorem log_gains_exactly_the_accepted_entries:
  assumes "run_state logger_main s = (r, s')"
    and "\<forall>i. entry s LOGGER_LOG_DIR LOGGER_LOG_NAME = Some i \<longrightarrow> i < next_ino s"
  shows "fds s' = fds s \<and>
    (r = EXIT_FAILURE \<and> log_text s' = log_text s \<or>
     r = EXIT_SUCCESS \<and> (\<exists>consumed q. arrivals s = consumed @ arrivals s' \<and>
       log_text s' = log_text s @ q \<and> journal (accepted_from consumed) q))"
  using logger_main_spec [OF assms(1)] assms(2) by (simp add: log_wf_def)

definition utc :: "int \<Rightarrow> tm option" where
  "utc t = Some \<lparr>tm_year = 126, tm_mon = 0, tm_mday = 2, tm_hour = 3, tm_min = 4, tm_sec = t mod 60\<rparr>"

definition machine :: "arrival list \<Rightarrow> fault list \<Rightarrow> logd" where
  "machine as faults = \<lparr>errno = E0, pid = 7, tid = 1, fds = [], socks = \<lambda>_. \<lparr>inbox = [], outbox = [], shut = False\<rparr>,
     dirs = \<lambda>p. \<lparr>dkind = (if p = LOGGER_LOG_DIR then DDir else DMissing), ents = []\<rparr>,
     inodes = \<lambda>_. \<lparr>ikind = IOther, content = [], imode = 0\<rparr>,
     next_ino = 0, ofd_locks = [], mono_ns = 0, net_script = [], fs_script = faults, mtx_script = [],
     clk_script = [], logger_running = True, logger_socket = - 1, log_file = - 1, arrivals = as,
     late_signals = [], wall_now = 0, wall_script = [], time_zone = utc\<rparr>"

theorem log_gains_exactly_the_accepted_entries_witness:
  "fds (exec logger_main (machine [Datagram ''junk'', RecvError EIO] [NoFault, NoFault, Fault EMFILE])) = []"
  using log_gains_exactly_the_accepted_entries [OF surjective_pairing,
      of "machine [Datagram ''junk'', RecvError EIO] [NoFault, NoFault, Fault EMFILE]"]
  by (simp add: machine_def entry_def)

text \<open>C27: when no call fails and no signal interrupts it, the daemon consumes every datagram, writes
  the complete entry of each accepted one, returns success once it is told to stop, and removes its
  socket file.\<close>

theorem quiet_daemon_loses_nothing:
  assumes "daemon_ready s" and "arrivals s = map Datagram ds"
  shows "\<exists>s' q. run_state logger_main s = (EXIT_SUCCESS, s') \<and> log_text s' = log_text s @ q \<and>
    entries (accepted_from (map Datagram ds)) q \<and> arrivals s' = [] \<and> fds s' = fds s \<and>
    entry s' LOGGER_SOCKET_DIR LOGGER_SOCKET_NAME = None"
  using logger_main_ready [OF assms] assms(2) by (simp add: socket_file_def)

lemma machine_ready: "daemon_ready (machine as [])"
proof -
  have "length (timestamp_text (the (utc t))) < 32" for t
  proof -
    have "nat (t mod 60) < 10 ^ 2" by (simp add: nat_less_iff)
    then have "length (nat_str (nat (t mod 60))) \<le> 2" by (rule length_nat_str) simp
    moreover have "\<not> t mod 60 < 0" by simp
    ultimately have "length (pad_int 2 (t mod 60)) \<le> 2" unfolding pad_int_def Let_def by simp
    moreover have "length (pad_int 4 2026) = 4" "length (pad_int 2 1) = 2" "length (pad_int 2 2) = 2"
      "length (pad_int 2 3) = 2" "length (pad_int 2 4) = 2"
      by (simp_all add: pad_int_def nat_str.simps)
    ultimately show ?thesis by (simp add: timestamp_text_def utc_def)
  qed
  then show ?thesis
    by (simp add: daemon_ready_def healthy_def machine_def log_wf_def entry_def socket_file_def utc_def)
qed

theorem quiet_daemon_loses_nothing_witness:
  "\<exists>q. log_text (exec logger_main (machine (map Datagram [''junk'',
        packet_bytes (build_packet LOG_WARN ''SERVER'' ''low disk'' 7)]) [])) = q \<and>
      (\<exists>ts. length ts < 32 \<and> q = ''['' @ ts @ ''] [PID:7] [WARN] [SERVER] low disk'' @ [CHR 0x0A])"
proof -
  let ?p = "build_packet LOG_WARN ''SERVER'' ''low disk'' 7"
  let ?s = "machine (map Datagram [''junk'', packet_bytes ?p]) []"
  have arr: "arrivals ?s = map Datagram [''junk'', packet_bytes ?p]" by (simp add: machine_def)
  have bounds: "LOG_DEBUG \<le> LOG_WARN" "LOG_WARN \<le> LOG_ERROR" "0 < length ''SERVER''"
      "length ''SERVER'' < LOGGER_SOURCE_MAX" "is_cstr ''SERVER''" "is_cstr ''low disk''"
    by (simp_all add: log_level_defs LOGGER_SOURCE_MAX_def NUL_def)
  have wf: "packet_wf ?p" by (rule build_packet_wf) (simp_all add: LOGGER_SOURCE_MAX_def)
  have acc: "accepted (packet_bytes ?p) = Some ?p"
    using build_packet_valid [OF bounds, of 7] parse_packet_bytes [OF wf, of "[]"]
    by (simp add: accepted_def length_packet_bytes [OF wf])
  have junk: "accepted ''junk'' = None" by (simp add: accepted_def PACKET_SIZE_def)
  from quiet_daemon_loses_nothing [OF machine_ready arr] obtain s' q where
    run: "run_state logger_main ?s = (EXIT_SUCCESS, s')" and lt: "log_text s' = log_text ?s @ q"
    and q: "entries (accepted_from (map Datagram [''junk'', packet_bytes ?p])) q" by blast
  from q acc junk obtain ts where "length ts < 32" "q = entry_text ts ?p" by auto
  moreover have "int_str 7 = ''7''" by code_simp
  moreover have "log_level_name LOG_WARN = ''WARN''" by (simp add: log_level_name_def log_level_defs)
  moreover have "log_text ?s = []" by (simp add: log_text_def entry_def machine_def)
  ultimately show ?thesis
    using run lt build_packet_entry [OF bounds(1,2,5,6), of ts 7] by auto
qed

text \<open>C35: the entry of an accepted datagram always fits the buffer of \<open>write_log_entry\<close>, so no
  accepted message is ever refused or cut for its length; and the time stamp of a four-digit year is
  always 19 characters, within its buffer of 32.\<close>

theorem entries_fit_their_buffers:
  assumes "accepted d = Some p" and "length ts < 32"
    and "0 \<le> tm_year t + 1900" "tm_year t + 1900 < 10000" "0 \<le> tm_mon t" "tm_mon t < 12"
    and "0 \<le> tm_mday t" "tm_mday t < 32" "0 \<le> tm_hour t" "tm_hour t < 24"
    and "0 \<le> tm_min t" "tm_min t < 60" "0 \<le> tm_sec t" "tm_sec t \<le> 60"
  shows "length (entry_text ts p) < ENTRY_SIZE \<and> length (timestamp_text t) = 19"
proof
  from assms(1) have "validate_packet p = 0" and "packet_wf p"
    by (auto simp: accepted_def parse_packet_wf split: if_splits)
  then show "length (entry_text ts p) < ENTRY_SIZE" using assms(2) by (rule log_entry_fits)
  have pad: "length (pad_int w i) = w" if "0 \<le> i" "i < 10 ^ w" "0 < w" for i and w :: nat
  proof -
    have "nat i < 10 ^ w" using that by (simp add: nat_less_iff)
    then have "length (nat_str (nat i)) \<le> w" using that(3) by (rule length_nat_str)
    then show ?thesis using that(1) by (simp add: pad_int_def Let_def)
  qed
  show "length (timestamp_text t) = 19"
    using assms(3-) by (simp add: timestamp_text_def pad)
qed

theorem entries_fit_their_buffers_witness:
  "length (entry_text ''2026-01-02 03:04:05'' (build_packet LOG_WARN ''SERVER'' ''low disk'' 7)) < ENTRY_SIZE"
proof -
  let ?p = "build_packet LOG_WARN ''SERVER'' ''low disk'' 7"
  have wf: "packet_wf ?p" by (rule build_packet_wf) (simp_all add: LOGGER_SOURCE_MAX_def)
  have "validate_packet ?p = 0"
    by (subst build_packet_valid) (simp_all add: log_level_defs LOGGER_SOURCE_MAX_def NUL_def)
  then have "accepted (packet_bytes ?p) = Some ?p"
    using parse_packet_bytes [OF wf, of "[]"] by (simp add: accepted_def length_packet_bytes [OF wf])
  then show ?thesis
    using entries_fit_their_buffers [of _ ?p "''2026-01-02 03:04:05''"
        "\<lparr>tm_year = 126, tm_mon = 0, tm_mday = 2, tm_hour = 3, tm_min = 4, tm_sec = 5\<rparr>"] by simp
qed

end
