(* ===== verification/Chat_State.thy ===== *)
theory Chat_State
  imports Paths Framing
begin

section \<open>The state of the chat client\<close>

text \<open>
  The record \<open>chat\<close> adds to the operating system the static variables of
  \<open>src/client/main.c\<close> and \<open>src/client/upload_client.c\<close>, the local variables of the receiver
  thread that survive an iteration, and what the user has been shown.

  The client has two threads. The main thread is a program over this state; wherever it takes a
  mutex, reads an atomic flag or blocks, the scheduler may let the receiver thread run some
  iterations first (\<open>sched\<close> says how many at each such point). An iteration of the receiver
  is one step; between two of the points nothing the two threads do affects the other. A
  critical section is a step too, so the mutexes themselves are not part of the state.
  \<open>stuck\<close> is set when a thread waits for an event that can no longer happen.
\<close>

datatype upload_state_t = UPLOAD_IDLE | UPLOAD_WAIT_READY | UPLOAD_WAIT_RESULT

record chat = os +
  client_socket :: int
  client_running :: bool
  upload_state :: upload_state_t
  response_available :: bool
  connection_closed :: bool
  response_type :: u32
  response_payload :: string
  receiver_alive :: bool
  file_list_active :: bool
  file_list_count :: nat
  console :: "string list"
  sched :: "nat list"
  stuck :: bool

type_synonym 'a chatter = "(chat, 'a) state"

text \<open>One more piece of output; and the result of \<open>pthread_mutex_lock\<close>.\<close>

definition display :: "string \<Rightarrow> unit chatter" where
  "display line = modify (\<lambda>s. s\<lparr>console := console s @ [line]\<rparr>)"

text \<open>The contents of a result buffer; empty if nothing was written to it.\<close>

definition text_of :: "string option \<Rightarrow> string" where
  "text_of r = (case r of None \<Rightarrow> [] | Some msg \<Rightarrow> msg)"

definition mutex_lock :: "int chatter" where
  "mutex_lock = do { ok \<leftarrow> mtx_ok; ret (if ok then 0 else 1) }"

subsection \<open>Interleaving\<close>

text \<open>\<open>other\<close> is an iteration of the receiver thread; it runs only while that thread is alive.\<close>

definition turn :: "unit chatter \<Rightarrow> unit chatter" where
  "turn other = do { alive \<leftarrow> gets receiver_alive; if alive then other else ret () }"

primrec turns :: "unit chatter \<Rightarrow> nat \<Rightarrow> unit chatter" where
  "turns other 0 = ret ()"
| "turns other (Suc n) = do { turn other; turns other n }"

definition interleave :: "unit chatter \<Rightarrow> unit chatter" where
  "interleave other = do {
     l \<leftarrow> gets sched;
     modify (\<lambda>s. s\<lparr>sched := tl l\<rparr>);
     if l = [] then ret () else turns other (hd l)
   }"

text \<open>\<open>pthread_cond_wait\<close> in a loop: the receiver runs until \<open>test\<close> holds. The receiver ends
  after finitely many iterations; when it has ended without making the test true, the waiting
  thread is stuck. The result is false when the wait itself fails.\<close>

primrec wait_until :: "unit chatter \<Rightarrow> (chat \<Rightarrow> bool) \<Rightarrow> nat \<Rightarrow> bool chatter" where
  "wait_until other test 0 = do { modify (\<lambda>s. s\<lparr>stuck := True\<rparr>); ret False }"
| "wait_until other test (Suc n) = do {
     t \<leftarrow> gets test;
     if t then ret True
     else do {
       alive \<leftarrow> gets receiver_alive;
       if \<not> alive then do { modify (\<lambda>s. s\<lparr>stuck := True\<rparr>); ret False }
       else do {
         ok \<leftarrow> mtx_ok;
         if \<not> ok then ret False else do { other; wait_until other test n }
       }
     }
   }"

text \<open>Enough iterations for the receiver to end: each one ends it or reads a header.\<close>

definition patience :: "chat \<Rightarrow> nat" where
  "patience s = length (inbox (socks s (client_socket s))) + 2"

end
