(* ===== verification/Upload_Client.thy ===== *)
theory Upload_Client
  imports Chat_State
begin

section \<open>The client side of an upload\<close>

text \<open>
  \<open>include/client/upload_client.h\<close> and \<open>src/client/upload_client.c\<close>. The main thread runs
  \<open>upload_client_upload\<close> and waits for the two answers of the server, which the receiver
  thread hands over with \<open>upload_client_handle_server_message\<close>. \<open>other\<close> is an iteration of
  the receiver thread. The second component of the upload's result is the text in \<open>result\<close>,
  \<open>None\<close> when it was not written.
\<close>

subsection \<open>Frames\<close>

definition send_text_frame :: "int \<Rightarrow> u32 \<Rightarrow> string \<Rightarrow> ('z, int) sys" where
  "send_text_frame fd t payload =
     (if length payload > MESSAGE_MAX_SIZE then ret (- 1)
      else do {
        r \<leftarrow> send_all fd (header_bytes \<lparr>type_field = t, length_field = of_nat (length payload)\<rparr>);
        if r \<noteq> 0 then ret (- 1)
        else if length payload = 0 then ret 0
        else send_all fd payload
      })"

definition upload_copy_result :: "nat \<Rightarrow> string \<Rightarrow> string" where
  "upload_copy_result destination_size msg = snd (snprintf destination_size msg)"

subsection \<open>The receiver thread's side\<close>

definition upload_client_handle_server_message :: "u32 \<Rightarrow> string \<Rightarrow> int chatter" where
  "upload_client_handle_server_message t payload = do {
     l \<leftarrow> mutex_lock;
     if l \<noteq> 0 then ret 0
     else do {
       st \<leftarrow> gets upload_state;
       if st = UPLOAD_IDLE then ret 0
       else (let is_upload_message =
               (if t = MSG_ERROR then True
                else if t = MSG_RESPONSE then strncmp_eq payload ''UPLOAD_'' 7
                else False)
             in if \<not> is_upload_message then ret 0
                else do {
                  modify (\<lambda>s. s\<lparr>response_type := t,
                    response_payload := snd (snprintf (MESSAGE_MAX_SIZE + 1) payload),
                    response_available := True\<rparr>);
                  ret 1
                })
     }
   }"

definition upload_client_notify_connection_closed :: "unit chatter" where
  "upload_client_notify_connection_closed = do {
     l \<leftarrow> mutex_lock;
     if l \<noteq> 0 then ret () else modify (\<lambda>s. s\<lparr>connection_closed := True\<rparr>)
   }"

subsection \<open>The main thread's side\<close>

text \<open>The type and the text of the answer, \<open>None\<close> for the result -1.\<close>

definition wait_for_response :: "unit chatter \<Rightarrow> nat \<Rightarrow> (u32 \<times> string) option chatter" where
  "wait_for_response other payload_size = do {
     interleave other;
     l \<leftarrow> mutex_lock;
     if l \<noteq> 0 then ret None
     else do {
       n \<leftarrow> gets patience;
       ok \<leftarrow> wait_until other (\<lambda>s. response_available s \<or> connection_closed s) n;
       if \<not> ok then ret None
       else do {
         closed \<leftarrow> gets connection_closed;
         if closed then ret None
         else do {
           t \<leftarrow> gets response_type;
           p \<leftarrow> gets response_payload;
           modify (\<lambda>s. s\<lparr>response_available := False\<rparr>);
           ret (Some (t, upload_copy_result payload_size p))
         }
       }
     }
   }"

text \<open>A locked assignment whose lock result the code ignores.\<close>

definition set_upload_state :: "unit chatter \<Rightarrow> (chat \<Rightarrow> chat) \<Rightarrow> unit chatter" where
  "set_upload_state other f = do { interleave other; _ \<leftarrow> mutex_lock; modify f }"

text \<open>The transfer loop: 0, or -1 with the text of the error. The receiver may run after every
  chunk.\<close>

lemma sys_read_script_len:
  assumes "run_state (sys_read fd n) s = ((r, bs), s')"
  shows "r < 0 \<Longrightarrow> errno s' = EINTR \<Longrightarrow> length (fs_script s') < length (fs_script s)"
    and "0 \<le> r \<Longrightarrow> r \<le> int n"
  using assms
  by (auto simp: sys_read_def fs_fault_def fail_def set_errno_def Let_def recv_amount_def
      split: list.splits fault.splits option.splits fdobj.splits)

function upload_send_loop :: "unit chatter \<Rightarrow> int \<Rightarrow> int \<Rightarrow> nat \<Rightarrow> chat \<Rightarrow> (int \<times> string) \<times> chat" where
  "upload_send_loop other fd file_fd remaining s =
     (if remaining > 0
      then (case run_state (sys_read file_fd
              (if remaining > FILE_CHUNK_SIZE then FILE_CHUNK_SIZE else remaining)) s of
          ((bytes_read, buffer), s1) \<Rightarrow>
            if bytes_read < 0
            then (if errno s1 = EINTR then upload_send_loop other fd file_fd remaining s1
                  else ((- 1, ''LOCAL_FILE_READ_FAILED''), s1))
            else if bytes_read = 0 then ((- 1, ''LOCAL_FILE_CHANGED_DURING_UPLOAD''), s1)
            else (case run_state (send_all fd buffer) s1 of (r, s2) \<Rightarrow>
                    if r \<noteq> 0 then ((- 1, ''UPLOAD_SEND_FAILED''), s2)
                    else upload_send_loop other fd file_fd (remaining - nat bytes_read)
                           (exec (interleave other) s2)))
      else ((0, []), s))"
  by pat_completeness auto
termination
proof (relation "inv_image (less_than <*lex*> less_than)
    (\<lambda>(other, fd, file_fd, remaining, s). (remaining, length (fs_script s)))", goal_cases)
  case 1
  show ?case by auto
next
  case (2 other fd file_fd remaining s x s1 bytes_read buffer)
  then show ?case
    using sys_read_script_len(1) [of file_fd _ s bytes_read buffer s1] by (auto split: if_splits)
next
  case (3 other fd file_fd remaining s x s1 bytes_read buffer r s2)
  then show ?case by auto
qed

declare upload_send_loop.simps [simp del]

text \<open>The file is read and sent, then the final answer is awaited.\<close>

definition upload_transfer_file :: "unit chatter \<Rightarrow> int \<Rightarrow> int \<Rightarrow> nat \<Rightarrow> nat \<Rightarrow> (int \<times> string option) chatter" where
  "upload_transfer_file other fd file_fd file_size result_size = do {
     set_upload_state other (\<lambda>s. s\<lparr>upload_state := UPLOAD_WAIT_RESULT, response_available := False\<rparr>);
     (r, msg) \<leftarrow> State (upload_send_loop other fd file_fd file_size);
     if r \<noteq> 0
     then do {
       _ \<leftarrow> sys_close file_fd;
       sys_shutdown fd;
       ret (- 1, Some (upload_copy_result result_size msg))
     }
     else do {
       _ \<leftarrow> sys_close file_fd;
       answer \<leftarrow> wait_for_response other (MESSAGE_MAX_SIZE + 1);
       (case answer of
          None \<Rightarrow> ret (- 1, None)
        | Some (t, response) \<Rightarrow> do {
            set_upload_state other (\<lambda>s. s\<lparr>upload_state := UPLOAD_IDLE\<rparr>);
            ret (if t = MSG_RESPONSE \<and> strncmp_eq response ''UPLOAD_SUCCESS'' 14 then 0 else 1,
                 Some (upload_copy_result result_size response))
          })
     }
   }"

text \<open>The request: from the claim of the upload state to the server's first answer.\<close>

definition upload_request :: "unit chatter \<Rightarrow> int \<Rightarrow> int \<Rightarrow> string \<Rightarrow> nat \<Rightarrow> nat \<Rightarrow> (int \<times> string option) chatter" where
  "upload_request other fd file_fd metadata file_size result_size = do {
     interleave other;
     l \<leftarrow> mutex_lock;
     if l \<noteq> 0 then do { _ \<leftarrow> sys_close file_fd; ret (- 1, None) }
     else do {
       st \<leftarrow> gets upload_state;
       if st \<noteq> UPLOAD_IDLE
       then do {
         _ \<leftarrow> sys_close file_fd;
         ret (1, Some (upload_copy_result result_size ''UPLOAD_ALREADY_ACTIVE''))
       }
       else do {
         modify (\<lambda>s. s\<lparr>upload_state := UPLOAD_WAIT_READY, response_available := False,
           connection_closed := False\<rparr>);
         r \<leftarrow> send_text_frame fd MSG_UPLOAD metadata;
         if r \<noteq> 0
         then do { _ \<leftarrow> sys_close file_fd; sys_shutdown fd; ret (- 1, None) }
         else do {
           answer \<leftarrow> wait_for_response other (MESSAGE_MAX_SIZE + 1);
           (case answer of
              None \<Rightarrow> do { _ \<leftarrow> sys_close file_fd; ret (- 1, None) }
            | Some (t, response) \<Rightarrow>
                if t \<noteq> MSG_RESPONSE \<or> response \<noteq> ''UPLOAD_READY''
                then do {
                  set_upload_state other (\<lambda>s. s\<lparr>upload_state := UPLOAD_IDLE\<rparr>);
                  _ \<leftarrow> sys_close file_fd;
                  ret (1, Some (upload_copy_result result_size response))
                }
                else upload_transfer_file other fd file_fd file_size result_size)
         }
       }
     }
   }"

text \<open>The directory and the last component of a path; the latter is the shared name.\<close>

definition path_dir :: "string \<Rightarrow> string" where
  "path_dir p = (case strrchr p (CHR ''/'') of None \<Rightarrow> ''.'' | Some i \<Rightarrow> take i p)"

definition basename :: "string \<Rightarrow> string" where
  "basename p = (case strrchr p (CHR ''/'') of None \<Rightarrow> p | Some i \<Rightarrow> drop (Suc i) p)"

text \<open>After the file has been opened: its size and its name are checked and the request is made.\<close>

definition upload_opened :: "unit chatter \<Rightarrow> int \<Rightarrow> int \<Rightarrow> string \<Rightarrow> nat \<Rightarrow> (int \<times> string option) chatter" where
  "upload_opened other fd file_fd local_path result_size = do {
     information \<leftarrow> sys_fstat file_fd;
     let refuse = (\<lambda>msg. do {
       _ \<leftarrow> sys_close file_fd;
       ret (1, Some (upload_copy_result result_size msg)) });
     (case information of
        None \<Rightarrow> refuse ''LOCAL_FILE_STAT_FAILED''
      | Some st \<Rightarrow>
          if fst st \<noteq> IReg then refuse ''NOT_A_REGULAR_FILE''
          else if snd st < 0 then refuse ''INVALID_FILE_SIZE''
          else if nat (snd st) > FILE_MAX_SIZE then refuse ''FILE_TOO_LARGE''
          else if \<not> is_valid_shared_filename (basename local_path) then refuse ''INVALID_SHARED_FILENAME''
          else (let (written, metadata) = snprintf (MESSAGE_MAX_SIZE + 1)
                  (basename local_path @ ''|'' @ nat_str (nat (snd st)))
                in if written < 0 \<or> written \<ge> int (MESSAGE_MAX_SIZE + 1)
                   then refuse ''UPLOAD_METADATA_FAILED''
                   else upload_request other fd file_fd metadata (nat (snd st)) result_size))
   }"

definition upload_client_upload :: "unit chatter \<Rightarrow> int \<Rightarrow> string \<Rightarrow> nat \<Rightarrow> (int \<times> string option) chatter" where
  "upload_client_upload other fd local_path result_size =
     (if result_size = 0 then ret (1, None)
      else do {
        file_fd \<leftarrow> sys_open_read (path_dir local_path) (basename local_path);
        if file_fd < 0 then ret (1, Some (upload_copy_result result_size ''LOCAL_FILE_OPEN_FAILED''))
        else upload_opened other fd file_fd local_path result_size
      })"

end
