(* ===== verification/Download_Client.thy ===== *)
theory Download_Client
  imports Paths Framing
begin

section \<open>The client side of a download\<close>

text \<open>
  \<open>include/client/download_client.h\<close> and \<open>src/client/download_client.c\<close>. The receiver
  thread hands every message of the server to \<open>download_client_handle_server_message\<close>; a
  \<open>DOWNLOAD_READY\<close> response makes it read the announced bytes from the same stream, whether
  or not they can be stored. The second component of its result is the text left in
  \<open>result\<close>, \<open>None\<close> when the buffer is not written.
\<close>

subsection \<open>Helpers\<close>

definition PATH_MAX :: nat where "PATH_MAX = 4096"

definition copy_result :: "nat \<Rightarrow> string \<Rightarrow> string" where
  "copy_result destination_size msg = snd (snprintf destination_size msg)"

lemma sys_write_script_len:
  assumes "run_state (sys_write fd bs) s = (r, s')"
  shows "length (fs_script s') \<le> length (fs_script s)"
    and "r < 0 \<Longrightarrow> errno s' = EINTR \<Longrightarrow> length (fs_script s') < length (fs_script s)"
  using assms
  by (auto simp: sys_write_def fs_fault_def fail_def set_errno_def Let_def
      split: list.splits fault.splits option.splits fdobj.splits)

function client_write_loop :: "int \<Rightarrow> byte list \<Rightarrow> nat \<Rightarrow> 'z os_scheme \<Rightarrow> int \<times> 'z os_scheme" where
  "client_write_loop file_fd buffer total_written s =
     (if total_written < length buffer
      then (case run_state (sys_write file_fd (drop total_written buffer)) s of (written, s') \<Rightarrow>
              if written < 0
              then (if errno s' = EINTR then client_write_loop file_fd buffer total_written s' else (- 1, s'))
              else if written = 0 then (- 1, s')
              else client_write_loop file_fd buffer (total_written + nat written) s')
      else (0, s))"
  by pat_completeness auto
termination
proof (relation "measure (\<lambda>(fd, buffer, n, s). (length buffer - n) + length (fs_script s))", goal_cases)
  case 1
  show ?case by simp
next
  case (2 fd buffer n s written s')
  then show ?case using sys_write_script_len(2) [of fd "drop n buffer" s written s'] by simp
next
  case (3 fd buffer n s written s')
  then show ?case using sys_write_script_len(1) [of fd "drop n buffer" s written s'] by simp
qed

declare client_write_loop.simps [simp del]

definition client_write_all_file :: "int \<Rightarrow> byte list \<Rightarrow> ('z, int) sys" where
  "client_write_all_file file_fd buffer = State (client_write_loop file_fd buffer 0)"

definition ensure_download_directory :: "('z, int) sys" where
  "ensure_download_directory = do {
     information \<leftarrow> sys_stat_dir FILE_DOWNLOAD_DIRECTORY;
     (case information of
        Some st \<Rightarrow> ret (if fst st = IDir then 0 else - 1)
      | None \<Rightarrow> do {
          e \<leftarrow> gets errno;
          if e \<noteq> ENOENT then ret (- 1)
          else do {
            m \<leftarrow> sys_mkdir FILE_DOWNLOAD_DIRECTORY;
            e \<leftarrow> gets errno;
            if m \<noteq> 0 \<and> e \<noteq> EEXIST then ret (- 1) else ret 0
          }
        })
   }"

text \<open>The results 0, -1 and 1 of \<open>parse_download_ready\<close>, the last with the name and the size.\<close>

datatype ready_parse = NotReady | BadReady | Ready string nat

definition DOWNLOAD_READY_prefix :: string where "DOWNLOAD_READY_prefix = ''DOWNLOAD_READY ''"

definition parse_download_ready :: "string \<Rightarrow> nat \<Rightarrow> ready_parse" where
  "parse_download_ready payload filename_size =
     (if \<not> strncmp_eq payload DOWNLOAD_READY_prefix (length DOWNLOAD_READY_prefix) then NotReady
      else let metadata = drop (length DOWNLOAD_READY_prefix) payload
           in case strchr metadata (CHR ''|'') of
             None \<Rightarrow> BadReady
           | Some separator \<Rightarrow>
               if strchr (drop (Suc separator) metadata) (CHR ''|'') \<noteq> None then BadReady
               else if separator = 0 \<or> separator \<ge> filename_size then BadReady
               else if \<not> is_valid_shared_filename (take separator metadata) then BadReady
               else (let size_text = drop (Suc separator) metadata
                     in if size_text = [] then BadReady
                        else case strtoull size_text of (parsed, end_pointer, range_error) \<Rightarrow>
                          if range_error \<or> end_pointer = 0 \<or> end_pointer \<noteq> length size_text \<or>
                             parsed > FILE_MAX_SIZE
                          then BadReady
                          else Ready (take separator metadata) parsed))"

subsection \<open>Stages of the handler\<close>

definition temporary_name :: "int \<Rightarrow> string" where
  "temporary_name p = ''.download-'' @ int_str p @ ''.tmp''"

definition path_of :: "string \<Rightarrow> string" where
  "path_of name = FILE_DOWNLOAD_DIRECTORY @ ''/'' @ name"

text \<open>Everything before the first byte is received: \<open>local_write_failed\<close> and \<open>file_fd\<close>.\<close>

definition download_prepare :: "string \<Rightarrow> ('z, bool \<times> int) sys" where
  "download_prepare filename = do {
     d \<leftarrow> ensure_download_directory;
     p \<leftarrow> gets pid;
     let failed = (d \<noteq> 0 \<or> fst (snprintf PATH_MAX (path_of filename)) \<ge> int PATH_MAX \<or>
       fst (snprintf PATH_MAX (path_of (temporary_name p))) \<ge> int PATH_MAX);
     failed \<leftarrow> (if \<not> failed then do { a \<leftarrow> sys_access FILE_DOWNLOAD_DIRECTORY filename; ret (a = 0) }
                 else ret True);
     if \<not> failed
     then do {
       _ \<leftarrow> sys_unlink FILE_DOWNLOAD_DIRECTORY (temporary_name p);
       file_fd \<leftarrow> sys_create FILE_DOWNLOAD_DIRECTORY (temporary_name p) 384;
       ret (file_fd < 0, file_fd)
     }
     else ret (True, - 1)
   }"

text \<open>The receive loop: whether all promised bytes arrived, and \<open>local_write_failed\<close>.\<close>

function download_loop :: "int \<Rightarrow> int \<Rightarrow> nat \<Rightarrow> bool \<Rightarrow> ('z, bool \<times> bool) sys" where
  "download_loop socket_fd file_fd remaining local_write_failed =
     (if remaining > 0
      then (let chunk_size = (if remaining > FILE_CHUNK_SIZE then FILE_CHUNK_SIZE else remaining)
            in do {
              (receive_result, buffer) \<leftarrow> recv_all socket_fd chunk_size;
              if receive_result \<noteq> 0 then ret (False, local_write_failed)
              else do {
                failed \<leftarrow>
                  (if \<not> local_write_failed
                   then do { w \<leftarrow> client_write_all_file file_fd buffer; ret (w \<noteq> 0) }
                   else ret True);
                download_loop socket_fd file_fd (remaining - chunk_size) failed
              }
            })
      else ret (True, local_write_failed))"
  by pat_completeness auto
termination
  by (relation "measure (\<lambda>(socket_fd, file_fd, remaining, failed). remaining)")
    (auto simp: FILE_CHUNK_SIZE_def)

declare download_loop.simps [simp del]

definition download_finish_file :: "int \<Rightarrow> bool \<Rightarrow> ('z, bool) sys" where
  "download_finish_file file_fd failed =
     (if file_fd \<ge> 0
      then do {
        failed \<leftarrow> (if \<not> failed then do { r \<leftarrow> sys_fsync file_fd; ret (r \<noteq> 0) } else ret True);
        failed \<leftarrow> (if \<not> failed then do { r \<leftarrow> sys_fchmod file_fd 420; ret (r \<noteq> 0) } else ret True);
        c \<leftarrow> sys_close file_fd;
        ret (failed \<or> c \<noteq> 0)
      }
      else ret failed)"

definition download_publish :: "string \<Rightarrow> nat \<Rightarrow> bool \<Rightarrow> nat \<Rightarrow> ('z, int \<times> string option) sys" where
  "download_publish filename file_size failed result_size = do {
     p \<leftarrow> gets pid;
     if failed
     then do {
       _ \<leftarrow> sys_unlink FILE_DOWNLOAD_DIRECTORY (temporary_name p);
       ret (2, Some (copy_result result_size ''LOCAL_DOWNLOAD_WRITE_FAILED_OR_FILE_EXISTS''))
     }
     else do {
       l \<leftarrow> sys_link FILE_DOWNLOAD_DIRECTORY (temporary_name p) filename;
       if l \<noteq> 0
       then do {
         _ \<leftarrow> sys_unlink FILE_DOWNLOAD_DIRECTORY (temporary_name p);
         ret (2, Some (copy_result result_size ''LOCAL_DOWNLOAD_FINALIZE_FAILED''))
       }
       else do {
         _ \<leftarrow> sys_unlink FILE_DOWNLOAD_DIRECTORY (temporary_name p);
         (let (written, text) = snprintf result_size
            (''DOWNLOAD_SUCCESS '' @ filename @ '' '' @ nat_str file_size)
          in if written < 0 \<or> nat written \<ge> result_size then ret (2, Some text) else ret (1, Some text))
       }
     }
   }"

definition download_receive :: "int \<Rightarrow> string \<Rightarrow> nat \<Rightarrow> nat \<Rightarrow> ('z, int \<times> string option) sys" where
  "download_receive fd filename file_size result_size = do {
     (failed, file_fd) \<leftarrow> download_prepare filename;
     (complete_stream, failed) \<leftarrow> download_loop fd file_fd file_size failed;
     if \<not> complete_stream
     then do {
       (if file_fd \<ge> 0 then do { _ \<leftarrow> sys_close file_fd; ret () } else ret ());
       p \<leftarrow> gets pid;
       _ \<leftarrow> sys_unlink FILE_DOWNLOAD_DIRECTORY (temporary_name p);
       ret (- 1, Some (copy_result result_size ''DOWNLOAD_CONNECTION_FAILED''))
     }
     else do {
       failed \<leftarrow> download_finish_file file_fd failed;
       download_publish filename file_size failed result_size
     }
   }"

definition download_client_handle_server_message ::
    "int \<Rightarrow> u32 \<Rightarrow> string \<Rightarrow> nat \<Rightarrow> ('z, int \<times> string option) sys" where
  "download_client_handle_server_message fd t payload result_size =
     (if result_size = 0 then ret (- 1, None)
      else if t \<noteq> MSG_RESPONSE then ret (0, None)
      else case parse_download_ready payload FILE_NAME_MAX_SIZE of
          NotReady \<Rightarrow> ret (0, None)
        | BadReady \<Rightarrow> ret (- 1, Some (copy_result result_size ''INVALID_DOWNLOAD_METADATA''))
        | Ready filename file_size \<Rightarrow> download_receive fd filename file_size result_size)"

end
