(* ===== verification/Chat_Client.thy ===== *)
theory Chat_Client
  imports Upload_Client Download_Client
begin

section \<open>The chat client\<close>

text \<open>
  \<open>src/client/main.c\<close>: the connection, the login, the commands of the main thread and the
  receiver thread. Standard input is the list of bytes still to be read; the main thread alone
  reads it, so it is an argument of the loops. The console is the list of the texts printed,
  one element for each call or locked group of calls; messages for the developer on standard
  error are not modelled.
\<close>

subsection \<open>Console and standard input\<close>

text \<open>\<open>safe_printf\<close> prints nothing when the lock fails.\<close>

definition safe_printf :: "string \<Rightarrow> string \<Rightarrow> unit chatter" where
  "safe_printf lead msg = do {
     l \<leftarrow> mutex_lock;
     if l \<noteq> 0 then ret () else display (lead @ msg)
   }"

definition NL :: byte where "NL = CHR 0x0A"

text \<open>\<open>fgets (buffer, n, stdin)\<close>: at most \<open>n - 1\<close> bytes up to and including a newline.\<close>

definition fgets :: "nat \<Rightarrow> byte list \<Rightarrow> (byte list \<times> byte list) option" where
  "fgets n inp =
     (if inp = [] then None
      else let line = takeWhile (\<lambda>c. c \<noteq> NL) inp;
               k = min (n - 1) (if length line < length inp then Suc (length line) else length line)
           in Some (take k inp, drop k inp))"

text \<open>The buffer after \<open>buffer[strcspn (buffer, "\n")] = '\0'\<close>, read as a C string.\<close>

definition chomp :: "byte list \<Rightarrow> string" where
  "chomp bs = takeWhile (\<lambda>c. c \<noteq> NL) (cstr bs)"

lemma fgets_shorter:
  assumes "fgets n inp = Some (l, rest)" and "2 \<le> n"
  shows "length rest < length inp"
proof -
  have "length (takeWhile (\<lambda>c. c \<noteq> NL) inp) \<le> length inp" by (rule length_takeWhile_le)
  moreover have "0 < length inp" using assms(1) by (auto simp: fgets_def)
  ultimately show ?thesis
    using assms by (auto simp: fgets_def Let_def min_def split: if_splits)
qed

subsection \<open>Frames\<close>

text \<open>Both work on the static \<open>client_socket\<close>; \<open>client_send_on\<close> and \<open>client_receive_on\<close> are
  their bodies for a given descriptor.\<close>

definition client_send_on :: "int \<Rightarrow> u32 \<Rightarrow> string \<Rightarrow> ('z, int) sys" where
  "client_send_on fd t payload =
     (if \<not> is_valid_message_type t then ret (- 1)
      else if length payload > MESSAGE_MAX_SIZE then ret (- 1)
      else do {
        r \<leftarrow> send_all fd (header_bytes \<lparr>type_field = t, length_field = of_nat (length payload)\<rparr>);
        if r \<noteq> 0 then ret (- 1)
        else if length payload = 0 then ret 0
        else do {
          r \<leftarrow> send_all fd payload;
          if r \<noteq> 0 then ret (- 1) else ret 0
        }
      })"

definition client_send_message :: "u32 \<Rightarrow> string \<Rightarrow> int chatter" where
  "client_send_message t payload = do { fd \<leftarrow> gets client_socket; client_send_on fd t payload }"

text \<open>The result, the type and the received bytes.\<close>

definition client_receive_on :: "int \<Rightarrow> nat \<Rightarrow> ('z, int \<times> u32 \<times> byte list) sys" where
  "client_receive_on fd payload_size =
     (if payload_size = 0 then ret (- 1, 0, [])
      else do {
        (result, header) \<leftarrow> recv_all fd HEADER_SIZE;
        if result \<noteq> 0 then ret (result, 0, [])
        else (let t = type_field (parse_header header); len = length_field (parse_header header)
              in if \<not> is_valid_message_type t then ret (- 1, 0, [])
                 else if unat len > MESSAGE_MAX_SIZE then ret (- 1, 0, [])
                 else if unat len \<ge> payload_size then ret (- 1, 0, [])
                 else if unat len > 0
                 then do {
                   (result, payload) \<leftarrow> recv_all fd (unat len);
                   if result \<noteq> 0 then ret (result, 0, []) else ret (0, t, payload)
                 }
                 else ret (0, t, []))
      })"

definition client_receive_message :: "nat \<Rightarrow> (int \<times> u32 \<times> byte list) chatter" where
  "client_receive_message payload_size = do { fd \<leftarrow> gets client_socket; client_receive_on fd payload_size }"

subsection \<open>Connection\<close>

definition connect_to_server :: "int chatter" where
  "connect_to_server = do {
     fd \<leftarrow> sys_socket;
     modify (\<lambda>s. s\<lparr>client_socket := fd\<rparr>);
     if fd < 0 then ret (- 1)
     else do {
       c \<leftarrow> socket_call fd;
       if c < 0
       then do { _ \<leftarrow> sys_close fd; modify (\<lambda>s. s\<lparr>client_socket := - 1\<rparr>); ret (- 1) }
       else ret 0
     }
   }"

definition cleanup_socket :: "unit chatter" where
  "cleanup_socket = do {
     fd \<leftarrow> gets client_socket;
     if fd \<ge> 0 then do { _ \<leftarrow> sys_close fd; modify (\<lambda>s. s\<lparr>client_socket := - 1\<rparr>) } else ret ()
   }"

definition stop_running :: "unit chatter" where
  "stop_running = modify (\<lambda>s. s\<lparr>client_running := False\<rparr>)"

subsection \<open>The receiver thread\<close>

definition receiver_ends :: "unit chatter" where
  "receiver_ends = modify (\<lambda>s. s\<lparr>receiver_alive := False\<rparr>)"

text \<open>What the switch prints for a message, and what it does besides.\<close>

definition show_file_entry :: "string \<Rightarrow> string" where
  "show_file_entry payload =
     (case strrchr payload (CHR ''|'') of
        None \<Rightarrow> ''  '' @ payload @ [NL]
      | Some separator \<Rightarrow>
          if separator \<noteq> 0 \<and> Suc separator \<noteq> length payload
          then ''  '' @ take separator payload @ '' ('' @ drop (Suc separator) payload @ '' bytes)'' @ [NL]
          else ''  '' @ payload @ [NL])"

definition show_response :: "string \<Rightarrow> unit chatter" where
  "show_response payload =
     (if payload = ''FILE_LIST_BEGIN''
      then do {
        modify (\<lambda>s. s\<lparr>file_list_active := True, file_list_count := 0\<rparr>);
        display ([NL] @ ''[Shared Files]'' @ [NL])
      }
      else if strncmp_eq payload ''FILE_LIST_END '' 14
      then do {
        none \<leftarrow> gets (\<lambda>s. file_list_active s \<and> file_list_count s = 0);
        display ([NL] @ (if none then ''  (none)'' @ [NL] else []));
        modify (\<lambda>s. s\<lparr>file_list_active := False\<rparr>)
      }
      else do {
        display ([NL] @ ''[Server] '' @ payload @ [NL]);
        if payload = ''GOODBYE'' then stop_running else ret ()
      })"

definition show_message :: "u32 \<Rightarrow> string \<Rightarrow> unit chatter" where
  "show_message t payload =
     (if t = MSG_BROADCAST then display ([NL] @ payload @ [NL])
      else if t = MSG_PRIVATE then display ([NL] @ ''[Private] '' @ payload @ [NL])
      else if t = MSG_RESPONSE then show_response payload
      else if t = MSG_ERROR then display ([NL] @ ''[Error] '' @ payload @ [NL])
      else if t = MSG_USERLIST then display ([NL] @ ''[Online Users]'' @ [NL] @ payload @ [NL])
      else if t = MSG_FILELIST
      then do {
        display ([NL] @ show_file_entry payload);
        modify (\<lambda>s. if file_list_active s then s\<lparr>file_list_count := Suc (file_list_count s)\<rparr> else s)
      }
      else display ([NL] @ ''[Server message type '' @ nat_str (unat t) @ ''] '' @ payload @ [NL]))"

definition receiver_lost :: "string \<Rightarrow> unit chatter" where
  "receiver_lost notice = do {
     upload_client_notify_connection_closed;
     safe_printf [NL] notice;
     stop_running;
     receiver_ends
   }"

text \<open>A message that belongs neither to an upload nor to a download.\<close>

definition receiver_normal :: "u32 \<Rightarrow> string \<Rightarrow> unit chatter" where
  "receiver_normal t payload = do {
     l \<leftarrow> mutex_lock;
     if l \<noteq> 0 then ret ()
     else do {
       show_message t payload;
       running \<leftarrow> gets client_running;
       if \<not> running then receiver_ends else ret ()
     }
   }"

definition receiver_dispatch :: "u32 \<Rightarrow> string \<Rightarrow> unit chatter" where
  "receiver_dispatch t payload = do {
     u \<leftarrow> upload_client_handle_server_message t payload;
     if u \<noteq> 0 then ret ()
     else do {
       fd \<leftarrow> gets client_socket;
       (download_status, download_result) \<leftarrow>
         download_client_handle_server_message fd t payload (MESSAGE_MAX_SIZE + 1);
       if download_status = 0 then receiver_normal t payload
       else if download_status = 1 \<or> download_status = 2
       then do {
         l \<leftarrow> mutex_lock;
         if l \<noteq> 0 then ret ()
         else display ([NL] @ (if download_status = 1 then ''[Download] '' else ''[Download Error] '') @
           text_of download_result @ [NL])
       }
       else do {
         upload_client_notify_connection_closed;
         stop_running;
         sys_shutdown fd;
         receiver_ends
       }
     }
   }"

definition receiver_iteration :: "unit chatter" where
  "receiver_iteration = do {
     running \<leftarrow> gets client_running;
     if \<not> running then receiver_ends
     else do {
       (result, t, payload) \<leftarrow> client_receive_message (MESSAGE_MAX_SIZE + 1);
       if result = 1 then receiver_lost (''Server closed the connection.'' @ [NL])
       else if result < 0
       then do {
         upload_client_notify_connection_closed;
         running \<leftarrow> gets client_running;
         (if running then safe_printf [NL] (''Connection receive error.'' @ [NL]) else ret ());
         stop_running;
         receiver_ends
       }
       else receiver_dispatch t (cstr payload)
     }
   }"

text \<open>Scheduling points of the main thread.\<close>

definition yield_to_receiver :: "unit chatter" where
  "yield_to_receiver = interleave receiver_iteration"

definition is_running :: "bool chatter" where
  "is_running = do { yield_to_receiver; gets client_running }"

subsection \<open>Login\<close>

text \<open>The user name the prompt loop accepts, with the input left after it; \<open>None\<close> at the end of
  the input.\<close>

function username_prompt :: "byte list \<Rightarrow> (string \<times> byte list) option" where
  "username_prompt inp =
     (case fgets USERNAME_MAX_SIZE inp of
        None \<Rightarrow> None
      | Some (line, rest) \<Rightarrow>
          if \<not> is_valid_username (chomp line) then username_prompt rest else Some (chomp line, rest))"
  by pat_completeness auto
termination
  by (relation "measure length") (auto dest: fgets_shorter simp: USERNAME_MAX_SIZE_def)

declare username_prompt.simps [simp del]

definition give_up :: "'a option chatter" where
  "give_up = do { cleanup_socket; ret None }"

text \<open>The name of the session and the rest of the input; \<open>None\<close> for \<open>EXIT_FAILURE\<close>.\<close>

definition client_login :: "byte list \<Rightarrow> (string \<times> byte list) option chatter" where
  "client_login inp = do {
     (result, t, payload) \<leftarrow> client_receive_message (MESSAGE_MAX_SIZE + 1);
     if result \<noteq> 0 then give_up
     else if t \<noteq> MSG_RESPONSE \<or> cstr payload \<noteq> ''USERNAME_REQUIRED'' then give_up
     else (case username_prompt inp of
         None \<Rightarrow> give_up
       | Some (name, rest) \<Rightarrow> do {
           r \<leftarrow> client_send_message MSG_LOGIN name;
           if r \<noteq> 0 then give_up
           else do {
             (result, t, payload) \<leftarrow> client_receive_message (MESSAGE_MAX_SIZE + 1);
             if result \<noteq> 0 then give_up
             else if t = MSG_ERROR
             then do { display (''Login rejected: '' @ cstr payload @ [NL]); give_up }
             else if t \<noteq> MSG_RESPONSE \<or> \<not> strncmp_eq (cstr payload) ''LOGIN_SUCCESS'' 13 then give_up
             else do {
               display (''Login successful as '' @ [CHR 0x27] @ name @ [CHR 0x27] @ ''.'' @ [NL]);
               ret (Some (name, rest))
             }
           }
         })
   }"

subsection \<open>Commands\<close>

text \<open>Each command tells whether the input loop goes on.\<close>

definition send_or_stop :: "u32 \<Rightarrow> string \<Rightarrow> bool chatter" where
  "send_or_stop t payload = do {
     r \<leftarrow> client_send_message t payload;
     if r \<noteq> 0
     then do { stop_running; fd \<leftarrow> gets client_socket; sys_shutdown fd; ret False }
     else ret True
   }"

definition usage :: "string \<Rightarrow> bool chatter" where
  "usage msg = do { safe_printf [] (msg @ [NL]); ret True }"

definition command_upload :: "string \<Rightarrow> bool chatter" where
  "command_upload line =
     (if \<not> strncmp_eq line ''/upload '' 8 \<or> drop 8 line = [] then usage ''Usage: /upload <local-path>''
      else do {
        fd \<leftarrow> gets client_socket;
        (upload_status, upload_result) \<leftarrow>
          upload_client_upload receiver_iteration fd (drop 8 line) (MESSAGE_MAX_SIZE + 1);
        l \<leftarrow> mutex_lock;
        (if l = 0
         then display ([NL] @
           (if upload_status = 0 then ''[Upload] '' @ text_of upload_result
            else if upload_status = 1 then ''[Upload Error] '' @ text_of upload_result
            else ''[Upload Error] Connection lost during upload.'') @ [NL])
         else ret ());
        if upload_status < 0 then do { stop_running; sys_shutdown fd; ret False } else ret True
      })"

definition command_download :: "string \<Rightarrow> bool chatter" where
  "command_download line =
     (if \<not> strncmp_eq line ''/download '' 10 \<or> drop 10 line = [] then usage ''Usage: /download <filename>''
      else if \<not> is_valid_shared_filename (drop 10 line) then usage ''Invalid shared filename.''
      else send_or_stop MSG_DOWNLOAD (drop 10 line))"

definition command_msg :: "string \<Rightarrow> string \<Rightarrow> bool chatter" where
  "command_msg user line =
     (if \<not> strncmp_eq line ''/msg '' 5 then usage ''Usage: /msg <user> <message>''
      else let request = drop 5 line
           in case strchr request (CHR '' '') of
             None \<Rightarrow> usage ''Usage: /msg <user> <message>''
           | Some separator \<Rightarrow>
               if separator = 0 \<or> drop (Suc separator) request = []
               then usage ''Usage: /msg <user> <message>''
               else if separator \<ge> USERNAME_MAX_SIZE then usage ''Invalid target username.''
               else if \<not> is_valid_username (take separator request) then usage ''Invalid target username.''
               else if take separator request = user then usage ''You cannot privately message yourself.''
               else send_or_stop MSG_PRIVATE request)"

text \<open>\<open>/quit\<close> ends the input loop whatever the send returns.\<close>

definition command_quit :: "bool chatter" where
  "command_quit = do { _ \<leftarrow> send_or_stop MSG_DISCONNECT []; ret False }"

definition handle_line :: "string \<Rightarrow> string \<Rightarrow> bool chatter" where
  "handle_line user line =
     (if line = [] then ret True
      else if line = ''/users'' then send_or_stop MSG_LIST_USERS []
      else if line = ''/files'' then send_or_stop MSG_LIST_FILES []
      else if strncmp_eq line ''/upload'' 7 then command_upload line
      else if strncmp_eq line ''/download'' 9 then command_download line
      else if strncmp_eq line ''/msg'' 4 then command_msg user line
      else if line = ''/quit'' then command_quit
      else send_or_stop MSG_CHAT line)"

text \<open>The input loop. The receiver may run at every test of the flag and while \<open>fgets\<close> blocks.\<close>

definition prompt :: "string \<Rightarrow> unit chatter" where
  "prompt user = do { l \<leftarrow> mutex_lock; if l = 0 then display (user @ ''> '') else ret () }"

function input_loop :: "string \<Rightarrow> byte list \<Rightarrow> unit chatter" where
  "input_loop user inp = do {
     running \<leftarrow> is_running;
     if \<not> running then ret ()
     else do {
       prompt user;
       yield_to_receiver;
       (case fgets (MESSAGE_MAX_SIZE + 1) inp of
          None \<Rightarrow> do {
            running \<leftarrow> is_running;
            if running then do { _ \<leftarrow> client_send_message MSG_DISCONNECT []; ret () } else ret ()
          }
        | Some (line, rest) \<Rightarrow> do {
            running \<leftarrow> is_running;
            if \<not> running then ret ()
            else do {
              continue \<leftarrow> handle_line user (chomp line);
              if continue then input_loop user rest else ret ()
            }
          })
     }
   }"
  by pat_completeness auto
termination
  by (relation "measure (\<lambda>(user, inp). length inp)") (auto dest: fgets_shorter simp: MESSAGE_MAX_SIZE_def)

declare input_loop.simps [simp del]

subsection \<open>The program\<close>

definition CLIENT_EXIT_SUCCESS :: int where "CLIENT_EXIT_SUCCESS = 0"
definition CLIENT_EXIT_FAILURE :: int where "CLIENT_EXIT_FAILURE = 1"

text \<open>\<open>pthread_join\<close>: the receiver runs to its end.\<close>

definition join_receiver :: "unit chatter" where
  "join_receiver = do {
     n \<leftarrow> gets patience;
     turns receiver_iteration n;
     modify (\<lambda>s. if receiver_alive s then s\<lparr>stuck := True\<rparr> else s)
   }"

definition client_session :: "string \<Rightarrow> byte list \<Rightarrow> int chatter" where
  "client_session user inp = do {
     modify (\<lambda>s. s\<lparr>client_running := True\<rparr>);
     created \<leftarrow> mtx_ok;
     if \<not> created then do { cleanup_socket; ret CLIENT_EXIT_FAILURE }
     else do {
       modify (\<lambda>s. s\<lparr>receiver_alive := True, file_list_active := False, file_list_count := 0\<rparr>);
       input_loop user inp;
       join_receiver;
       stop_running;
       cleanup_socket;
       ret CLIENT_EXIT_SUCCESS
     }
   }"

definition client_main :: "byte list \<Rightarrow> int chatter" where
  "client_main inp = do {
     c \<leftarrow> connect_to_server;
     if c \<noteq> 0 then ret CLIENT_EXIT_FAILURE
     else do {
       login \<leftarrow> client_login inp;
       (case login of
          None \<Rightarrow> ret CLIENT_EXIT_FAILURE
        | Some (user, rest) \<Rightarrow> client_session user rest)
     }
   }"

end
