(* ===== verification/Chat_Frames.thy ===== *)
theory Chat_Frames
  imports Chat_Client Handler_Properties
begin

section \<open>Frames between client and server\<close>

text \<open>
  The senders and the receiver of the client meet the contracts of \<open>Framing\<close>, so each of them
  forms a channel with the server's end of the connection.
\<close>

interpretation csend: frame_sender client_send_on is_valid_message_type
proof (unfold_locales, goal_cases)
  case (1 t p fd s)
  then show ?case by (auto simp: client_send_on_def)
next
  case (2 t p fd s)
  obtain r u where a: "run_state (send_all fd (header_bytes \<lparr>type_field = t, length_field = of_nat (length p)\<rparr>)) s = (r, u)"
    by fastforce
  obtain q v where b: "run_state (send_all fd p) u = (q, v)" by fastforce
  from 2 a b send_all_result [OF b] show ?case by (auto simp: client_send_on_def)
qed

interpretation usend: frame_sender send_text_frame "\<lambda>_. True"
proof (unfold_locales, goal_cases)
  case (1 t p fd s)
  then show ?case by (simp add: send_text_frame_def)
next
  case (2 t p fd s)
  then show ?case by (auto simp: send_text_frame_def split: prod.splits)
qed

lemma client_receive_ok:
  assumes "run_state (client_receive_on fd n) s = ((0, t, p), s')"
  shows "is_valid_message_type t \<and> length p \<le> MESSAGE_MAX_SIZE \<and> length p < n \<and>
    inbox (socks s fd) = frame t p @ inbox (socks s' fd) \<and> took fd (8 + length p) s s'"
proof -
  obtain r h s1 where rh: "run_state (recv_all fd HEADER_SIZE) s = ((r, h), s1)" by (metis surj_pair)
  have "0 < n" using assms by (cases n) (simp_all add: client_receive_on_def)
  then have r: "r = 0" using assms rh by (auto simp: client_receive_on_def split: if_splits)
  from recv_all_took [OF rh] r have took1: "took fd 8 s s1" and h: "h = take 8 (inbox (socks s fd))"
    and len8: "8 \<le> length (inbox (socks s fd))" by (auto simp: HEADER_SIZE_def)
  define l where "l = unat (length_field (parse_header h))"
  obtain r2 q s2 where rp: "run_state (recv_all fd l) s1 = ((r2, q), s2)" by (metis surj_pair)
  have ok: "is_valid_message_type t" "l \<le> MESSAGE_MAX_SIZE" "l < n" "t = type_field (parse_header h)"
      and rest: "if l = 0 then p = [] \<and> s' = s1 else r2 = 0 \<and> p = q \<and> s' = s2"
    using assms rh r rp \<open>0 < n\<close>
    by (auto simp: client_receive_on_def Let_def l_def split: if_splits prod.splits)
  have "took fd l s1 s' \<and> p = take l (inbox (socks s1 fd)) \<and> l \<le> length (inbox (socks s1 fd))"
  proof (cases "l = 0")
    case True
    with rest show ?thesis by simp
  next
    case False
    with rest rp have "run_state (recv_all fd l) s1 = ((0, p), s')" by simp
    from recv_all_took [OF this] show ?thesis by auto
  qed
  then have body: "took fd l s1 s'" "p = take l (inbox (socks s1 fd))" "length p = l" by auto
  have "parse_header h = \<lparr>type_field = t, length_field = of_nat (length p)\<rparr>"
    using ok(4) body by (cases "parse_header h") (simp add: l_def)
  moreover have "header_bytes (parse_header h) = h" using h len8 by (intro header_bytes_parse) simp
  ultimately have "frame t p = h @ p" by (simp add: frame_def)
  moreover have "inbox (socks s fd) = h @ p @ inbox (socks s' fd)"
    using h body tookD(2) [OF took1] tookD(2) [OF body(1)] by (metis append_take_drop_id)
  ultimately show ?thesis using ok body took_trans [OF took1 body(1)] by simp
qed

lemma client_receive_took:
  assumes "run_state (client_receive_on fd n) s = ((r, t, p), s')"
  shows "(r = 0 \<or> r = 1 \<or> r = -1) \<and> (\<exists>k. took fd k s s')"
proof -
  obtain r1 h s1 where a: "run_state (recv_all fd HEADER_SIZE) s = ((r1, h), s1)" by (metis surj_pair)
  obtain r2 q s2 where b: "run_state (recv_all fd (unat (length_field (parse_header h)))) s1 = ((r2, q), s2)"
    by (metis surj_pair)
  obtain k1 where t1: "took fd k1 s s1" and r1: "r1 = 0 \<or> r1 = 1 \<or> r1 = -1"
    by (rule recv_all_took [OF a], rule that) auto
  obtain k2 where t2: "took fd k2 s1 s2" and r2: "r2 = 0 \<or> r2 = 1 \<or> r2 = -1"
    by (rule recv_all_took [OF b], rule that) auto
  have "(s' = s \<or> s' = s1 \<or> s' = s2) \<and> (r = 0 \<or> r = -1 \<or> r = r1 \<or> r = r2)"
    using assms a b by (auto simp: client_receive_on_def Let_def split: if_splits prod.splits)
  with r1 r2 t1 took_trans [OF t1 t2] took_refl [of fd s] show ?thesis by metis
qed

lemma client_receive_header:
  assumes "run_state (recv_all fd HEADER_SIZE) s = ((0, header_bytes \<lparr>type_field = t, length_field = of_nat (length p)\<rparr>), s1)"
    and "is_valid_message_type t" and "length p \<le> MESSAGE_MAX_SIZE"
  shows "run_state (client_receive_on fd (MESSAGE_MAX_SIZE + 1)) s =
    (if p = [] then ((0, t, []), s1)
     else case run_state (recv_all fd (length p)) s1 of ((r, q), s2) \<Rightarrow> if r \<noteq> 0 then ((r, 0, []), s2) else ((0, t, q), s2))"
  using assms parse_header_bytes [of "\<lparr>type_field = t, length_field = of_nat (length p)\<rparr>" "[]"]
  by (auto simp: client_receive_on_def unat_payload_length split: prod.splits)

interpretation crecv: frame_receiver "\<lambda>fd. client_receive_on fd (MESSAGE_MAX_SIZE + 1)"
proof (unfold_locales, goal_cases)
  case (1 fd s t p s')
  from client_receive_ok [OF this] show ?case by blast
next
  case (2 fd s t p rest)
  let ?h = "header_bytes \<lparr>type_field = t, length_field = of_nat (length p)\<rparr>"
  have inb: "inbox (socks s fd) = ?h @ p @ rest" using 2(4) by (simp add: frame_def)
  then have "HEADER_SIZE \<le> length (inbox (socks s fd))" "take HEADER_SIZE (inbox (socks s fd)) = ?h"
    by (simp_all add: HEADER_SIZE_def)
  with recv_all_calm [OF 2(1)] obtain s1 where a: "run_state (recv_all fd HEADER_SIZE) s = ((0, ?h), s1)"
    "took fd HEADER_SIZE s s1" "calm fd s1" by metis
  have inb1: "inbox (socks s1 fd) = p @ rest" using took_inbox [OF a(2)] inb by (simp add: HEADER_SIZE_def)
  then have "length p \<le> length (inbox (socks s1 fd))" "take (length p) (inbox (socks s1 fd)) = p" by simp_all
  with recv_all_calm [OF a(3)] obtain s2 where b: "run_state (recv_all fd (length p)) s1 = ((0, p), s2)" "calm fd s2"
    by metis
  show ?case using client_receive_header [OF a(1) 2(2,3)] a(3) b by (cases "p = []") auto
next
  case (3 fd s r t p s')
  with client_receive_took [OF 3(1)] show ?case by (auto dest: took_drew)
qed

text \<open>The two directions of a connection. A client's frame is read by the handler thread; what
  the client manager sends is read by the client.\<close>

interpretation upstream: frame_channel client_send_on is_valid_message_type
    "\<lambda>fd. receive_message fd (MESSAGE_MAX_SIZE + 1)"
  by unfold_locales

interpretation uploads: frame_channel send_text_frame "\<lambda>_. True"
    "\<lambda>fd. receive_message fd (MESSAGE_MAX_SIZE + 1)"
  by unfold_locales simp

interpretation downstream: frame_channel send_message_raw is_valid_message_type
    "\<lambda>fd. client_receive_on fd (MESSAGE_MAX_SIZE + 1)"
  by unfold_locales

end
