(* ===== verification/Download_Client_Spec.thy ===== *)
theory Download_Client_Spec
  imports Storage Download_Client
begin

section \<open>What a download does on the client\<close>

text \<open>
  The local copy of the write loop does what the server's does; a download touches no local file
  but its temporary one until the whole file has arrived, and always reads the announced number
  of bytes unless the connection fails.
\<close>

subsection \<open>The two write loops\<close>

lemma client_write_loop_server:
  "\<exists>s'. write_all_loop fd buf n s = (fst (client_write_loop fd buf n s), s') \<and>
     blip s' (snd (client_write_loop fd buf n s))"
proof (induction fd buf n s rule: client_write_loop.induct)
  case (1 fd buf n s)
  obtain k t where run: "run_state (sys_write fd (drop n buf)) s = (k, t)" by fastforce
  have "blip (t\<lparr>errno := EIO\<rparr>) t" by (simp add: blip_def)
  with "1.IH" run show ?case
    unfolding client_write_loop.simps [of fd buf n s] write_all_loop.simps [of fd buf n s]
    by auto
qed

lemma client_write_all_file_spec:
  assumes "run_state (client_write_all_file ffd bs) s = (r, s')" and "ready ffd i R s"
  obtains b where "blip (grow ffd i b R s) s'" and "r = 0 \<Longrightarrow> b = bs"
proof -
  from client_write_loop_server [of ffd bs 0 s] assms(1) obtain t where
    t: "run_state (write_all_file ffd bs) s = (r, t)" "blip t s'"
    by (auto simp: client_write_all_file_def write_all_file_def)
  from write_all_file_spec [OF t(1) assms(2)] obtain b where "blip (grow ffd i b R s) t" "r = 0 \<Longrightarrow> b = bs"
    by metis
  with t(2) that [of b] show thesis by (auto intro: blip_trans)
qed

subsection \<open>Path calls\<close>

abbreviation (input) DL :: string where "DL \<equiv> FILE_DOWNLOAD_DIRECTORY"

lemma blip_path_queries: "state_io_rel blip (sys_stat_dir p)" "state_io_rel blip (sys_access d n)"
  unfolding sys_stat_dir_def sys_access_def by (intro blip.io_sys blip_fail)+

lemma sys_unlink_spec:
  assumes "run_state (sys_unlink d name) s = (r, s')"
  shows "r = -1 \<and> blip s s' \<or> r = 0 \<and> blip (del_entry d name s) s'"
  using assms
  by (auto simp: sys_unlink_def fs_run del_entry_def split: list.splits fault.splits option.splits if_splits)

lemma sys_create_spec:
  assumes "run_state (sys_create d name m) s = (r, s')"
  shows "r = -1 \<and> blip s s' \<or>
    r = fresh_fd (fds s) \<and> dkind (dirs s d) \<noteq> DMissing \<and> entry s d name = None \<and>
      blip (create_inode d name m (s\<lparr>fds := (r, FReg (next_ino s) 0) # fds s\<rparr>)) s'"
  using assms
  by (auto simp: sys_create_def fs_run alloc_fd_def create_inode_def add_entry_def
      split: list.splits fault.splits if_splits)

lemma sys_link_spec:
  assumes "run_state (sys_link d old new) s = (r, s')"
  shows "r = -1 \<and> blip s s' \<or>
    r = 0 \<and> entry s d new = None \<and> (\<exists>i. entry s d old = Some i \<and> blip (add_entry d new i s) s')"
  using assms
  by (auto simp: sys_link_def fs_run add_entry_def split: list.splits fault.splits option.splits if_splits)

subsection \<open>Relations between the start and a later moment of a download\<close>

text \<open>A directory that is missing has no entries. \<open>apart s u\<close>: outside the temporary file, the descriptors and the sockets nothing has changed.\<close>

definition dl_wf :: "'z os_scheme \<Rightarrow> bool" where
  "dl_wf s \<longleftrightarrow> (dkind (dirs s DL) = DMissing \<longrightarrow> ents (dirs s DL) = [])"

definition apart :: "'z os_scheme \<Rightarrow> 'z os_scheme \<Rightarrow> bool" where
  "apart s u \<longleftrightarrow>
     (dl_wf s \<longrightarrow> dl_wf u \<and> (\<forall>n. n \<noteq> temporary_name (pid s) \<longrightarrow> entry u DL n = entry s DL n)) \<and>
     (\<forall>p. p \<noteq> DL \<longrightarrow> dirs u p = dirs s p) \<and> (\<forall>j < next_ino s. inodes u j = inodes s j) \<and>
     next_ino s \<le> next_ino u \<and> pid u = pid s \<and> os.more u = os.more s"

definition drained :: "int \<Rightarrow> nat \<Rightarrow> 'z os_scheme \<Rightarrow> 'z os_scheme \<Rightarrow> bool" where
  "drained fd k s u \<longleftrightarrow> apart s u \<and> fds u = fds s \<and>
     socks u = (socks s)(fd := (socks s fd)\<lparr>inbox := drop k (inbox (socks s fd))\<rparr>)"

text \<open>\<open>building\<close>: the temporary file is the new inode \<open>i\<close>, open as \<open>ffd\<close>, and holds \<open>b\<close>.\<close>

definition building :: "int \<Rightarrow> nat \<Rightarrow> int \<Rightarrow> nat \<Rightarrow> byte list \<Rightarrow> 'z os_scheme \<Rightarrow> 'z os_scheme \<Rightarrow> bool" where
  "building fd k ffd i b s u \<longleftrightarrow> apart s u \<and> ffd = fresh_fd (fds s) \<and> ready ffd i (fds s) u \<and>
     next_ino s \<le> i \<and> i < next_ino u \<and> content (inodes u i) = b \<and>
     entry u DL (temporary_name (pid s)) = Some i \<and>
     socks u = (socks s)(fd := (socks s fd)\<lparr>inbox := drop k (inbox (socks s fd))\<rparr>)"

lemma apart_refl [simp]: "apart s s"
  by (simp add: apart_def dl_wf_def)

lemma apart_trans: "apart s t \<Longrightarrow> apart t u \<Longrightarrow> apart s u"
  unfolding apart_def dl_wf_def by auto

lemma blip_entry: "blip s t \<Longrightarrow> entry t = entry s"
  using blipD [of s t] by (simp add: entry_def fun_eq_iff)

lemma apart_blip: "blip s t \<Longrightarrow> apart s t"
  using blipD [of s t] blip_entry [of s t] by (simp add: apart_def dl_wf_def)

lemma drained_0 [simp]: "drained fd 0 s s"
  by (simp add: drained_def)

lemma drained_blip:
  assumes "drained fd k s t" and "blip t u"
  shows "drained fd k s u"
  using assms apart_trans [OF _ apart_blip [OF assms(2)]] blipD [OF assms(2)] by (simp add: drained_def)

lemma took_apart: "took fd k s t \<Longrightarrow> apart s t"
  by (simp add: took_def net_rest_def apart_def dl_wf_def entry_def)

lemma drained_took: "drained fd k s t \<Longrightarrow> took fd l t u \<Longrightarrow> drained fd (k + l) s u"
  using apart_trans [OF _ took_apart [of fd l t u]]
  by (auto simp: drained_def took_def net_rest_def add.commute)

lemma apart_unlink: "pid t = pid s \<Longrightarrow> apart s t \<Longrightarrow> apart s (del_entry DL (temporary_name (pid s)) t)"
  by (auto simp: apart_def dl_wf_def del_entry_def entry_def delete_conv')

lemma unlink_temporary:
  assumes "run_state (sys_unlink DL (temporary_name (pid s))) t = (r, u)" and "drained fd k s t"
  shows "drained fd k s u"
proof -
  have "drained fd k s (del_entry DL (temporary_name (pid s)) t)"
    using assms(2) apart_unlink [of t s] by (simp add: drained_def apart_def dl_wf_def del_entry_def)
  with sys_unlink_spec [OF assms(1)] assms(2) show ?thesis by (auto intro: drained_blip)
qed

lemma building_blip:
  assumes "building fd k ffd i b s t" and "blip t u"
  shows "building fd k ffd i b s u"
  using assms apart_trans [OF _ apart_blip [OF assms(2)]] blipD [OF assms(2)] blip_entry [OF assms(2)]
  by (simp add: building_def ready_def)

lemma building_took:
  assumes "building fd k ffd i b s t" and "took fd l t u"
  shows "building fd (k + l) ffd i b s u"
  using assms apart_trans [OF _ took_apart [OF assms(2)]]
  by (auto simp: building_def took_def net_rest_def ready_def entry_def add.commute)

lemma building_grow:
  assumes "building fd k ffd i b s t"
  shows "building fd k ffd i (b @ c) s (grow ffd i c (fds s) t)"
  using assms by (auto simp: building_def apart_def dl_wf_def grow_def ready_def entry_def)
subsection \<open>Preparation\<close>

lemma ensure_download_directory_spec:
  assumes "run_state ensure_download_directory s = (r, s')"
  shows "drained fd 0 s s'"
proof -
  obtain st t where a: "run_state (sys_stat_dir DL) s = (st, t)" by fastforce
  have st: "blip s t" by (rule state_io_relD [OF blip_path_queries(1) a])
  obtain m u where b: "run_state (sys_mkdir DL) t = (m, u)" by fastforce
  have "drained fd 0 s u"
  proof -
    have "apart s (t\<lparr>dirs := (dirs t)(DL := \<lparr>dkind = DDir, ents = []\<rparr>)\<rparr>)" if "dkind (dirs t DL) = DMissing"
      using that blipD [OF st] by (auto simp: apart_def dl_wf_def entry_def)
    then show ?thesis
      using sys_mkdir_spec [OF b] blipD [OF st] drained_blip [OF drained_blip [OF drained_0 st]]
        drained_blip [of fd 0 s "t\<lparr>dirs := (dirs t)(DL := \<lparr>dkind = DDir, ents = []\<rparr>)\<rparr>" u]
      by (auto simp: drained_def)
  qed
  moreover have "drained fd 0 s t" by (rule drained_blip [OF drained_0 st])
  ultimately show ?thesis
    using assms a b by (auto simp: ensure_download_directory_def split: option.splits if_splits)
qed

lemma create_temporary:
  assumes "run_state (sys_create DL (temporary_name (pid s)) m) t = (r, u)" and "drained fd k s t"
  shows "r = -1 \<and> drained fd k s u \<or> 0 \<le> r \<and> building fd k r (next_ino t) [] s u"
proof -
  let ?c = "create_inode DL (temporary_name (pid s)) m (t\<lparr>fds := (r, FReg (next_ino t) 0) # fds t\<rparr>)"
  have "building fd k r (next_ino t) [] s ?c" if "r = fresh_fd (fds t)" "entry t DL (temporary_name (pid s)) = None" "dkind (dirs t DL) \<noteq> DMissing"
    using that assms(2)
    by (auto simp: building_def drained_def apart_def dl_wf_def create_inode_def add_entry_def entry_def ready_def map_add_def
        split: option.splits)
  then show ?thesis
    using sys_create_spec [OF assms(1)] assms(2) fresh_fd_props(2) [of "fds t"]
    by (auto intro: drained_blip building_blip)
qed

lemma download_prepare_spec:
  assumes "run_state (download_prepare name) s = ((failed, ffd), s')"
  shows "failed \<and> ffd = -1 \<and> drained fd 0 s s' \<or>
    \<not> failed \<and> 0 \<le> ffd \<and> (\<exists>i. building fd 0 ffd i [] s s')"
proof -
  obtain d s1 where a: "run_state ensure_download_directory s = (d, s1)" by fastforce
  have d1: "drained fd 0 s s1"
    by (rule ensure_download_directory_spec [OF a])
  then have p: "pid s1 = pid s" by (simp add: drained_def apart_def dl_wf_def)
  obtain x s2 where b: "run_state (sys_access DL name) s1 = (x, s2)" by fastforce
  have d2: "drained fd 0 s s2"
    by (rule drained_blip [OF d1 state_io_relD [OF blip_path_queries(2) b]])
  obtain y s3 where c: "run_state (sys_unlink DL (temporary_name (pid s))) s2 = (y, s3)" by fastforce
  note d3 = unlink_temporary [OF c d2]
  obtain z s4 where e: "run_state (sys_create DL (temporary_name (pid s)) 384) s3 = (z, s4)" by fastforce
  note d4 = create_temporary [OF e d3]
  have "(failed, ffd, s') = (True, -1, s1) \<or> (failed, ffd, s') = (True, -1, s2) \<or>
      failed = (z < 0) \<and> ffd = z \<and> s' = s4"
    using assms a b c e by (auto simp: download_prepare_def p Let_def split: if_splits)
  with d1 d2 d4 show ?thesis by auto
qed

subsection \<open>The receive loop\<close>

lemma download_loop_drains:
  assumes "run_state (download_loop fd ffd n True) t = ((got_all, w), u)" and "drained fd k s t"
  shows "w \<and> (\<exists>l. drained fd (k + l) s u \<and> (got_all \<longrightarrow> l = n \<and> n \<le> length (inbox (socks t fd))))"
  using assms
proof (induction fd ffd n "True" arbitrary: t k rule: download_loop.induct)
  case (1 fd ffd n)
  note eq = "1.prems"(1) [unfolded download_loop.simps [of fd ffd n]]
  show ?case
  proof (cases "0 < n")
    case False
    with eq "1.prems"(2) show ?thesis by auto
  next
    case True
    define c where "c = (if n > FILE_CHUNK_SIZE then FILE_CHUNK_SIZE else n)"
    have c: "c \<le> n" by (simp add: c_def)
    obtain r buf t1 where rx: "run_state (recv_all fd c) t = ((r, buf), t1)" by (metis surj_pair)
    obtain m where m: "took fd m t t1" "m \<le> length (inbox (socks t fd))" "r = 0 \<longrightarrow> m = c"
      by (rule recv_all_took [OF rx], rule that) auto
    note d1 = drained_took [OF "1.prems"(2) m(1)]
    show ?thesis
    proof (cases "r = 0")
      case False
      with eq True rx d1 show ?thesis by (auto simp: c_def [symmetric])
    next
      case r0: True
      have rec: "run_state (download_loop fd ffd (n - c) True) t1 = ((got_all, w), u)"
        using eq True rx r0 by (simp add: c_def [symmetric])
      from "1.hyps" [OF True c_def _ rec d1, of r] r0 obtain l where "w" "drained fd (k + m + l) s u"
        "got_all \<longrightarrow> l = n - c \<and> n - c \<le> length (inbox (socks t1 fd))" by auto
      with m r0 c show ?thesis
        by (intro conjI exI [of _ "m + l"]) (auto simp: add.assoc took_def)
    qed
  qed
qed

lemma building_inbox: "building fd k ffd i b s t \<Longrightarrow> inbox (socks t fd) = drop k (inbox (socks s fd))"
  by (simp add: building_def)

lemma download_chunk:
  assumes "building fd k ffd i b s t" and "run_state (recv_all fd n) t = ((0, buf), t1)"
    and "run_state (if \<not> w then do { x \<leftarrow> client_write_all_file ffd buf; ret (x \<noteq> 0) } else ret True) t1 = (w', t2)"
  obtains c where "building fd (k + n) ffd i (b @ c) s t2" and "n \<le> length (inbox (socks t fd))"
    and "\<not> w' \<Longrightarrow> \<not> w \<and> c = take n (inbox (socks t fd))"
proof -
  from recv_all_took [OF assms(2)] have took: "took fd n t t1" and buf: "buf = take n (inbox (socks t fd))"
    and len: "n \<le> length (inbox (socks t fd))" by auto
  note b1 = building_took [OF assms(1) took]
  show thesis
  proof (cases w)
    case True
    with assms(3) b1 len that [of "[]"] show thesis by auto
  next
    case False
    obtain x t3 where wr: "run_state (client_write_all_file ffd buf) t1 = (x, t3)" by fastforce
    have "ready ffd i (fds s) t1" using b1 unfolding building_def by blast
    from client_write_all_file_spec [OF wr this] obtain c where
      c: "blip (grow ffd i c (fds s) t1) t3" "x = 0 \<Longrightarrow> c = buf" by metis
    have "building fd (k + n) ffd i (b @ c) s t3" by (rule building_blip [OF building_grow [OF b1] c(1)])
    moreover have "t2 = t3" "w' = (x \<noteq> 0)" using assms(3) False wr by auto
    ultimately show thesis using c(2) buf len False by (intro that [of c]) auto
  qed
qed

lemma download_loop_builds:
  assumes "run_state (download_loop fd ffd n w) t = ((got_all, w'), u)" and "building fd k ffd i b s t"
  shows "\<exists>l c. building fd (k + l) ffd i (b @ c) s u \<and>
    (got_all \<longrightarrow> l = n \<and> n \<le> length (inbox (socks t fd))) \<and>
    (got_all \<and> \<not> w' \<longrightarrow> \<not> w \<and> c = take n (inbox (socks t fd)))"
  using assms
proof (induction fd ffd n w arbitrary: t k b rule: download_loop.induct)
  case (1 fd ffd n w)
  note eq = "1.prems"(1) [unfolded download_loop.simps [of fd ffd n w]]
  show ?case
  proof (cases "0 < n")
    case False
    with eq "1.prems"(2) show ?thesis by (intro exI [of _ 0] exI [of _ "[]"]) auto
  next
    case True
    define c where "c = (if n > FILE_CHUNK_SIZE then FILE_CHUNK_SIZE else n)"
    have c: "c \<le> n" by (simp add: c_def)
    obtain r buf t1 where rx: "run_state (recv_all fd c) t = ((r, buf), t1)" by (metis surj_pair)
    show ?thesis
    proof (cases "r = 0")
      case False
      from recv_all_took [OF rx] obtain m where "took fd m t t1" by blast
      note b1 = building_took [OF "1.prems"(2) this]
      have "u = t1 \<and> \<not> got_all" using eq True False rx by (simp add: c_def [symmetric])
      with b1 show ?thesis by (intro exI [of _ m] exI [of _ "[]"]) simp
    next
      case r0: True
      let ?wr = "if \<not> w then do { x \<leftarrow> client_write_all_file ffd buf; ret (x \<noteq> 0) } else ret True"
      obtain w1 t2 where wr: "run_state ?wr t1 = (w1, t2)" by fastforce
      have rec: "run_state (download_loop fd ffd (n - c) w1) t2 = ((got_all, w'), u)"
        using eq True rx r0 wr by (simp add: c_def [symmetric] split: if_splits)
      from download_chunk [OF "1.prems"(2) rx [unfolded r0] wr] obtain d where
        d: "building fd (k + c) ffd i (b @ d) s t2" "c \<le> length (inbox (socks t fd))"
          "\<not> w1 \<Longrightarrow> \<not> w \<and> d = take c (inbox (socks t fd))" by metis
      from "1.IH" [OF True c_def _ rec d(1)] r0 obtain l e where
        l: "building fd (k + c + l) ffd i ((b @ d) @ e) s u"
          "got_all \<longrightarrow> l = n - c \<and> n - c \<le> length (inbox (socks t2 fd))"
          "got_all \<and> \<not> w' \<longrightarrow> \<not> w1 \<and> e = take (n - c) (inbox (socks t2 fd))" by auto
      have inb: "inbox (socks t2 fd) = drop c (inbox (socks t fd))"
        using building_inbox [OF d(1)] building_inbox [OF "1.prems"(2)] by (simp add: add.commute)
      have "take n xs = take c xs @ take (n - c) (drop c xs)" for xs :: "byte list"
        using c by (metis le_add_diff_inverse take_add)
      then have "got_all \<and> \<not> w' \<longrightarrow> \<not> w \<and> d @ e = take n (inbox (socks t fd))"
        using l(3) d(3) inb by auto
      moreover have "got_all \<longrightarrow> c + l = n \<and> n \<le> length (inbox (socks t fd))"
        using l(2) d(2) c inb by auto
      ultimately show ?thesis
        using l(1) by (intro exI [of _ "c + l"] exI [of _ "d @ e"]) (simp add: add.assoc)
    qed
  qed
qed

subsection \<open>Closing and publishing\<close>

lemma close_built:
  assumes "run_state (sys_close ffd) t = (r, u)" and "building fd k ffd i b s t"
  shows "drained fd k s u \<and> next_ino s \<le> i \<and> content (inodes u i) = b \<and>
    entry u DL (temporary_name (pid s)) = Some i"
proof -
  have ffd: "ffd \<notin> fst ` set (fds s)" "fds t = (ffd, FReg i (length b)) # fds s"
    using assms(2) fresh_fd_props(1) [of "fds s"] by (auto simp: building_def ready_def)
  then have bl: "blip (closed ffd t) u" using sys_close_spec [OF assms(1)] by (simp add: fd_obj_def)
  have "drained fd k s (closed ffd t)"
    using assms(2) ffd by (auto simp: drained_def building_def apart_def dl_wf_def closed_def entry_def)
  then have "drained fd k s u" using bl by (rule drained_blip)
  moreover have "next_ino s \<le> i" "content (inodes u i) = b" "entry u DL (temporary_name (pid s)) = Some i"
    using assms(2) blipD [OF bl] blip_entry [OF bl] by (auto simp: building_def closed_def entry_def)
  ultimately show ?thesis by blast
qed

lemma chmod_built:
  assumes "run_state (sys_fchmod ffd m) t = (r, u)" and "building fd k ffd i b s t"
  shows "building fd k ffd i b s u"
proof -
  have "fd_obj t ffd = Some (FReg i (length b))" using assms(2) by (simp add: building_def ready_def fd_obj_def)
  note ch = sys_fchmod_spec [OF assms(1) this]
  have "building fd k ffd i b s (t\<lparr>inodes := (inodes t)(i := (inodes t i)\<lparr>imode := m\<rparr>)\<rparr>)"
    using assms(2) by (auto simp: building_def apart_def dl_wf_def ready_def entry_def)
  with ch assms(2) show ?thesis by (auto intro: building_blip)
qed

lemma download_finish_built:
  assumes "run_state (download_finish_file ffd w) t = (w', u)" and "building fd k ffd i b s t" and "0 \<le> ffd"
  shows "drained fd k s u \<and> next_ino s \<le> i \<and> content (inodes u i) = b \<and>
    entry u DL (temporary_name (pid s)) = Some i \<and> (\<not> w' \<longrightarrow> \<not> w)"
proof -
  let ?sync = "if \<not> w then do { r \<leftarrow> sys_fsync ffd; ret (r \<noteq> 0) } else ret True"
  obtain w1 t1 where a: "run_state ?sync t = (w1, t1)" by fastforce
  let ?mode = "if \<not> w1 then do { r \<leftarrow> sys_fchmod ffd 420; ret (r \<noteq> 0) } else ret True"
  obtain w2 t2 where b: "run_state ?mode t1 = (w2, t2)" by fastforce
  obtain c t3 where c: "run_state (sys_close ffd) t2 = (c, t3)" by fastforce
  have fin: "w' = (w2 \<or> c \<noteq> 0)" "u = t3"
    using assms(1,3) a b c by (auto simp: download_finish_file_def split: if_splits)
  have "blip t t1"
  proof -
    obtain x t0 where x: "run_state (sys_fsync ffd) t = (x, t0)" by fastforce
    have "blip t t0" by (rule state_io_relD [OF blip_queries(4) x])
    with a x show ?thesis by (auto split: if_splits)
  qed
  then have b1: "building fd k ffd i b s t1" by (rule building_blip [OF assms(2)])
  have b2: "building fd k ffd i b s t2"
  proof -
    obtain x t0 where x: "run_state (sys_fchmod ffd 420) t1 = (x, t0)" by fastforce
    from chmod_built [OF x b1] b b1 x show ?thesis by (auto split: if_splits)
  qed
  have "\<not> w2 \<longrightarrow> \<not> w" using a b by (auto split: if_splits prod.splits)
  with close_built [OF c b2] fin show ?thesis by auto
qed

definition saved :: "int \<Rightarrow> nat \<Rightarrow> string \<Rightarrow> byte list \<Rightarrow> 'z os_scheme \<Rightarrow> 'z os_scheme \<Rightarrow> bool" where
  "saved fd k name b s u \<longleftrightarrow>
     (dl_wf s \<longrightarrow> dl_wf u \<and> entry s DL name = None \<and>
       (\<forall>n. n \<noteq> temporary_name (pid s) \<and> n \<noteq> name \<longrightarrow> entry u DL n = entry s DL n)) \<and>
     (\<exists>i. entry u DL name = Some i \<and> next_ino s \<le> i \<and> content (inodes u i) = b) \<and>
     (\<forall>p. p \<noteq> DL \<longrightarrow> dirs u p = dirs s p) \<and> (\<forall>j < next_ino s. inodes u j = inodes s j) \<and>
     next_ino s \<le> next_ino u \<and> fds u = fds s \<and> pid u = pid s \<and> os.more u = os.more s \<and>
     socks u = (socks s)(fd := (socks s fd)\<lparr>inbox := drop k (inbox (socks s fd))\<rparr>)"

lemma saved_blip: "saved fd k name b s t \<Longrightarrow> blip t u \<Longrightarrow> saved fd k name b s u"
  using blipD [of t u] blip_entry [of t u] by (simp add: saved_def dl_wf_def)

lemma valid_name_not_temporary:
  assumes "is_valid_shared_filename name"
  shows "name \<noteq> temporary_name p"
proof
  assume "name = temporary_name p"
  then have "hd name = CHR ''.''" by (simp add: temporary_name_def)
  with valid_filename_hd [OF assms] show False by simp
qed

lemma publish_built:
  assumes "run_state (sys_link DL (temporary_name (pid s)) name) t = (l, t1)"
    and "run_state (sys_unlink DL (temporary_name (pid s))) t1 = (x, u)"
    and d: "drained fd k s t" and i: "next_ino s \<le> i" "content (inodes t i) = b"
      "entry t DL (temporary_name (pid s)) = Some i"
    and ne: "name \<noteq> temporary_name (pid s)"
  shows "l \<noteq> 0 \<and> drained fd k s u \<or> l = 0 \<and> saved fd k name b s u"
proof (cases "l = 0")
  case False
  with sys_link_spec [OF assms(1)] d have "drained fd k s t1" by (auto intro: drained_blip)
  with unlink_temporary [OF assms(2)] False show ?thesis by blast
next
  case True
  let ?t = "add_entry DL name i t"
  from True sys_link_spec [OF assms(1)] i(3) have none: "entry t DL name = None" and bl: "blip ?t t1" by auto
  have sv: "saved fd k name b s ?t" "saved fd k name b s (del_entry DL (temporary_name (pid s)) ?t)"
    using d i ne none
    by (auto simp: saved_def drained_def apart_def dl_wf_def add_entry_def del_entry_def entry_def delete_conv' map_add_def
        split: option.splits)
  have t1: "saved fd k name b s t1" by (rule saved_blip [OF sv(1) bl])
  have "blip (del_entry DL (temporary_name (pid s)) ?t) (del_entry DL (temporary_name (pid s)) t1)"
  proof -
    obtain e f where "t1 = ?t\<lparr>errno := e, fs_script := f\<rparr>" using bl unfolding blip_def by blast
    then show ?thesis by (simp add: blip_def del_entry_def)
  qed
  with sys_unlink_spec [OF assms(2)] sv(2) t1 True show ?thesis by (auto intro: saved_blip)
qed

text \<open>The three ways a handled \<open>DOWNLOAD_READY\<close> ends.\<close>

definition client_outcome :: "int \<Rightarrow> string \<Rightarrow> nat \<Rightarrow> int \<Rightarrow> 'z os_scheme \<Rightarrow> 'z os_scheme \<Rightarrow> bool" where
  "client_outcome fd name len r s u \<longleftrightarrow>
     r = -1 \<and> (\<exists>k. drained fd k s u) \<or>
     r = 2 \<and> len \<le> length (inbox (socks s fd)) \<and> drained fd len s u \<or>
     r = 1 \<and> len \<le> length (inbox (socks s fd)) \<and> saved fd len name (take len (inbox (socks s fd))) s u"

lemma download_failed_publish:
  assumes "run_state (download_publish name len True rs) t = ((r, msg), u)" and "drained fd k s t"
  shows "r = 2 \<and> drained fd k s u"
proof -
  have p: "pid t = pid s" using assms(2) by (simp add: drained_def apart_def dl_wf_def)
  obtain x u' where x: "run_state (sys_unlink DL (temporary_name (pid s))) t = (x, u')" by fastforce
  with assms p unlink_temporary [OF x assms(2)] show ?thesis by (auto simp: download_publish_def)
qed

lemma download_built_publish:
  assumes "run_state (download_publish name len False rs) t = ((r, msg), u)" and d: "drained fd k s t"
    and i: "next_ino s \<le> i" "content (inodes t i) = b" "entry t DL (temporary_name (pid s)) = Some i"
    and name: "is_valid_shared_filename name" and rs: "length (''DOWNLOAD_SUCCESS '' @ name @ '' '' @ nat_str len) < rs"
  shows "r = 2 \<and> drained fd k s u \<or> r = 1 \<and> saved fd k name b s u"
proof -
  have p: "pid t = pid s" using d by (simp add: drained_def apart_def dl_wf_def)
  obtain l t1 where l: "run_state (sys_link DL (temporary_name (pid s)) name) t = (l, t1)" by fastforce
  obtain x u' where x: "run_state (sys_unlink DL (temporary_name (pid s))) t1 = (x, u')" by fastforce
  have "u = u' \<and> r = (if l \<noteq> 0 then 2 else 1)"
    using assms(1) p l x rs by (auto simp: download_publish_def snprintf_def split: if_splits)
  with publish_built [OF l x d i valid_name_not_temporary [OF name]] show ?thesis by auto
qed

lemma download_receive_spec:
  assumes run: "run_state (download_receive fd name len rs) s = ((r, msg), u)"
    and name: "is_valid_shared_filename name" and rs: "length (''DOWNLOAD_SUCCESS '' @ name @ '' '' @ nat_str len) < rs"
  shows "client_outcome fd name len r s u"
proof -
  obtain failed ffd s1 where a: "run_state (download_prepare name) s = ((failed, ffd), s1)" by (metis surj_pair)
  obtain got_all w s2 where b: "run_state (download_loop fd ffd len failed) s1 = ((got_all, w), s2)"
    by (metis surj_pair)
  from download_prepare_spec [OF a, of fd] show ?thesis
  proof (elim disjE conjE exE)
    assume c: "failed" "ffd = -1" "drained fd 0 s s1"
    from c(1) b have "run_state (download_loop fd ffd len True) s1 = ((got_all, w), s2)" by simp
    from download_loop_drains [OF this c(3)] obtain l where
      l: "w" "drained fd l s s2" "got_all \<longrightarrow> l = len \<and> len \<le> length (inbox (socks s1 fd))" by auto
    have inb: "inbox (socks s1 fd) = inbox (socks s fd)" using c(3) by (simp add: drained_def)
    have p: "pid s2 = pid s" using l(2) by (simp add: drained_def apart_def dl_wf_def)
    obtain x s3 where x: "run_state (sys_unlink DL (temporary_name (pid s))) s2 = (x, s3)" by fastforce
    note d3 = unlink_temporary [OF x l(2)]
    show ?thesis
    proof (cases got_all)
      case False
      with run a b x c p have "r = -1 \<and> u = s3" by (auto simp: download_receive_def)
      with d3 show ?thesis by (auto simp: client_outcome_def)
    next
      case True
      with run a b c l(1) have "run_state (download_publish name len True rs) s2 = ((r, msg), u)"
        by (simp add: download_receive_def download_finish_file_def)
      from download_failed_publish [OF this l(2)] l(3) True inb show ?thesis
        by (auto simp: client_outcome_def)
    qed
  next
    fix i
    assume c: "\<not> failed" "0 \<le> ffd" "building fd 0 ffd i [] s s1"
    from download_loop_builds [OF b c(3)] obtain l d where
      l: "building fd l ffd i d s s2" "got_all \<longrightarrow> l = len \<and> len \<le> length (inbox (socks s1 fd))"
        "got_all \<and> \<not> w \<longrightarrow> d = take len (inbox (socks s1 fd))" by auto
    have inb: "inbox (socks s1 fd) = inbox (socks s fd)" using building_inbox [OF c(3)] by simp
    have p: "pid s2 = pid s" using l(1) by (simp add: building_def apart_def dl_wf_def)
    show ?thesis
    proof (cases got_all)
      case False
      obtain y s3 where y: "run_state (sys_close ffd) s2 = (y, s3)" by fastforce
      have d3: "drained fd l s s3" using close_built [OF y l(1)] by blast
      then have p3: "pid s3 = pid s" by (simp add: drained_def apart_def dl_wf_def)
      obtain x s4 where x: "run_state (sys_unlink DL (temporary_name (pid s))) s3 = (x, s4)" by fastforce
      from False run a b x y c p3 have "r = -1 \<and> u = s4" by (auto simp: download_receive_def)
      with unlink_temporary [OF x d3] show ?thesis by (auto simp: client_outcome_def)
    next
      case True
      obtain w' s3 where f: "run_state (download_finish_file ffd w) s2 = (w', s3)" by fastforce
      note fin = download_finish_built [OF f l(1) c(2)]
      from True run a b f have pub: "run_state (download_publish name len w' rs) s3 = ((r, msg), u)"
        by (simp add: download_receive_def)
      show ?thesis
      proof (cases w')
        case True
        with download_failed_publish [of name len rs s3 r msg u fd l s] pub fin l(2) \<open>got_all\<close> inb
        show ?thesis by (auto simp: client_outcome_def)
      next
        case False
        with pub have "run_state (download_publish name len False rs) s3 = ((r, msg), u)" by simp
        from download_built_publish [OF this, of fd l s i d] fin name rs l(2,3) \<open>got_all\<close> False inb
        show ?thesis by (auto simp: client_outcome_def)
      qed
    qed
  qed
qed

end
