(* ===== verification/Receiver_Spec.thy ===== *)
theory Receiver_Spec
  imports Chat_Frames Download_Client_Spec
begin

section \<open>What the receiver thread may do beside the main thread\<close>

text \<open>
  \<open>aside\<close> collects everything the main thread relies on while the receiver runs: open
  descriptors, outgoing streams, existing files and the socket stay as they are, and the two
  flags that end the session are never taken back. The receiver ends after finitely many
  iterations, because every iteration that does not end it reads at least a header.
\<close>

definition aside :: "chat \<Rightarrow> chat \<Rightarrow> bool" where
  "aside s u \<longleftrightarrow> fds u = fds s \<and> (\<forall>x. outbox (socks u x) = outbox (socks s x)) \<and>
     (\<forall>x. length (inbox (socks u x)) \<le> length (inbox (socks s x))) \<and>
     (\<forall>x. shut (socks s x) \<longrightarrow> shut (socks u x)) \<and>
     (\<forall>j < next_ino s. inodes u j = inodes s j) \<and> next_ino s \<le> next_ino u \<and> pid u = pid s \<and>
     client_socket u = client_socket s \<and> upload_state u = upload_state s \<and> stuck u = stuck s \<and>
     sched u = sched s \<and> (receiver_alive u \<longrightarrow> receiver_alive s) \<and> (client_running u \<longrightarrow> client_running s)"

lemma aside_refl: "aside s s"
  by (simp add: aside_def)

lemma aside_trans: "aside s t \<Longrightarrow> aside t u \<Longrightarrow> aside s u"
  unfolding aside_def by (auto intro: order_trans)

interpretation aside: frame_rel aside
  by unfold_locales (rule aside_refl, rule aside_trans)

lemma aside_modify: "(\<And>s. aside s (f s)) \<Longrightarrow> state_io_rel aside (modify f)"
  by (simp add: state_io_rel_def)

lemma aside_more:
  fixes s u :: chat
  assumes "os.more u = os.more s"
  shows "client_socket u = client_socket s" "upload_state u = upload_state s" "stuck u = stuck s"
    "sched u = sched s" "receiver_alive u = receiver_alive s" "client_running u = client_running s"
    "response_available u = response_available s" "connection_closed u = connection_closed s"
    "response_type u = response_type s" "response_payload u = response_payload s" "console u = console s"
  using assms by (cases s; cases u; simp)+

lemma aside_mtx: "state_io_rel aside mtx_ok"
  by (auto simp: mtx_ok_def mtx_fault_def state_io_rel_def aside_def split: list.splits)

lemma aside_took: "took fd k s u \<Longrightarrow> aside s u"
  using aside_more [of u s] by (auto simp: took_def net_rest_def aside_def)

lemma aside_drained: "drained fd k s u \<Longrightarrow> aside s u"
  using aside_more [of u s] by (auto simp: drained_def apart_def aside_def)

lemma aside_saved: "saved fd k name b s u \<Longrightarrow> aside s u"
  using aside_more [of u s] by (auto simp: saved_def aside_def)

subsection \<open>Downloads\<close>

lemma parse_download_ready_sound:
  assumes "parse_download_ready p n = Ready name len"
  shows "is_valid_shared_filename name \<and> len \<le> FILE_MAX_SIZE"
  using assms
  by (auto simp: parse_download_ready_def Let_def split: if_splits option.splits prod.splits)

lemma success_text_fits:
  assumes "is_valid_shared_filename name" and "len \<le> FILE_MAX_SIZE" and "154 \<le> n"
  shows "length (''DOWNLOAD_SUCCESS '' @ name @ '' '' @ nat_str len) < n"
proof -
  have "length (nat_str len) \<le> 8" using assms(2) by (intro length_nat_str) (auto simp: FILE_MAX_SIZE_def)
  with valid_filename_length [OF assms(1)] assms(3) show ?thesis by simp
qed

lemma download_handle_spec:
  assumes "run_state (download_client_handle_server_message fd t p n) s = ((r, msg), u)" and "154 \<le> n"
  shows "case (if t = MSG_RESPONSE then parse_download_ready p FILE_NAME_MAX_SIZE else NotReady) of
      NotReady \<Rightarrow> r = 0 \<and> u = s
    | BadReady \<Rightarrow> r = -1 \<and> u = s
    | Ready name len \<Rightarrow> client_outcome fd name len r s u"
proof -
  have n: "n \<noteq> 0" using assms(2) by simp
  have spec: "client_outcome fd name len r s u"
    if "parse_download_ready p FILE_NAME_MAX_SIZE = Ready name len" "t = MSG_RESPONSE" for name len
  proof -
    note ok = parse_download_ready_sound [OF that(1)]
    show ?thesis
      using assms(1) that n success_text_fits [OF _ _ assms(2), of name len] ok
      by (intro download_receive_spec) (auto simp: download_client_handle_server_message_def)
  qed
  show ?thesis
    using assms(1) n spec
    by (auto simp: download_client_handle_server_message_def split: ready_parse.splits)
qed

lemma aside_download: "154 \<le> n \<Longrightarrow> state_io_rel aside (download_client_handle_server_message fd t p n)"
proof (rule state_io_relI)
  fix x and s u :: chat
  assume n: "154 \<le> n" and run: "run_state (download_client_handle_server_message fd t p n) s = (x, u)"
  obtain r msg where x: "x = (r, msg)" by fastforce
  from download_handle_spec [OF run [unfolded x] n] show "aside s u"
    by (auto simp: client_outcome_def aside_refl split: ready_parse.splits if_splits
        intro: aside_drained aside_saved)
qed

subsection \<open>One iteration\<close>

lemma aside_basics:
  "state_io_rel aside (display l)" "state_io_rel aside mutex_lock" "state_io_rel aside stop_running"
  "state_io_rel aside receiver_ends" "state_io_rel aside (sys_shutdown fd)"
  unfolding display_def mutex_lock_def stop_running_def receiver_ends_def sys_shutdown_def
  by (intro aside.io_sys aside_mtx aside_modify; simp add: aside_def)+

lemma aside_printf: "state_io_rel aside (safe_printf lead msg)"
  unfolding safe_printf_def by (intro aside.io_sys aside_basics)

lemma aside_handle_upload: "state_io_rel aside (upload_client_handle_server_message t p)"
  unfolding upload_client_handle_server_message_def Let_def
  by (intro aside.io_sys aside_basics aside_modify) (simp add: aside_def)

lemma aside_notify: "state_io_rel aside upload_client_notify_connection_closed"
  unfolding upload_client_notify_connection_closed_def
  by (intro aside.io_sys aside_basics aside_modify) (simp add: aside_def)

lemma aside_show: "state_io_rel aside (show_message t p)"
  unfolding show_message_def show_response_def
  by (intro aside.io_sys aside_basics aside_modify) (simp_all add: aside_def)

lemma aside_dispatch: "state_io_rel aside (receiver_dispatch t p)"
  unfolding receiver_dispatch_def receiver_normal_def
  by (intro aside.io_sys aside_basics aside_handle_upload aside_download aside_notify aside_show)
    (simp add: MESSAGE_MAX_SIZE_def)

lemma receive_message_took:
  assumes "run_state (client_receive_message n) s = ((r, t, p), u)"
  shows "(r = 0 \<or> r = 1 \<or> r = -1) \<and> (\<exists>k. took (client_socket s) k s u)"
  using client_receive_took [of "client_socket s" n s r t p u] assms by (simp add: client_receive_message_def)

lemma aside_receive: "state_io_rel aside (client_receive_message n)"
proof (rule state_io_relI)
  fix x s u
  assume run: "run_state (client_receive_message n) s = (x, u)"
  obtain r t p where "x = (r, t, p)" by (cases x) auto
  with receive_message_took [of n s r t p u] run show "aside s u" by (auto intro: aside_took)
qed

lemma aside_lost: "state_io_rel aside (receiver_lost notice)"
  unfolding receiver_lost_def by (intro aside.io_sys aside_basics aside_notify aside_printf)

lemma aside_iteration: "state_io_rel aside receiver_iteration"
  unfolding receiver_iteration_def
  by (intro aside.io_sys aside_basics aside_notify aside_printf aside_receive aside_lost aside_dispatch)

subsection \<open>The receiver ends\<close>

definition rank :: "chat \<Rightarrow> nat" where
  "rank s = (if receiver_alive s then Suc (length (inbox (socks s (client_socket s)))) else 0)"

lemma rank_patience: "rank s < patience s"
  by (simp add: rank_def patience_def)

lemma rank_aside: "aside s u \<Longrightarrow> rank u \<le> rank s"
  by (auto simp: rank_def aside_def)

text \<open>Nothing in a message makes the receiver alive again, and a received message is gone from
  the stream.\<close>

lemma iteration_rank:
  assumes "receiver_alive s"
  shows "rank (exec receiver_iteration s) < rank s"
proof (cases "client_running s")
  case False
  with assms show ?thesis by (simp add: receiver_iteration_def receiver_ends_def rank_def)
next
  case True
  obtain r t p u where rx: "run_state (client_receive_message (MESSAGE_MAX_SIZE + 1)) s = ((r, t, p), u)"
    by (metis surj_pair)
  have dead: "rank v = 0" if "\<not> receiver_alive v" for v using that by (simp add: rank_def)
  have ends: "\<not> receiver_alive (exec receiver_ends v)" for v by (simp add: receiver_ends_def)
  show ?thesis
  proof (cases "r = 0")
    case True
    have "run_state (client_receive_on (client_socket s) (MESSAGE_MAX_SIZE + 1)) s = ((0, t, p), u)"
      using rx True by (simp add: client_receive_message_def)
    from client_receive_ok [OF this]
    have shorter: "length (inbox (socks u (client_socket s))) < length (inbox (socks s (client_socket s)))" by simp
    have "aside s u" by (rule state_io_relD [OF aside_receive rx])
    then have "rank u < rank s" using shorter assms by (auto simp: rank_def aside_def)
    moreover have "aside u (exec (receiver_dispatch t (cstr p)) u)" by (rule io_rel_exec) (rule aside_dispatch)
    ultimately show ?thesis
      using rx True \<open>client_running s\<close> rank_aside by (fastforce simp: receiver_iteration_def)
  next
    case False
    with receive_message_took [OF rx] have "r = 1 \<or> r < 0" by auto
    then have "\<not> receiver_alive (exec receiver_iteration s)"
      using rx \<open>client_running s\<close> ends
      by (auto simp: receiver_iteration_def receiver_lost_def split_def)
    with dead assms show ?thesis by (simp add: rank_def)
  qed
qed

lemma aside_turns: "state_io_rel aside (turns receiver_iteration n)"
proof (induction n)
  case 0
  show ?case by (simp add: aside.io_return)
next
  case (Suc n)
  then show ?case unfolding turns.simps turn_def by (intro aside.io_sys aside_iteration)
qed

lemma turns_end: "rank s \<le> n \<Longrightarrow> \<not> receiver_alive (exec (turns receiver_iteration n) s)"
proof (induction n arbitrary: s)
  case 0
  then show ?case by (simp add: rank_def split: if_splits)
next
  case (Suc n)
  show ?case
  proof (cases "receiver_alive s")
    case True
    have "rank (exec receiver_iteration s) \<le> n" using iteration_rank [OF True] Suc.prems by simp
    from Suc.IH [OF this] True show ?thesis by (simp add: turn_def split_def)
  next
    case False
    have "aside s (exec (turns receiver_iteration (Suc n)) s)" by (rule io_rel_exec) (rule aside_turns)
    with False show ?thesis by (simp only: aside_def) blast
  qed
qed

lemma join_ends:
  "\<not> receiver_alive (exec join_receiver s) \<and> aside s (exec join_receiver s)"
proof -
  let ?u = "exec (turns receiver_iteration (patience s)) s"
  have "rank s \<le> patience s" using rank_patience [of s] by simp
  note turns_end [OF this]
  moreover have "aside s ?u" by (rule io_rel_exec) (rule aside_turns)
  ultimately show ?thesis by (simp add: join_receiver_def split_def)
qed

text \<open>Waiting: the receiver runs until there is an answer or the connection is closed; a thread that
  gets stuck has no receiver left to wake it.\<close>

definition awake :: "chat \<Rightarrow> bool" where
  "awake s \<longleftrightarrow> response_available s \<or> connection_closed s"

lemma aside_stuck: "aside s t \<Longrightarrow> aside (s\<lparr>stuck := b\<rparr>) (t\<lparr>stuck := b\<rparr>)"
  by (simp add: aside_def)

lemma wait_until_spec:
  assumes "run_state (wait_until receiver_iteration awake n) s = (ok, u)" and "rank s < n"
  shows "aside (s\<lparr>stuck := stuck u\<rparr>) u \<and> (ok \<longrightarrow> awake u) \<and>
    (stuck u \<noteq> stuck s \<longrightarrow> \<not> ok \<and> \<not> receiver_alive u \<and> \<not> awake u)"
  using assms
proof (induction n arbitrary: s)
  case 0
  then show ?case by simp
next
  case (Suc n)
  show ?case
  proof (cases "awake s \<or> \<not> receiver_alive s")
    case True
    with Suc.prems show ?thesis by (auto simp: aside_def awake_def split: if_splits)
  next
    case False
    obtain m t where m: "run_state mtx_ok s = (m, t)" by fastforce
    have st: "aside s t" by (rule state_io_relD [OF aside_mtx m])
    show ?thesis
    proof (cases m)
      case False
      with Suc.prems \<open>\<not> (awake s \<or> \<not> receiver_alive s)\<close> m have "u = t" "\<not> ok" by auto
      with st show ?thesis by (auto simp: aside_def)
    next
      case True
      have more: "os.more t = os.more s"
        using m by (auto simp: mtx_ok_def mtx_fault_def split: list.splits)
      let ?v = "exec receiver_iteration t"
      have rec: "run_state (wait_until receiver_iteration awake n) ?v = (ok, u)"
        using Suc.prems False m True by (simp add: split_def)
      have tv: "aside t ?v" by (rule io_rel_exec) (rule aside_iteration)
      have "rank ?v < rank t" using iteration_rank [of t] aside_more(5) [OF more] False by simp
      with rank_aside [OF st] Suc.prems(2) have "rank ?v < n" by simp
      note IH = Suc.IH [OF rec this]
      have "aside (s\<lparr>stuck := stuck u\<rparr>) (?v\<lparr>stuck := stuck u\<rparr>)"
        by (rule aside_stuck) (rule aside_trans [OF st tv])
      then have "aside (s\<lparr>stuck := stuck u\<rparr>) u" using IH by (blast intro: aside_trans)
      moreover have "stuck ?v = stuck s" using st tv by (simp add: aside_def)
      ultimately show ?thesis using IH by simp
    qed
  qed
qed

end
