(* ===== verification/Upload_Client_Spec.thy ===== *)
theory Upload_Client_Spec
  imports Receiver_Spec
begin

section \<open>What an upload sends\<close>

text \<open>
  Whatever the receiver thread does meanwhile, an upload puts on the wire a prefix of its request
  frame followed by the bytes of the local file, and all of that when it reports success; it
  gives back its descriptor in every case.
\<close>

subsection \<open>Steps that send nothing\<close>

definition mild :: "chat \<Rightarrow> chat \<Rightarrow> bool" where
  "mild s u \<longleftrightarrow> fds u = fds s \<and> (\<forall>x. outbox (socks u x) = outbox (socks s x)) \<and>
     (\<forall>j < next_ino s. inodes u j = inodes s j) \<and> next_ino s \<le> next_ino u \<and> pid u = pid s \<and>
     client_socket u = client_socket s"

interpretation mild: frame_rel mild
  by unfold_locales (auto simp: mild_def)

lemma mild_aside: "state_io_rel aside m \<Longrightarrow> state_io_rel mild m"
  by (erule io_rel_mono) (simp add: aside_def mild_def)

lemma mild_modify: "(\<And>s. mild s (f s)) \<Longrightarrow> state_io_rel mild (modify f)"
  by (simp add: state_io_rel_def)

lemmas mild_basics = aside_basics [THEN mild_aside] aside_mtx [THEN mild_aside]
  aside_iteration [THEN mild_aside] aside_turns [THEN mild_aside]

lemma mild_interleave: "state_io_rel mild (interleave receiver_iteration)"
  unfolding interleave_def by (intro mild.io_sys mild_basics mild_modify) (simp add: mild_def)

lemma mild_wait_until: "state_io_rel mild (wait_until receiver_iteration test n)"
proof (induction n)
  case 0
  show ?case unfolding wait_until.simps by (intro mild.io_sys mild_modify) (simp add: mild_def)
next
  case (Suc n)
  show ?case
    unfolding wait_until.simps by (intro mild.io_sys mild_basics mild_modify Suc.IH) (simp_all add: mild_def)
qed

lemma mild_wait: "state_io_rel mild (wait_for_response receiver_iteration n)"
  unfolding wait_for_response_def
  by (intro mild.io_sys mild_basics mild_interleave mild_wait_until mild_modify) (simp add: mild_def)

lemma mild_set: "(\<And>s. mild s (f s)) \<Longrightarrow> state_io_rel mild (set_upload_state receiver_iteration f)"
  unfolding set_upload_state_def by (intro mild.io_sys mild_basics mild_interleave mild_modify)

subsection \<open>What has been sent\<close>

text \<open>\<open>sent fd w F s u\<close>: since \<open>s\<close> the bytes \<open>w\<close> went out on \<open>fd\<close>, and the open descriptors are
  now \<open>F\<close>.\<close>

definition sent :: "int \<Rightarrow> byte list \<Rightarrow> (int \<times> fdobj) list \<Rightarrow> chat \<Rightarrow> chat \<Rightarrow> bool" where
  "sent fd w F s u \<longleftrightarrow> fds u = F \<and> outbox (socks u fd) = outbox (socks s fd) @ w \<and>
     (\<forall>x. x \<noteq> fd \<longrightarrow> outbox (socks u x) = outbox (socks s x)) \<and>
     (\<forall>j < next_ino s. inodes u j = inodes s j) \<and> next_ino s \<le> next_ino u \<and> pid u = pid s \<and>
     client_socket u = client_socket s"

lemma sent_start: "sent fd [] (fds s) s s"
  by (simp add: sent_def)

lemma sent_mild: "sent fd w F s t \<Longrightarrow> mild t u \<Longrightarrow> sent fd w F s u"
  by (simp add: sent_def mild_def)

lemma sent_run: "sent fd w F s t \<Longrightarrow> state_io_rel mild m \<Longrightarrow> run_state m t = (x, u) \<Longrightarrow> sent fd w F s u"
  by (blast intro: sent_mild dest: state_io_relD)

lemma sent_exec: "sent fd w F s t \<Longrightarrow> state_io_rel mild m \<Longrightarrow> sent fd w F s (exec m t)"
  by (blast intro: sent_mild io_rel_exec)

lemma sent_wrote:
  assumes "sent fd v F s t" and "wrote fd w t u"
  shows "sent fd (v @ w) F s u"
  using assms wroteD [OF assms(2)] aside_more(1) [of u t]
  by (auto simp: sent_def wrote_def net_rest_def)

lemma sent_blip:
  assumes "sent fd w F s t" and "blip (t\<lparr>fds := G\<rparr>) u"
  shows "sent fd w G s u"
  using assms(1) blipD [OF assms(2)] aside_more(1) [of u t] by (simp add: sent_def)

lemma sent_close:
  assumes "sent fd w ((ffd, x) # F) s t" and "ffd \<notin> fst ` set F" and "run_state (sys_close ffd) t = (r, u)"
  shows "sent fd w F s u"
proof -
  have "fds t = (ffd, x) # F" using assms(1) by (simp add: sent_def)
  with sys_close_spec [OF assms(3)] have "blip (closed ffd t) u" by (simp add: fd_obj_def)
  then show ?thesis
    using assms(1,2) blipD [of "closed ffd t" u] aside_more(1) [of u t] \<open>fds t = (ffd, x) # F\<close>
    by (simp add: sent_def closed_def)
qed

lemma sent_fd_obj: "sent fd w ((ffd, x) # F) s t \<Longrightarrow> fd_obj t ffd = Some x"
  by (simp add: sent_def fd_obj_def)

lemma sent_read:
  assumes "sent fd w ((ffd, FReg i off) # F) s t"
    and "run_state (sys_read ffd n) t = ((r, bs), u)"
  shows "r = -1 \<and> sent fd w ((ffd, FReg i off) # F) s u \<or>
    0 \<le> r \<and> nat r \<le> n \<and> length bs = nat r \<and> sent fd w ((ffd, FReg i (off + nat r)) # F) s u \<and>
    (i < next_ino s \<longrightarrow> bs = take (nat r) (drop off (content (inodes s i))))"
proof -
  have eq: "i < next_ino s \<Longrightarrow> inodes t i = inodes s i" "fds t = (ffd, FReg i off) # F"
    using assms(1) by (auto simp: sent_def)
  from sys_read_spec [OF assms(2) sent_fd_obj [OF assms(1)]]
  consider (err) "r = -1" "blip t u"
    | (ok) "0 \<le> r" "nat r \<le> n" "i < next_ino s \<longrightarrow> bs = take (nat r) (drop off (content (inodes s i)))" "length bs = nat r"
      "blip (t\<lparr>fds := (ffd, FReg i (off + nat r)) # F\<rparr>) u"
    using eq by auto
  then show ?thesis
  proof cases
    case err
    have "blip (t\<lparr>fds := fds t\<rparr>) u" using err(2) by simp
    from sent_blip [OF assms(1) this] err(1) eq show ?thesis by simp
  next
    case ok
    with sent_blip [OF assms(1) ok(5)] show ?thesis by simp
  qed
qed

subsection \<open>The transfer loop\<close>

lemma upload_send_loop_spec:
  assumes "upload_send_loop receiver_iteration fd ffd n t = ((r, msg), u)"
    and "sent fd w ((ffd, FReg i off) # F) s t"
  shows "\<exists>p off'. sent fd (w @ p) ((ffd, FReg i off') # F) s u \<and> (r = 0 \<or> r = -1) \<and>
    (i < next_ino s \<longrightarrow> prefix p (take n (drop off (content (inodes s i)))) \<and>
      (r = 0 \<longrightarrow> p = take n (drop off (content (inodes s i))) \<and> length p = n))"
  using assms
proof (induction receiver_iteration fd ffd n t arbitrary: w off rule: upload_send_loop.induct)
  case (1 fd ffd n t)
  let ?c = "content (inodes s i)"
  show ?case
  proof (cases "0 < n")
    case False
    with "1.prems" show ?thesis
      by (intro exI [of _ "[]"] exI [of _ off]) (simp add: upload_send_loop.simps [of _ _ _ _ t])
  next
    case True
    define m where "m = (if n > FILE_CHUNK_SIZE then FILE_CHUNK_SIZE else n)"
    have m: "m \<le> n" by (simp add: m_def)
    obtain k bs t1 where rd: "run_state (sys_read ffd m) t = ((k, bs), t1)" by (metis surj_pair)
    note step = sent_read [OF "1.prems"(2) rd]
    note eq = "1.prems"(1) [unfolded upload_send_loop.simps [of _ fd ffd n t], folded m_def]
    consider (intr) "k < 0" "errno t1 = EINTR" | (err) "k < 0" "errno t1 \<noteq> EINTR" | (eof) "k = 0" | (more) "0 < k"
      by linarith
    then show ?thesis
    proof cases
      case intr
      with eq True rd have "upload_send_loop receiver_iteration fd ffd n t1 = ((r, msg), u)" by simp
      with "1.hyps"(1) [OF True rd [unfolded m_def, symmetric] refl intr] step intr
      show ?thesis by auto
    next
      case err
      with eq True rd step show ?thesis by (intro exI [of _ "[]"] exI [of _ off]) auto
    next
      case eof
      with eq True rd step show ?thesis by (intro exI [of _ "[]"] exI [of _ off]) auto
    next
      case more
      from step more have k: "nat k \<le> m" "i < next_ino s \<longrightarrow> bs = take (nat k) (drop off ?c)" "length bs = nat k"
        and s1: "sent fd w ((ffd, FReg i (off + nat k)) # F) s t1" by auto
      obtain q t2 where sd: "run_state (send_all fd bs) t1 = (q, t2)" by fastforce
      from send_all_wrote [OF sd] obtain p where p: "wrote fd p t1 t2"
        "q = 0 \<and> p = bs \<or> q = -1 \<and> strict_prefix p bs" by metis
      note s2 = sent_wrote [OF s1 p(1)]
      have pre: "i < next_ino s \<longrightarrow> prefix bs (take n (drop off ?c))"
        using k m by (metis le_trans take_is_prefix take_take min.absorb1)
      show ?thesis
      proof (cases "q = 0")
        case False
        with eq True rd more sd have "u = t2" "r = -1" by auto
        moreover have "i < next_ino s \<longrightarrow> prefix p (take n (drop off ?c))"
          using pre p(2) False by (auto simp: strict_prefix_def intro: prefix_order.trans)
        ultimately show ?thesis using s2 by (intro exI [of _ p] exI [of _ "off + nat k"]) simp
      next
        case q0: True
        with p(2) have pb: "p = bs" by simp
        let ?t3 = "exec (interleave receiver_iteration) t2"
        have rec: "upload_send_loop receiver_iteration fd ffd (n - nat k) ?t3 = ((r, msg), u)"
          using eq True rd more sd q0 by simp
        have s3: "sent fd (w @ bs) ((ffd, FReg i (off + nat k)) # F) s ?t3"
          using sent_exec [OF s2 mild_interleave] pb by simp
        have "\<not> k < 0" "k \<noteq> 0" "\<not> q \<noteq> 0" using more q0 by auto
        from "1.hyps"(2) [OF True rd [unfolded m_def, symmetric] refl this(1,2) sd [symmetric] this(3) rec s3]
        obtain p' off' where p': "sent fd ((w @ bs) @ p') ((ffd, FReg i off') # F) s u"
          "r = 0 \<or> r = -1" "i < next_ino s \<longrightarrow> prefix p' (take (n - nat k) (drop (off + nat k) ?c)) \<and>
            (r = 0 \<longrightarrow> p' = take (n - nat k) (drop (off + nat k) ?c) \<and> length p' = n - nat k)"
          by blast
        have split: "i < next_ino s \<longrightarrow> take n (drop off ?c) = bs @ take (n - nat k) (drop (off + nat k) ?c)"
          using k m by (metis le_add_diff_inverse le_trans take_add drop_drop add.commute)
        show ?thesis
          using p' split k m by (intro exI [of _ "bs @ p'"] exI [of _ off']) auto
      qed
    qed
  qed
qed

subsection \<open>The whole upload\<close>

text \<open>How much of the announced stream \<open>f @ c\<close> (request and file) a result leaves on the wire; \<open>g\<close> says
  that the file existed at the start.\<close>

definition sent_outcome :: "bool \<Rightarrow> byte list \<Rightarrow> byte list \<Rightarrow> int \<Rightarrow> byte list \<Rightarrow> bool" where
  "sent_outcome g f c r p \<longleftrightarrow> (r = 0 \<or> r = 1 \<or> r = -1) \<and> (g \<longrightarrow> prefix p (f @ c) \<and>
     (r = 0 \<longrightarrow> p = f @ c) \<and> (r = 1 \<longrightarrow> p = [] \<or> p = f \<or> p = f @ c))"

lemma client_transfer_spec:
  assumes run: "run_state (upload_transfer_file receiver_iteration fd ffd n rs) t = ((r, msg), u)"
    and s0: "sent fd f ((ffd, FReg i 0) # F) s t" and ffd: "ffd \<notin> fst ` set F"
    and n: "i < next_ino s \<longrightarrow> n = length (content (inodes s i))"
  shows "\<exists>p. sent fd p F s u \<and> sent_outcome (i < next_ino s) f (content (inodes s i)) r p"
proof -
  let ?c = "content (inodes s i)"
  let ?claim = "set_upload_state receiver_iteration (\<lambda>s. s\<lparr>upload_state := UPLOAD_WAIT_RESULT, response_available := False\<rparr>)"
  let ?t1 = "exec ?claim t"
  have s1: "sent fd f ((ffd, FReg i 0) # F) s ?t1"
    by (rule sent_exec [OF s0 mild_set]) (simp add: mild_def)
  obtain r1 m1 t2 where l: "upload_send_loop receiver_iteration fd ffd n ?t1 = ((r1, m1), t2)" by (metis surj_pair)
  from upload_send_loop_spec [OF l s1] n obtain p off where
    p: "sent fd (f @ p) ((ffd, FReg i off) # F) s t2" "i < next_ino s \<longrightarrow> prefix p ?c"
      "i < next_ino s \<longrightarrow> r1 = 0 \<longrightarrow> p = ?c" by auto
  obtain x t3 where cl: "run_state (sys_close ffd) t2 = (x, t3)" by fastforce
  note s3 = sent_close [OF p(1) ffd cl]
  show ?thesis
  proof (cases "r1 = 0")
    case False
    with run l cl have "r = -1" "u = exec (sys_shutdown fd) t3"
      by (auto simp: upload_transfer_file_def split_def)
    with sent_exec [OF s3 mild_basics(5)] p(2) show ?thesis
      by (intro exI [of _ "f @ p"]) (simp add: sent_outcome_def)
  next
    case True
    obtain a t4 where w: "run_state (wait_for_response receiver_iteration (MESSAGE_MAX_SIZE + 1)) t3 = (a, t4)"
      by fastforce
    note s4 = sent_run [OF s3 mild_wait w]
    let ?idle = "set_upload_state receiver_iteration (\<lambda>s. s\<lparr>upload_state := UPLOAD_IDLE\<rparr>)"
    have s5: "sent fd (f @ p) F s (exec ?idle t4)" by (rule sent_exec [OF s4 mild_set]) (simp add: mild_def)
    have "(r = -1 \<and> u = t4) \<or> ((r = 0 \<or> r = 1) \<and> u = exec ?idle t4)"
      using run l cl w True by (auto simp: upload_transfer_file_def split_def split: option.splits if_splits)
    with s4 s5 p(2,3) True show ?thesis by (auto simp: sent_outcome_def)
  qed
qed

lemma upload_request_spec:
  assumes run: "run_state (upload_request receiver_iteration fd ffd meta n rs) t = ((r, msg), u)"
    and s0: "sent fd [] ((ffd, FReg i 0) # F) s t" and ffd: "ffd \<notin> fst ` set F"
    and n: "i < next_ino s \<longrightarrow> n = length (content (inodes s i))" and meta: "length meta \<le> MESSAGE_MAX_SIZE"
  shows "\<exists>p. sent fd p F s u \<and> sent_outcome (i < next_ino s) (frame MSG_UPLOAD meta) (content (inodes s i)) r p"
proof -
  let ?f = "frame MSG_UPLOAD meta" and ?c = "content (inodes s i)"
  let ?t1 = "exec (interleave receiver_iteration) t"
  have s1: "sent fd [] ((ffd, FReg i 0) # F) s ?t1" by (rule sent_exec [OF s0 mild_interleave])
  obtain l t2 where l: "run_state mutex_lock ?t1 = (l, t2)" by fastforce
  note s2 = sent_run [OF s1 mild_basics(2) l]
  obtain x t2' where c2: "run_state (sys_close ffd) t2 = (x, t2')" by fastforce
  note s2' = sent_close [OF s2 ffd c2]
  show ?thesis
  proof (cases "l = 0 \<and> upload_state t2 = UPLOAD_IDLE")
    case False
    with run l c2 have "u = t2'" "r = -1 \<or> r = 1"
      by (auto simp: upload_request_def split_def split: if_splits)
    with s2' show ?thesis by (intro exI [of _ "[]"]) (auto simp: sent_outcome_def)
  next
    case True
    let ?t3 = "t2\<lparr>upload_state := UPLOAD_WAIT_READY, response_available := False, connection_closed := False\<rparr>"
    have s3: "sent fd [] ((ffd, FReg i 0) # F) s ?t3" by (rule sent_mild [OF s2]) (simp add: mild_def)
    obtain q t4 where sd: "run_state (send_text_frame fd MSG_UPLOAD meta) ?t3 = (q, t4)" by fastforce
    from usend.any [OF sd] obtain w where w: "wrote fd w ?t3 t4" "prefix w ?f" "q = 0 \<longleftrightarrow> w = ?f" by metis
    have s4: "sent fd w ((ffd, FReg i 0) # F) s t4" using sent_wrote [OF s3 w(1)] by simp
    obtain y t4' where c4: "run_state (sys_close ffd) t4 = (y, t4')" by fastforce
    note s4' = sent_close [OF s4 ffd c4]
    show ?thesis
    proof (cases "q = 0")
      case False
      with run l True sd c4 have "r = -1" "u = exec (sys_shutdown fd) t4'"
        by (auto simp: upload_request_def split_def)
      with sent_exec [OF s4' mild_basics(5)] w(2) show ?thesis
        by (intro exI [of _ w]) (auto simp: sent_outcome_def)
    next
      case q0: True
      with w(3) have wf: "w = ?f" by simp
      obtain a t5 where wt: "run_state (wait_for_response receiver_iteration (MESSAGE_MAX_SIZE + 1)) t4 = (a, t5)"
        by fastforce
      note s5 = sent_run [OF s4 [unfolded wf] mild_wait wt]
      obtain z t5' where c5: "run_state (sys_close ffd) t5 = (z, t5')" by fastforce
      note s5' = sent_close [OF s5 ffd c5]
      let ?idle = "set_upload_state receiver_iteration (\<lambda>s. s\<lparr>upload_state := UPLOAD_IDLE\<rparr>)"
      have s6: "sent fd ?f ((ffd, FReg i 0) # F) s (exec ?idle t5)"
        by (rule sent_exec [OF s5 mild_set]) (simp add: mild_def)
      obtain v t6' where c6: "run_state (sys_close ffd) (exec ?idle t5) = (v, t6')" by fastforce
      note s6' = sent_close [OF s6 ffd c6]
      consider (none) "r = -1" "u = t5'" | (refused) "r = 1" "u = t6'"
        | (go) "run_state (upload_transfer_file receiver_iteration fd ffd n rs) t5 = ((r, msg), u)"
        using run l True sd q0 wt c5 c6
        by (auto simp: upload_request_def split_def split: option.splits if_splits)
      then show ?thesis
      proof cases
        case none
        with s5' show ?thesis by (intro exI [of _ ?f]) (simp add: sent_outcome_def)
      next
        case refused
        with s6' show ?thesis by (intro exI [of _ ?f]) (simp add: sent_outcome_def)
      next
        case go
        from client_transfer_spec [OF go s5 ffd n] show ?thesis .
      qed
    qed
  qed
qed

text \<open>From the path to the result. The file is opened, and closed again in every case; anything but a
  refusal before the request needs a regular file of an allowed size with a valid name.\<close>

lemma open_read_spec:
  assumes "run_state (sys_open_read d name) s = (k, u)"
  shows "k = -1 \<and> blip s u \<or>
    (\<exists>i. entry s d name = Some i \<and> k = fresh_fd (fds s) \<and> blip (s\<lparr>fds := (k, FReg i 0) # fds s\<rparr>) u)"
  using assms
  by (auto simp: sys_open_read_def fs_run alloc_fd_def entry_def split: list.splits fault.splits option.splits)

definition uploadable :: "string \<Rightarrow> inode \<Rightarrow> bool" where
  "uploadable path nd \<longleftrightarrow> is_valid_shared_filename (basename path) \<and> ikind nd = IReg \<and>
     length (content nd) \<le> FILE_MAX_SIZE"

definition upload_meta :: "string \<Rightarrow> byte list \<Rightarrow> string" where
  "upload_meta path c = basename path @ ''|'' @ nat_str (length c)"

lemma upload_opened_spec:
  assumes run: "run_state (upload_opened receiver_iteration fd ffd path rs) t = ((r, msg), u)"
    and s0: "sent fd [] ((ffd, FReg i 0) # F) s t" and ffd: "ffd \<notin> fst ` set F"
    and eq: "inodes t i = inodes s i"
  shows "\<exists>p. sent fd p F s u \<and> sent_outcome (i < next_ino s) (frame MSG_UPLOAD (upload_meta path (content (inodes s i))))
      (content (inodes s i)) r p \<and> (\<not> uploadable path (inodes s i) \<longrightarrow> r = 1 \<and> p = [])"
proof -
  let ?c = "content (inodes s i)"
  obtain st t1 where fs: "run_state (sys_fstat ffd) t = (st, t1)" by fastforce
  have ino: "inodes t i = inodes s i" "fds t = (ffd, FReg i 0) # F" using s0 eq by (auto simp: sent_def)
  note stat = sys_fstat_spec [OF fs sent_fd_obj [OF s0]]
  then have bl: "blip (t\<lparr>fds := fds t\<rparr>) t1" by simp
  have st: "st = None \<or> st = Some (ikind (inodes s i), int (length ?c))" using stat ino by auto
  from sent_blip [OF s0 bl] ino have s1: "sent fd [] ((ffd, FReg i 0) # F) s t1" by simp
  obtain x t2 where cl: "run_state (sys_close ffd) t1 = (x, t2)" by fastforce
  note s2 = sent_close [OF s1 ffd cl]
  show ?thesis
  proof (cases "st \<noteq> None \<and> uploadable path (inodes s i)")
    case False
    have "r = 1 \<and> u = t2"
      using run fs st cl False
      by (auto simp: upload_opened_def uploadable_def Let_def split_def split: option.splits if_splits)
    with s2 show ?thesis by (intro exI [of _ "[]"]) (simp add: sent_outcome_def)
  next
    case True
    then have up: "uploadable path (inodes s i)" by simp
    have "length (nat_str (length ?c)) \<le> 8" using up
      by (intro length_nat_str) (auto simp: FILE_MAX_SIZE_def uploadable_def)
    with up valid_filename_length [of "basename path"]
    have m: "length (upload_meta path ?c) \<le> MESSAGE_MAX_SIZE"
      by (simp add: upload_meta_def uploadable_def MESSAGE_MAX_SIZE_def)
    have "snprintf (MESSAGE_MAX_SIZE + 1) (upload_meta path ?c) = (int (length (upload_meta path ?c)), upload_meta path ?c)"
      using m by (simp add: snprintf_def)
    then have "run_state (upload_request receiver_iteration fd ffd (upload_meta path ?c) (length ?c) rs) t1 = ((r, msg), u)"
      using run fs st True up m
      by (auto simp: upload_opened_def uploadable_def upload_meta_def Let_def split_def split: option.splits if_splits)
    from upload_request_spec [OF this s1 ffd _ m] up show ?thesis by blast
  qed
qed

lemma upload_client_upload_spec:
  assumes run: "run_state (upload_client_upload receiver_iteration fd path rs) s = ((r, msg), u)" and rs: "0 < rs"
  shows "(\<exists>i p. entry s (path_dir path) (basename path) = Some i \<and> uploadable path (inodes s i) \<and> sent fd p (fds s) s u \<and>
      sent_outcome (i < next_ino s) (frame MSG_UPLOAD (upload_meta path (content (inodes s i)))) (content (inodes s i)) r p) \<or>
    r = 1 \<and> sent fd [] (fds s) s u"
proof -
  obtain k t where op: "run_state (sys_open_read (path_dir path) (basename path)) s = (k, t)" by fastforce
  from open_read_spec [OF op]
  consider (no) "k = -1" "blip (s\<lparr>fds := fds s\<rparr>) t"
    | (yes) i where "entry s (path_dir path) (basename path) = Some i" "k = fresh_fd (fds s)"
        "blip (s\<lparr>fds := (k, FReg i 0) # fds s\<rparr>) t"
    by auto
  then show ?thesis
  proof cases
    case no
    with sent_blip [OF sent_start no(2)] run rs op show ?thesis by (auto simp: upload_client_upload_def)
  next
    case yes
    have k: "0 \<le> k" "k \<notin> fst ` set (fds s)" using yes(2) fresh_fd_props [of "fds s"] by auto
    have "run_state (upload_opened receiver_iteration fd k path rs) t = ((r, msg), u)"
      using run rs op k(1) by (simp add: upload_client_upload_def)
    from upload_opened_spec [OF this sent_blip [OF sent_start yes(3)] k(2)] blipD [OF yes(3)] yes(1)
    show ?thesis by (cases "uploadable path (inodes s i)") auto
  qed
qed

subsection \<open>An example client\<close>

text \<open>A logged-in client whose server has sent \<open>w\<close>, with one file in its directory.\<close>

definition desk :: "byte list \<Rightarrow> chat" where
  "desk w = \<lparr>errno = E0, pid = 200, tid = 1, fds = [(3, FSock)],
     socks = (\<lambda>_. \<lparr>inbox = w, outbox = [], shut = False\<rparr>),
     dirs = (\<lambda>p. if p = ''.'' then \<lparr>dkind = DDir, ents = [(''a.txt'', 0)]\<rparr> else \<lparr>dkind = DMissing, ents = []\<rparr>),
     inodes = (\<lambda>_. \<lparr>ikind = IReg, content = ''hello'', imode = 420\<rparr>), next_ino = 1, ofd_locks = [],
     mono_ns = 0, net_script = [], fs_script = [], mtx_script = [], clk_script = [],
     client_socket = 3, client_running = True, upload_state = UPLOAD_IDLE, response_available = False,
     connection_closed = False, response_type = 0, response_payload = [], receiver_alive = True,
     file_list_active = False, file_list_count = 0, console = [], sched = [], stuck = False\<rparr>"

lemma desk_upload_defs:
  "path_dir ''a.txt'' = ''.''" "basename ''a.txt'' = ''a.txt''" "entry (desk w) ''.'' ''a.txt'' = Some 0"
  "next_ino (desk w) = 1" "fds (desk w) = [(3, FSock)]" "outbox (socks (desk w) x) = []"
  "content (inodes (desk w) i) = ''hello''"
  by (simp_all add: path_dir_def basename_def strrchr_def entry_def desk_def)

end
