(* ===== verification/Quiet_Calls.thy ===== *)
theory Quiet_Calls
  imports Download_Client_Spec
begin

section \<open>What the file calls of the client leave alone\<close>

text \<open>
  A download works on files while the connection and the other thread wait. Two frames say so:
  \<open>offline\<close> for the network and \<open>steady\<close> for the mutexes. What both need of the write loop is proved
  once, for every frame that a single write respects.
\<close>

locale write_frame = frame_rel R for R :: "'z os_scheme \<Rightarrow> 'z os_scheme \<Rightarrow> bool" +
  assumes write_rel: "state_io_rel R (sys_write fd bs)"
begin

lemma write_loop: "R s (snd (client_write_loop fd b k s))"
proof (induction fd b k s rule: client_write_loop.induct)
  case (1 fd b k s)
  obtain w t where w: "run_state (sys_write fd (drop k b)) s = (w, t)" by fastforce
  have st: "R s t" by (rule state_io_relD [OF write_rel w])
  show ?case
    unfolding client_write_loop.simps [of fd b k s]
    using "1.IH" w st refl by (auto intro: trans)
qed

lemma write_all: "state_io_rel R (client_write_all_file fd b)"
  using write_loop [of _ fd b 0] by (auto simp: client_write_all_file_def state_io_rel_def)

end

subsection \<open>The network\<close>

definition offline :: "'z os_scheme \<Rightarrow> 'z os_scheme \<Rightarrow> bool" where
  "offline s u \<longleftrightarrow> socks u = socks s \<and> net_script u = net_script s \<and> (\<forall>x. is_sock s x \<longrightarrow> is_sock u x)"

interpretation offline: frame_rel offline
  by unfold_locales (auto simp: offline_def)

lemma offline_calm: "offline s u \<Longrightarrow> calm fd s \<Longrightarrow> calm fd u"
  by (auto simp: offline_def calm_def)

lemma offline_basics:
  "state_io_rel offline fs_fault" "state_io_rel offline (fail e)" "state_io_rel offline (set_errno e)"
  by (auto simp: state_io_rel_def fs_fault_def fail_def set_errno_def offline_def is_sock_def fd_obj_def
      split: list.splits)

lemma offline_write: "state_io_rel offline (sys_write fd bs)"
  by (auto simp: state_io_rel_def sys_write_def fs_fault_def fail_def set_errno_def Let_def offline_def is_sock_def
      fd_obj_def update_conv' split: list.splits fault.splits option.splits fdobj.splits)

interpretation offline_w: write_frame offline
  by unfold_locales (rule offline_write)

lemma offline_alloc: "state_io_rel offline (alloc_fd obj)"
proof -
  have "map_of F (fresh_fd F) = None" for F using fresh_fd_props(1) [of F] by (simp add: map_of_eq_None_iff)
  then show ?thesis by (auto simp: state_io_rel_def alloc_fd_def offline_def is_sock_def fd_obj_def)
qed

lemma offline_paths:
  "state_io_rel offline (sys_stat_dir p)" "state_io_rel offline (sys_access p name)"
  "state_io_rel offline (sys_mkdir p)" "state_io_rel offline (sys_unlink p name)" "state_io_rel offline (sys_create p name m)"
  unfolding sys_stat_dir_def sys_access_def sys_mkdir_def sys_unlink_def sys_create_def fail_none_def
  by (intro offline.io_sys offline_basics offline_alloc offline.io_modify;
      simp add: offline_def is_sock_def fd_obj_def del_entry_def create_inode_def add_entry_def)+

lemma offline_prepare: "state_io_rel offline (download_prepare f)"
  unfolding download_prepare_def ensure_download_directory_def
  by (intro offline.io_sys offline_paths)

subsection \<open>The mutexes\<close>

definition steady :: "'z os_scheme \<Rightarrow> 'z os_scheme \<Rightarrow> bool" where
  "steady s u \<longleftrightarrow> mtx_script u = mtx_script s"

interpretation steady: frame_rel steady
  by unfold_locales (auto simp: steady_def)

lemma steady_basics:
  "state_io_rel steady fs_fault" "state_io_rel steady (fail e)" "state_io_rel steady (set_errno e)"
  "state_io_rel steady (alloc_fd obj)"
  by (auto simp: state_io_rel_def fs_fault_def fail_def set_errno_def alloc_fd_def steady_def split: list.splits)

lemma steady_blip: "state_io_rel blip m \<Longrightarrow> state_io_rel steady m"
  by (erule io_rel_mono) (simp add: steady_def blipD)

lemma steady_calls:
  "state_io_rel steady (sys_stat_dir p)" "state_io_rel steady (sys_access p name)"
  "state_io_rel steady (sys_mkdir p)" "state_io_rel steady (sys_unlink p name)" "state_io_rel steady (sys_create p name m)"
  "state_io_rel steady (sys_link p old new)" "state_io_rel steady (sys_write fd bs)" "state_io_rel steady (sys_close fd)"
  "state_io_rel steady (sys_fsync fd)" "state_io_rel steady (sys_fchmod fd m)"
  unfolding sys_stat_dir_def sys_access_def sys_mkdir_def sys_unlink_def sys_create_def fail_none_def sys_link_def
    sys_write_def sys_close_def sys_fsync_def sys_fchmod_def
  by (intro steady.io_sys steady_basics steady.io_modify;
      simp add: steady_def del_entry_def create_inode_def add_entry_def)+

lemma steady_took: "took fd k s u \<Longrightarrow> steady s u"
  by (simp add: took_def net_rest_def steady_def)

lemma steady_recv_all: "state_io_rel steady (recv_all fd n)"
proof (rule state_io_relI)
  fix x and s u :: "'z os_scheme"
  assume "run_state (recv_all fd n) s = (x, u)"
  then have "run_state (recv_all fd n) s = ((fst x, snd x), u)" by simp
  from recv_all_took [OF this] obtain k where "took fd k s u" by metis
  then show "steady s u" by (rule steady_took)
qed

interpretation steady_w: write_frame steady
  by unfold_locales (rule steady_calls)

end
