(* ===== verification/Transfer_Properties.thy ===== *)
theory Transfer_Properties
  imports Upload_Client_Spec Quiet_Calls File_Properties "HOL-Library.Code_Target_Nat"
begin

section \<open>The properties of file transfers, seen from the client\<close>

text \<open>
  What a download leaves in the download directory, what an upload puts on the wire, and the two
  compositions of the client with the file manager of the server. \<open>downloaded\<close> is what the user
  sees: the files of the download directory under names a request can carry.
\<close>

definition downloaded :: "'z os_scheme \<Rightarrow> string \<rightharpoonup> inode" where
  "downloaded s = (\<lambda>n. map_option (inodes s) (entry s DL n)) |` Collect is_valid_shared_filename"

definition wf_downloads :: "'z os_scheme \<Rightarrow> bool" where
  "wf_downloads s \<longleftrightarrow> dl_wf s \<and> (\<forall>n i. entry s DL n = Some i \<longrightarrow> i < next_ino s)"

lemma temporary_name_hidden: "\<not> is_valid_shared_filename (temporary_name p)"
proof -
  have "\<not> isalnum CHR ''.''" by code_simp
  then show ?thesis by (simp add: is_valid_shared_filename_def temporary_name_def del: filename_chars_ok.simps)
qed

lemma downloaded_apart:
  assumes "apart s u" and "wf_downloads s"
  shows "downloaded u = downloaded s"
proof
  fix n
  show "downloaded u n = downloaded s n"
  proof (cases "is_valid_shared_filename n")
    case True
    then have "n \<noteq> temporary_name (pid s)" using temporary_name_hidden by auto
    with assms have "entry u DL n = entry s DL n" "\<And>i. entry s DL n = Some i \<Longrightarrow> inodes u i = inodes s i"
      by (auto simp: apart_def wf_downloads_def)
    then show ?thesis by (cases "entry s DL n") (simp_all add: downloaded_def restrict_map_def)
  qed (simp add: downloaded_def)
qed

lemma downloaded_saved:
  assumes "saved fd k f b s u" and "wf_downloads s" and "is_valid_shared_filename f"
  shows "f \<notin> dom (downloaded s) \<and> (\<exists>x. content x = b \<and> downloaded u = (downloaded s)(f \<mapsto> x))"
proof -
  from assms(1) obtain i where i: "entry u DL f = Some i" "content (inodes u i) = b" by (auto simp: saved_def)
  have free: "entry s DL f = None" using assms(1,2) by (simp add: saved_def wf_downloads_def)
  have "downloaded u n = ((downloaded s)(f \<mapsto> inodes u i)) n" for n
  proof (cases "n = f \<or> \<not> is_valid_shared_filename n")
    case True
    with i(1) assms(3) show ?thesis by (auto simp: downloaded_def restrict_map_def)
  next
    case False
    then have "n \<noteq> temporary_name (pid s)" using temporary_name_hidden by auto
    with False assms(1,2) have "entry u DL n = entry s DL n" "\<And>i. entry s DL n = Some i \<Longrightarrow> inodes u i = inodes s i"
      by (auto simp: saved_def wf_downloads_def)
    with False show ?thesis by (cases "entry s DL n") (simp_all add: downloaded_def restrict_map_def)
  qed
  then have "downloaded u = (downloaded s)(f \<mapsto> inodes u i)" by blast
  moreover have "f \<notin> dom (downloaded s)" using free by (simp add: dom_def downloaded_def restrict_map_def)
  ultimately show ?thesis using i(2) by blast
qed

lemma desk_wf: "wf_downloads (desk w)" "calm 3 (desk w)"
  by (simp_all add: wf_downloads_def dl_wf_def desk_def entry_def FILE_DOWNLOAD_DIRECTORY_def calm_def is_sock_def
      fd_obj_def)

subsection \<open>Downloads\<close>

lemma outcome_view:
  assumes "client_outcome fd f n r s u" and "wf_downloads s" and "is_valid_shared_filename f"
  shows "fds u = fds s \<and> (\<forall>x. x \<noteq> fd \<longrightarrow> socks u x = socks s x) \<and> outbox (socks u fd) = outbox (socks s fd) \<and>
    (r = -1 \<and> downloaded u = downloaded s \<or>
     n \<le> length (inbox (socks s fd)) \<and> inbox (socks u fd) = drop n (inbox (socks s fd)) \<and>
     (r = 2 \<and> downloaded u = downloaded s \<or>
      r = 1 \<and> f \<notin> dom (downloaded s) \<and>
        (\<exists>x. content x = take n (inbox (socks s fd)) \<and> downloaded u = (downloaded s)(f \<mapsto> x))))"
proof -
  have dr: "downloaded u = downloaded s" if "drained fd k s u" for k
    by (rule downloaded_apart [OF _ assms(2)]) (use that in \<open>simp add: drained_def\<close>)
  from assms(1) consider (lost) k where "r = -1" "drained fd k s u"
    | (two) "r = 2" "n \<le> length (inbox (socks s fd))" "drained fd n s u"
    | (one) "r = 1" "n \<le> length (inbox (socks s fd))" "saved fd n f (take n (inbox (socks s fd))) s u"
    by (auto simp: client_outcome_def)
  then show ?thesis
  proof cases
    case lost
    with dr show ?thesis by (auto simp: drained_def)
  next
    case two
    with dr show ?thesis by (auto simp: drained_def)
  next
    case one
    with downloaded_saved [OF one(3) assms(2,3)] show ?thesis by (auto simp: saved_def)
  qed
qed

text \<open>C9: whatever fails on the way, a message handed to the download client leaves the open
  descriptors, the outgoing streams and all other sockets alone, and the downloaded files are
  either exactly what they were, or exactly one is new: the announced one, whose name was free,
  with exactly the announced bytes. A message that is no announcement changes nothing; after a
  handled one the stream stands right behind the announced bytes, whether or not they could be
  stored.\<close>

theorem client_download_is_all_or_nothing:
  assumes "run_state (download_client_handle_server_message fd t p (MESSAGE_MAX_SIZE + 1)) s = ((r, msg), u)"
    and "wf_downloads s"
  shows "fds u = fds s \<and> (\<forall>x. x \<noteq> fd \<longrightarrow> socks u x = socks s x) \<and> outbox (socks u fd) = outbox (socks s fd) \<and>
    (r = 0 \<and> u = s \<or> r = -1 \<and> downloaded u = downloaded s \<or>
     (\<exists>f n. t = MSG_RESPONSE \<and> parse_download_ready p FILE_NAME_MAX_SIZE = Ready f n \<and>
        n \<le> length (inbox (socks s fd)) \<and> inbox (socks u fd) = drop n (inbox (socks s fd)) \<and>
        (r = 2 \<and> downloaded u = downloaded s \<or>
         r = 1 \<and> f \<notin> dom (downloaded s) \<and>
           (\<exists>x. content x = take n (inbox (socks s fd)) \<and> downloaded u = (downloaded s)(f \<mapsto> x)))))"
proof -
  have "154 \<le> MESSAGE_MAX_SIZE + 1" by (simp add: MESSAGE_MAX_SIZE_def)
  note spec = download_handle_spec [OF assms(1) this]
  show ?thesis
  proof (cases "if t = MSG_RESPONSE then parse_download_ready p FILE_NAME_MAX_SIZE else NotReady")
    case (Ready f n)
    then have R: "t = MSG_RESPONSE" "parse_download_ready p FILE_NAME_MAX_SIZE = Ready f n" by (auto split: if_splits)
    from spec R have "client_outcome fd f n r s u" by simp
    from outcome_view [OF this assms(2)] parse_download_ready_sound [OF R(2)] R show ?thesis by blast
  qed (use spec in auto)
qed

theorem client_download_is_all_or_nothing_witness:
  "fds (exec (download_client_handle_server_message 3 MSG_RESPONSE ''DOWNLOAD_READY b.txt|3'' (MESSAGE_MAX_SIZE + 1))
     (desk ''newrest'')) = [(3, FSock)]"
proof -
  let ?m = "download_client_handle_server_message 3 MSG_RESPONSE ''DOWNLOAD_READY b.txt|3'' (MESSAGE_MAX_SIZE + 1)"
  obtain r msg u where run: "run_state ?m (desk ''newrest'') = ((r, msg), u)" by (metis surj_pair)
  from client_download_is_all_or_nothing [OF run desk_wf(1)] run show ?thesis by (simp add: desk_def)
qed

lemma announcement_parsed:
  assumes "is_valid_shared_filename f" and "n \<le> FILE_MAX_SIZE"
  shows "parse_download_ready (''DOWNLOAD_READY '' @ f @ ''|'' @ nat_str n) FILE_NAME_MAX_SIZE = Ready f n"
proof -
  have "n \<le> ULLONG_MAX" using assms(2) by (simp add: ULLONG_MAX_def FILE_MAX_SIZE_def)
  moreover have "strncmp_eq (''DOWNLOAD_READY '' @ xs) DOWNLOAD_READY_prefix (length DOWNLOAD_READY_prefix)" for xs
    by (simp add: DOWNLOAD_READY_prefix_def strncmp_eq_def)
  moreover have "f \<noteq> []" using assms(1) by (auto simp: is_valid_shared_filename_def)
  ultimately show ?thesis
    using assms name_bar [OF assms(1), of "nat_str n"] number_bar [of n] valid_filename_length [of f]
    by (simp add: parse_download_ready_def DOWNLOAD_READY_prefix_def strtoull_nat_str FILE_NAME_MAX_SIZE_def Let_def)
qed

text \<open>The announcement the server sends for a valid name and an allowed size is read by the
  client as that name and that size; whatever is accepted has a valid name and an allowed size.\<close>

theorem download_announcement_round_trip:
  "(is_valid_shared_filename f \<and> n \<le> FILE_MAX_SIZE \<longrightarrow>
     parse_download_ready (''DOWNLOAD_READY '' @ f @ ''|'' @ nat_str n) FILE_NAME_MAX_SIZE = Ready f n) \<and>
   (parse_download_ready p FILE_NAME_MAX_SIZE = Ready g k \<longrightarrow> is_valid_shared_filename g \<and> k \<le> FILE_MAX_SIZE)"
  using announcement_parsed parse_download_ready_sound by blast

theorem download_announcement_round_trip_witness:
  "parse_download_ready (''DOWNLOAD_READY '' @ ''b.txt'' @ ''|'' @ nat_str 3) FILE_NAME_MAX_SIZE = Ready ''b.txt'' 3"
proof -
  have "is_valid_shared_filename ''b.txt''" by code_simp
  then show ?thesis using download_announcement_round_trip [of "''b.txt''" 3] by (simp add: FILE_MAX_SIZE_def)
qed

subsection \<open>A download over a working connection\<close>

lemma download_loop_calm:
  fixes s u :: "'z os_scheme"
  assumes "run_state (download_loop fd ffd n w) s = ((got_all, w'), u)" and "calm fd s" and "n \<le> length (inbox (socks s fd))"
  shows got_all
  using assms
proof (induction fd ffd n w arbitrary: s rule: download_loop.induct)
  case (1 fd ffd n w s)
  show ?case
  proof (cases "0 < n")
    case False
    with "1.prems"(1) show ?thesis by (simp add: download_loop.simps [of fd ffd n w])
  next
    case True
    define c where "c = (if n > FILE_CHUNK_SIZE then FILE_CHUNK_SIZE else n)"
    have "c \<le> n" by (simp add: c_def)
    with recv_all_calm [OF "1.prems"(2), of c] "1.prems"(3) obtain b t where
      rx: "run_state (recv_all fd c) s = ((0, b), t)" "took fd c s t" "calm fd t" by (metis le_trans)
    let ?wr = "if \<not> w then do { w \<leftarrow> client_write_all_file ffd b; ret (w \<noteq> 0) } else ret True"
    obtain w1 v where wr: "run_state ?wr t = (w1, v)" by fastforce
    have "state_io_rel offline ?wr" by (intro offline.io_sys offline_w.write_all)
    then have off: "offline t v" using wr by (rule state_io_relD)
    have rec: "run_state (download_loop fd ffd (n - c) w1) v = ((got_all, w'), u)"
      using "1.prems"(1) [unfolded download_loop.simps [of fd ffd n w]] True rx(1) wr
      by (simp add: c_def [symmetric] split: if_splits)
    have "inbox (socks v fd) = drop c (inbox (socks s fd))"
      using off took_inbox [OF rx(2)] by (simp add: offline_def)
    then have "n - c \<le> length (inbox (socks v fd))" using "1.prems"(3) by simp
    from "1.IH" [OF True c_def _ rec offline_calm [OF off rx(3)] this] show ?thesis by simp
  qed
qed

lemma download_receive_calm:
  assumes "run_state (download_receive fd f n rs) s = ((r, msg), u)" and "calm fd s" and "n \<le> length (inbox (socks s fd))"
  shows "r \<noteq> -1"
proof -
  obtain failed ffd t where a: "run_state (download_prepare f) s = ((failed, ffd), t)" by (metis surj_pair)
  have off: "offline s t" by (rule state_io_relD [OF offline_prepare a])
  obtain g w v where b: "run_state (download_loop fd ffd n failed) t = ((g, w), v)" by (metis surj_pair)
  have g using download_loop_calm [OF b offline_calm [OF off assms(2)]] off assms(3) by (simp add: offline_def)
  obtain w' v' where c: "run_state (download_finish_file ffd w) v = (w', v')" by fastforce
  from assms(1) a b c \<open>g\<close> have "run_state (download_publish f n w' rs) v' = ((r, msg), u)"
    by (simp add: download_receive_def)
  then show ?thesis by (auto simp: download_publish_def Let_def split_def split: if_splits)
qed

text \<open>C6: a download from one end to the other. When the server's handler returns 0 and the client
  reads the stream it produced over a working connection, either the server's answer was an error
  frame, or the client's receiver reads the announcement and, in the same step, all the bytes
  behind it: the stream stands where the next message begins, and unless the client reports a
  local failure the new downloaded file has the bytes of the shared one.\<close>

theorem download_arrives:
  assumes server: "run_state (file_manager_handle_download fd user f) s = (0, s')" "wf_locks s" "wf_storage s"
      "outbox (socks s fd) = []" "is_valid_shared_filename f"
    and client: "calm cfd c" "wf_downloads c" "inbox (socks c cfd) = outbox (socks s' fd) @ later"
    and receive: "run_state (client_receive_on cfd (MESSAGE_MAX_SIZE + 1)) c = ((q, t, p), c1)"
    and handle: "run_state (download_client_handle_server_message cfd t (cstr p) (MESSAGE_MAX_SIZE + 1)) c1 = ((r, msg), c2)"
  shows "(\<exists>e. outbox (socks s' fd) = frame MSG_ERROR e) \<or>
    (\<exists>x. shared s f = Some x \<and> q = 0 \<and> t = MSG_RESPONSE \<and> inbox (socks c2 cfd) = later \<and>
      (r = 2 \<and> downloaded c2 = downloaded c \<or>
       r = 1 \<and> f \<notin> dom (downloaded c) \<and> (\<exists>y. content y = content x \<and> downloaded c2 = (downloaded c)(f \<mapsto> y))))"
proof (cases "\<exists>e. outbox (socks s' fd) = frame MSG_ERROR e")
  case False
  with handle_download_spec [OF server(1-3)] server(4) obtain x where
    x: "stored s f = Some x" "length (content x) \<le> FILE_MAX_SIZE"
      "outbox (socks s' fd) = DOWNLOAD_READY f (length (content x)) @ content x"
    by (auto simp: download_outcome_def conversed_def served_def)
  let ?n = "length (content x)"
  let ?p = "''DOWNLOAD_READY '' @ f @ ''|'' @ nat_str ?n"
  note parsed = announcement_parsed [OF server(5) x(2)]
  have len: "length ?p \<le> MESSAGE_MAX_SIZE"
    using length_nat_str [of ?n 8] x(2) valid_filename_length [OF server(5)]
    by (simp add: MESSAGE_MAX_SIZE_def FILE_MAX_SIZE_def)
  have inb: "inbox (socks c cfd) = frame MSG_RESPONSE ?p @ content x @ later" using client(3) x(3) by (simp add: DOWNLOAD_READY_def)
  have "is_valid_message_type MSG_RESPONSE" by code_simp
  from crecv.accept_complete [OF client(1) this len inb] receive have q: "q = 0" "t = MSG_RESPONSE" "p = ?p" and calm: "calm cfd c1"
    by auto
  from client_receive_ok [OF receive [unfolded q]] inb len have inb1: "inbox (socks c1 cfd) = content x @ later"
    and tk: "\<exists>k. took cfd k c c1" by auto
  have "is_cstr ?p" using valid_filename_cstr [OF server(5)] by (simp add: NUL_def)
  then have cp: "cstr ?p = ?p" by (rule cstr_id)
  have ap: "apart c c1" using tk took_apart by blast
  note same = downloaded_apart [OF ap client(2)]
  have wf1: "wf_downloads c1" using tk client(2) ap
    by (auto simp: wf_downloads_def took_def net_rest_def dl_wf_def entry_def)
  have rec: "run_state (download_receive cfd f ?n (MESSAGE_MAX_SIZE + 1)) c1 = ((r, msg), c2)"
    using handle q parsed cp by (simp add: download_client_handle_server_message_def)
  have "length (''DOWNLOAD_SUCCESS '' @ f @ '' '' @ nat_str ?n) < MESSAGE_MAX_SIZE + 1"
    by (rule success_text_fits [OF server(5) x(2)]) (simp add: MESSAGE_MAX_SIZE_def)
  note view = outcome_view [OF download_receive_spec [OF rec server(5) this] wf1 server(5)]
  have "r \<noteq> -1" using download_receive_calm [OF rec calm] inb1 by simp
  moreover have "shared s f = Some x" using x(1) server(5) by (simp add: shared_def)
  ultimately show ?thesis using view inb1 same q by (simp add: MESSAGE_MAX_SIZE_def)
qed simp

text \<open>A server whose clock and logger do not answer.\<close>

definition archive :: server where
  "archive = library\<lparr>clk_script := [(Fault EINVAL, 0)], log_script := replicate 5 (Fault EINVAL)\<rparr>"

lemma archive_wf: "wf_locks archive" "wf_storage archive" "outbox (socks archive 3) = []"
  using library_wf(1,2) library_empty by (simp_all add: archive_def wf_locks_def wf_storage_def entry_def)

lemma archive_serves: "eval_in (file_manager_handle_download 3 ''alice'' ''a.txt'') archive = 0"
  by code_simp

theorem download_arrives_witness:
  "\<exists>s' p c1 r msg c2. run_state (file_manager_handle_download 3 ''alice'' ''a.txt'') archive = (0, s') \<and>
     run_state (client_receive_on 3 (MESSAGE_MAX_SIZE + 1)) (desk (outbox (socks s' 3))) = (p, c1) \<and>
     run_state (download_client_handle_server_message 3 (fst (snd p)) (cstr (snd (snd p))) (MESSAGE_MAX_SIZE + 1)) c1 = ((r, msg), c2) \<and>
     ((\<exists>e. outbox (socks s' 3) = frame MSG_ERROR e) \<or> inbox (socks c2 3) = [] \<and> (r = 1 \<or> r = 2))"
proof -
  let ?s = "exec (file_manager_handle_download 3 ''alice'' ''a.txt'') archive"
  let ?c = "desk (outbox (socks ?s 3))"
  have run: "run_state (file_manager_handle_download 3 ''alice'' ''a.txt'') archive = (0, ?s)"
    using archive_serves by (metis prod.collapse)
  obtain q t p c1 where rx: "run_state (client_receive_on 3 (MESSAGE_MAX_SIZE + 1)) ?c = ((q, t, p), c1)"
    by (metis surj_pair)
  obtain r msg c2 where hd: "run_state (download_client_handle_server_message 3 t (cstr p) (MESSAGE_MAX_SIZE + 1)) c1 = ((r, msg), c2)"
    by (metis surj_pair)
  have "is_valid_shared_filename ''a.txt''" by code_simp
  moreover have "inbox (socks ?c 3) = outbox (socks ?s 3) @ []" by (simp add: desk_def)
  ultimately have "(\<exists>e. outbox (socks ?s 3) = frame MSG_ERROR e) \<or> inbox (socks c2 3) = [] \<and> (r = 1 \<or> r = 2)"
    using download_arrives [OF run archive_wf(1,2,3) _ desk_wf(2,1) _ rx hd, of "[]"] by blast
  with run rx hd show ?thesis by (metis fst_conv snd_conv)
qed

subsection \<open>Uploads\<close>

text \<open>C10: whatever the receiver thread and the server do meanwhile, an upload gives its descriptor
  back, leaves all existing files alone and writes to no other socket; what it sends is a prefix
  of the request frame followed by the bytes of the local file. All of it has been sent when the
  result is 0; with result 1 the stream is still aligned: nothing, the request alone, or everything.
  Nothing at all is sent unless the path names a regular file of allowed size and valid name.\<close>

theorem client_upload_sends_the_file:
  assumes "run_state (upload_client_upload receiver_iteration fd path rs) s = ((r, msg), u)" and "0 < rs"
    and "\<forall>j. entry s (path_dir path) (basename path) = Some j \<longrightarrow> j < next_ino s"
  shows "fds u = fds s \<and> (\<forall>x. x \<noteq> fd \<longrightarrow> outbox (socks u x) = outbox (socks s x)) \<and>
    (\<forall>j < next_ino s. inodes u j = inodes s j) \<and> (r = 0 \<or> r = 1 \<or> r = -1) \<and>
    (r = 1 \<and> outbox (socks u fd) = outbox (socks s fd) \<or>
     (\<exists>i p. entry s (path_dir path) (basename path) = Some i \<and> ikind (inodes s i) = IReg \<and>
        is_valid_shared_filename (basename path) \<and> length (content (inodes s i)) \<le> FILE_MAX_SIZE \<and>
        outbox (socks u fd) = outbox (socks s fd) @ p \<and>
        (let c = content (inodes s i); f = frame MSG_UPLOAD (basename path @ ''|'' @ nat_str (length c))
         in prefix p (f @ c) \<and> (r = 0 \<longrightarrow> p = f @ c) \<and> (r = 1 \<longrightarrow> p = [] \<or> p = f \<or> p = f @ c))))"
  using upload_client_upload_spec [OF assms(1,2)]
proof (elim disjE exE conjE)
  assume "r = 1" "sent fd [] (fds s) s u"
  then show ?thesis by (simp add: sent_def)
next
  fix i p
  assume a: "entry s (path_dir path) (basename path) = Some i" "uploadable path (inodes s i)"
    "sent fd p (fds s) s u" "sent_outcome (i < next_ino s) (frame MSG_UPLOAD (upload_meta path (content (inodes s i)))) (content (inodes s i)) r p"
  show ?thesis
    using a assms(3) [rule_format, OF a(1)] unfolding sent_def sent_outcome_def uploadable_def upload_meta_def Let_def by blast
qed

text \<open>The server accepts the upload and reports success.\<close>

definition willing :: "byte list" where
  "willing = frame MSG_RESPONSE ''UPLOAD_READY'' @ frame MSG_RESPONSE ''UPLOAD_SUCCESS a.txt 5''"

theorem client_upload_sends_the_file_witness:
  "fds (exec (upload_client_upload receiver_iteration 3 ''a.txt'' 100) (desk willing)) = [(3, FSock)]"
proof -
  obtain r msg u where run: "run_state (upload_client_upload receiver_iteration 3 ''a.txt'' 100) (desk willing) = ((r, msg), u)"
    by (metis surj_pair)
  from client_upload_sends_the_file [OF run] run show ?thesis by (simp add: desk_upload_defs)
qed

text \<open>C7: an upload from one end to the other. When the client reports success and the server reads
  the stream it produced over a working connection, the server receives an upload request, and
  whatever its file system does then, its shared files either stay as they are or gain exactly the
  client's file: under the last component of the path, with the bytes of the local file.\<close>

theorem upload_arrives:
  assumes client: "run_state (upload_client_upload receiver_iteration cfd path rs) c = ((0, msg), c')" "0 < rs"
      "\<forall>j. entry c (path_dir path) (basename path) = Some j \<longrightarrow> j < next_ino c" "outbox (socks c cfd) = []"
    and server: "calm fd s" "wf_locks s" "wf_storage s" "inbox (socks s fd) = outbox (socks c' cfd) @ later"
    and receive: "run_state (receive_message fd (MESSAGE_MAX_SIZE + 1)) s = ((q, t, p), s1)"
    and handle: "run_state (file_manager_handle_upload fd user (cstr p)) s1 = (k, s2)"
  shows "q = 0 \<and> t = MSG_UPLOAD \<and> (\<exists>i. entry c (path_dir path) (basename path) = Some i \<and>
    (shared s2 = shared s \<or> basename path \<notin> dom (shared s) \<and> shared s2 =
      (shared s)(basename path \<mapsto> \<lparr>ikind = IReg, content = content (inodes c i), imode = 420\<rparr>)))"
proof -
  from upload_client_upload_spec [OF client(1,2)] obtain i where
    i: "entry c (path_dir path) (basename path) = Some i" "uploadable path (inodes c i)"
      "outbox (socks c' cfd) = frame MSG_UPLOAD (upload_meta path (content (inodes c i))) @ content (inodes c i)"
    using client(3,4) by (auto simp: sent_def sent_outcome_def)
  let ?c = "content (inodes c i)" let ?p = "upload_meta path ?c"
  have valid: "is_valid_shared_filename (basename path)" "length ?c \<le> FILE_MAX_SIZE" using i(2) by (auto simp: uploadable_def)
  have len: "length ?p \<le> MESSAGE_MAX_SIZE"
    using length_nat_str [of "length ?c" 8] valid valid_filename_length [OF valid(1)]
    by (simp add: MESSAGE_MAX_SIZE_def FILE_MAX_SIZE_def upload_meta_def)
  have inb: "inbox (socks s fd) = frame MSG_UPLOAD ?p @ ?c @ later" using server(4) i(3) by simp
  have "is_valid_message_type MSG_UPLOAD" by code_simp
  from hrecv.accept_complete [OF server(1) this len inb] receive have q: "q = 0" "t = MSG_UPLOAD" "p = ?p" by auto
  from receive_message_ok [OF receive [unfolded q]] inb have inb1: "inbox (socks s1 fd) = ?c @ later"
    and tk: "\<exists>k. took fd k s s1" by auto
  have "is_cstr ?p" using valid_filename_cstr [OF valid(1)] by (simp add: upload_meta_def NUL_def)
  then have "run_state (file_manager_handle_upload fd user ?p) s1 = (k, s2)" using handle q(3) by simp
  moreover have "wf_locks s1" "wf_storage s1"
    using tk server(2,3) by (auto simp: wf_locks_def wf_storage_def took_def net_rest_def entry_def)
  moreover have same: "shared s1 = shared s"
  proof -
    have "stored s1 = stored s" by (rule ext) (use tk in \<open>auto simp: took_def net_rest_def entry_def stored_def\<close>)
    then show ?thesis by (simp add: shared_def)
  qed
  moreover have "parse_upload_metadata ?p FILE_NAME_MAX_SIZE = Some (basename path, length ?c)"
    unfolding upload_meta_def by (rule metadata_parsed [OF valid])
  ultimately have "shared s2 = shared s1 \<or> basename path \<notin> dom (shared s1) \<and> shared s2 =
      (shared s1)(basename path \<mapsto> \<lparr>ikind = IReg, content = take (length ?c) (inbox (socks s1 fd)), imode = 420\<rparr>)"
    using parsed_upload_effect by blast
  then show ?thesis using q i(1) inb1 same by simp
qed

lemma desk_uploads: "fst (eval_in (upload_client_upload receiver_iteration 3 ''a.txt'' 100) (desk willing)) = 0"
  by code_simp

theorem upload_arrives_witness:
  "\<exists>c' q t p s1 s2. c' = exec (upload_client_upload receiver_iteration 3 ''a.txt'' 100) (desk willing) \<and>
     run_state (receive_message 3 (MESSAGE_MAX_SIZE + 1))
       (library\<lparr>socks := (socks library)(3 := \<lparr>inbox = outbox (socks c' 3), outbox = [], shut = False\<rparr>)\<rparr>) = ((q, t, p), s1) \<and>
     s2 = exec (file_manager_handle_upload 3 ''alice'' (cstr p)) s1 \<and> q = 0 \<and> t = MSG_UPLOAD \<and> shared s2 = shared library"
proof -
  let ?up = "upload_client_upload receiver_iteration 3 ''a.txt'' 100"
  let ?c = "exec ?up (desk willing)"
  let ?s = "library\<lparr>socks := (socks library)(3 := \<lparr>inbox = outbox (socks ?c 3), outbox = [], shut = False\<rparr>)\<rparr>"
  have run: "run_state ?up (desk willing) = ((0, snd (eval_in ?up (desk willing))), ?c)"
    using desk_uploads by (metis prod.collapse)
  obtain q t p s1 where rx: "run_state (receive_message 3 (MESSAGE_MAX_SIZE + 1)) ?s = ((q, t, p), s1)" by (metis surj_pair)
  let ?s2 = "exec (file_manager_handle_upload 3 ''alice'' (cstr p)) s1"
  have hd: "run_state (file_manager_handle_upload 3 ''alice'' (cstr p)) s1 =
      (eval_in (file_manager_handle_upload 3 ''alice'' (cstr p)) s1, ?s2)" by (metis prod.collapse)
  have calm: "calm 3 ?s"
    by (simp add: calm_def is_sock_def fd_obj_def library_def alice_only_def nobody_def boot_def register_entry_def upd_entry_def)
  have wf: "wf_locks ?s" "wf_storage ?s" using library_wf(1,2) by (simp_all add: wf_locks_def wf_storage_def entry_def)
  have "shared ?s = shared library" by (simp add: shared_def stored_def entry_def fun_eq_iff restrict_map_def)
  moreover have "''a.txt'' \<in> dom (shared library)"
  proof -
    have "is_valid_shared_filename ''a.txt''" by code_simp
    then show ?thesis by (simp add: dom_def shared_def stored_def entry_def library_def)
  qed
  ultimately have "q = 0 \<and> t = MSG_UPLOAD \<and> shared ?s2 = shared library"
    using upload_arrives [OF run _ _ _ calm wf _ rx hd, of "[]"] by (auto simp: desk_upload_defs)
  with rx show ?thesis by blast
qed

subsection \<open>Writing\<close>

lemma write_loop_errno:
  "\<exists>e. client_write_loop fd b k s = (case write_all_loop fd b k s of (r, u) \<Rightarrow> (r, u\<lparr>errno := e\<rparr>))"
proof (induction fd b k s rule: client_write_loop.induct)
  case (1 fd b k s)
  have same: "\<exists>e. x = x\<lparr>errno := e\<rparr>" "\<exists>e. x = x\<lparr>errno := EIO, errno := e\<rparr>" for x :: "'a os_scheme"
    by (rule exI [of _ "errno x"], simp)+
  obtain w t where w: "run_state (sys_write fd (drop k b)) s = (w, t)" by fastforce
  note defs = client_write_loop.simps [of fd b k s] write_all_loop.simps [of fd b k s]
  consider "length b \<le> k" | "k < length b" "w < 0" "errno t = EINTR" | "k < length b" "w < 0" "errno t \<noteq> EINTR"
    | "k < length b" "w = 0" | "k < length b" "0 < w" by linarith
  then show ?case
  proof cases
    case 2
    with "1.IH"(1) [OF _ w [symmetric]] w show ?thesis unfolding defs by simp
  next
    case 5
    with "1.IH"(2) [OF _ w [symmetric]] w show ?thesis unfolding defs by simp
  qed (use w same in \<open>simp_all add: defs\<close>)
qed

text \<open>C36: the download client has a write loop of its own; it writes the same bytes and returns the same
  result as the one of the server, for every sequence of interruptions, short writes and failures.
  They may differ in the error code they leave behind.\<close>

theorem write_loops_agree:
  "\<exists>e. run_state (client_write_all_file fd b) s =
    (case run_state (write_all_file fd b) s of (r, u) \<Rightarrow> (r, u\<lparr>errno := e\<rparr>))"
  using write_loop_errno [of fd b 0 s] by (simp add: client_write_all_file_def write_all_file_def)

end
