(* ===== verification/Client_Spec.thy ===== *)
theory Client_Spec
  imports Upload_Client_Spec
begin

section \<open>What the main thread of the client keeps\<close>

text \<open>
  \<open>homely\<close> relates two moments of a session: the open descriptors, the socket and all existing
  files are the same. Every command keeps it, so a session ends with exactly the descriptors it
  began with; its receiver thread has ended too.
\<close>

definition homely :: "chat \<Rightarrow> chat \<Rightarrow> bool" where
  "homely s u \<longleftrightarrow> fds u = fds s \<and> client_socket u = client_socket s \<and> pid u = pid s \<and>
     (\<forall>j < next_ino s. inodes u j = inodes s j) \<and> next_ino s \<le> next_ino u"

interpretation homely: frame_rel homely
  by unfold_locales (auto simp: homely_def)

lemma homely_aside: "state_io_rel aside m \<Longrightarrow> state_io_rel homely m"
  by (erule io_rel_mono) (simp add: aside_def homely_def)

lemma homely_mild: "state_io_rel mild m \<Longrightarrow> state_io_rel homely m"
  by (erule io_rel_mono) (simp add: mild_def homely_def)

lemma homely_sent: "sent fd w (fds s) s u \<Longrightarrow> homely s u"
  by (simp add: sent_def homely_def)

lemma homely_send: "state_io_rel homely (client_send_message t p)"
proof (rule state_io_relI)
  fix r and s u :: chat
  assume "run_state (client_send_message t p) s = (r, u)"
  then have "run_state (client_send_on (client_socket s) t p) s = (r, u)" by (simp add: client_send_message_def)
  from csend.any [OF this] obtain w where "wrote (client_socket s) w s u" by metis
  from sent_wrote [OF sent_start this] show "homely s u" by (rule homely_sent)
qed

lemma homely_upload: "state_io_rel homely (upload_client_upload receiver_iteration fd path rs)"
proof (cases "0 < rs")
  case True
  show ?thesis
  proof (rule state_io_relI)
    fix x and s u :: chat
    assume "run_state (upload_client_upload receiver_iteration fd path rs) s = (x, u)"
    then have "run_state (upload_client_upload receiver_iteration fd path rs) s = ((fst x, snd x), u)" by simp
    from upload_client_upload_spec [OF this True] show "homely s u" by (blast intro: homely_sent)
  qed
qed (simp add: upload_client_upload_def homely.io_return)

lemmas homely_basics = homely.io_sys aside_basics [THEN homely_aside] aside_printf [THEN homely_aside]
  aside_receive [THEN homely_aside] mild_interleave [THEN homely_mild] homely_send homely_upload

lemma homely_line: "state_io_rel homely (handle_line user line)"
  unfolding handle_line_def command_upload_def command_download_def command_msg_def command_quit_def
    send_or_stop_def usage_def
  by (intro homely_basics)

lemma homely_input_loop: "state_io_rel homely (input_loop user inp)"
proof (induction user inp rule: input_loop.induct)
  case (1 user inp)
  show ?case
  proof (cases "fgets (MESSAGE_MAX_SIZE + 1) inp")
    case None
    show ?thesis
      unfolding input_loop.simps [of user inp] is_running_def yield_to_receiver_def prompt_def None option.case
      by (intro homely_basics)
  next
    case (Some x)
    obtain line later where x: "x = (line, later)" by fastforce
    have IH: "state_io_rel homely (input_loop user later)" by (rule "1.IH" [of True _ line _ True True]) (use Some x in simp_all)
    show ?thesis
      unfolding input_loop.simps [of user inp] is_running_def yield_to_receiver_def prompt_def Some x option.case prod.case
      by (intro homely_basics homely_line IH)
  qed
qed

lemma homely_join: "state_io_rel homely join_receiver"
proof (rule state_io_relI)
  fix r and s u :: chat
  assume "run_state join_receiver s = (r, u)"
  then have "u = exec join_receiver s" by simp
  then show "homely s u" using join_ends [of s] by (simp add: aside_def homely_def)
qed

subsection \<open>The end of a session\<close>

text \<open>\<open>logged fd F s u\<close>: since \<open>s\<close> only the socket \<open>fd\<close> has been opened.\<close>

definition logged :: "int \<Rightarrow> chat \<Rightarrow> chat \<Rightarrow> bool" where
  "logged fd s u \<longleftrightarrow> 0 \<le> fd \<and> fd \<notin> fst ` set (fds s) \<and> fds u = (fd, FSock) # fds s \<and> client_socket u = fd \<and>
     (\<forall>j < next_ino s. inodes u j = inodes s j) \<and> next_ino s \<le> next_ino u"

definition logged_out :: "chat \<Rightarrow> chat \<Rightarrow> bool" where
  "logged_out s u \<longleftrightarrow> fds u = fds s \<and> client_socket u = -1 \<and>
     (\<forall>j < next_ino s. inodes u j = inodes s j) \<and> next_ino s \<le> next_ino u"

lemma logged_homely: "logged fd s t \<Longrightarrow> homely t u \<Longrightarrow> logged fd s u"
  by (auto simp: logged_def homely_def)

lemma logged_exec: "logged fd s t \<Longrightarrow> state_io_rel homely m \<Longrightarrow> logged fd s (exec m t)"
  by (blast intro: logged_homely io_rel_exec)

lemma close_session_socket:
  assumes "logged fd s t" and "run_state (sys_close fd) t = (r, u)"
  shows "logged_out s (u\<lparr>client_socket := -1\<rparr>) \<and> receiver_alive u = receiver_alive t"
proof -
  have t: "fds t = (fd, FSock) # fds s" "fd \<notin> fst ` set (fds s)" using assms(1) by (auto simp: logged_def)
  then have "blip (closed fd t) u" using sys_close_spec [OF assms(2)] by (simp add: fd_obj_def)
  from blipD [OF this] have "fds u = fds s" "inodes u = inodes t" "next_ino u = next_ino t" "os.more u = os.more t"
    using t by (simp_all add: closed_def)
  then show ?thesis using assms(1) aside_more(5) [of u t] by (simp add: logged_def logged_out_def)
qed

lemma cleanup_logged:
  assumes "logged fd s t"
  shows "logged_out s (exec cleanup_socket t) \<and> receiver_alive (exec cleanup_socket t) = receiver_alive t"
proof -
  have fd: "client_socket t = fd" "0 \<le> fd" using assms by (auto simp: logged_def)
  obtain r u where c: "run_state (sys_close fd) t = (r, u)" by fastforce
  from close_session_socket [OF assms c] fd c show ?thesis by (simp add: cleanup_socket_def)
qed

lemma session_ends:
  assumes "run_state (client_session user inp) t = (r, u)" and "logged fd s t"
  shows "logged_out s u \<and> (r = CLIENT_EXIT_SUCCESS \<and> \<not> receiver_alive u \<or> r = CLIENT_EXIT_FAILURE)"
proof -
  let ?t1 = "t\<lparr>client_running := True\<rparr>"
  obtain ok t2 where m: "run_state mtx_ok ?t1 = (ok, t2)" by fastforce
  have "homely ?t1 t2" by (rule state_io_relD [OF homely_aside [OF aside_mtx] m])
  then have l2: "logged fd s t2" by (rule logged_homely [rotated]) (use assms(2) in \<open>simp add: logged_def\<close>)
  show ?thesis
  proof (cases ok)
    case False
    with assms(1) m cleanup_logged [OF l2] show ?thesis by (simp add: client_session_def split_def)
  next
    case True
    let ?t3 = "t2\<lparr>receiver_alive := True, file_list_active := False, file_list_count := 0\<rparr>"
    let ?t4 = "exec (input_loop user inp) ?t3"
    let ?t5 = "exec join_receiver ?t4"
    let ?t6 = "exec stop_running ?t5"
    have "logged fd s ?t3" using l2 by (simp add: logged_def)
    from logged_exec [OF logged_exec [OF this homely_input_loop] homely_join]
    have l6: "logged fd s ?t6" by (rule logged_exec) (rule homely_basics)
    have "\<not> receiver_alive ?t6" using join_ends [of ?t4] by (simp add: stop_running_def)
    moreover have "r = CLIENT_EXIT_SUCCESS" "u = exec cleanup_socket ?t6"
      using assms(1) m True by (simp_all add: client_session_def split_def)
    ultimately show ?thesis using cleanup_logged [OF l6] by simp
  qed
qed

lemma login_ends:
  assumes "run_state (client_login inp) t = (x, u)" and "logged fd s t"
  shows "if x = None then logged_out s u else logged fd s u"
proof -
  have out: "logged_out s v" if "run_state give_up w = (y, v)" "logged fd s w" for y :: "'y option" and v w
    using that cleanup_logged [of fd s w] by (simp add: give_up_def split_def)
  obtain r k p t1 where a: "run_state (client_receive_message (MESSAGE_MAX_SIZE + 1)) t = ((r, k, p), t1)" by (metis surj_pair)
  have l1: "logged fd s t1" by (rule logged_homely [OF assms(2) state_io_relD [OF homely_aside [OF aside_receive] a]])
  show ?thesis
  proof (cases "r = 0 \<and> k = MSG_RESPONSE \<and> cstr p = ''USERNAME_REQUIRED'' \<and> username_prompt inp \<noteq> None")
    case False
    then have "run_state give_up t1 = (x, u)" using assms(1) a by (cases "username_prompt inp") (auto simp: client_login_def split: if_splits)
    moreover from this have "x = None" by (simp add: give_up_def split_def)
    ultimately show ?thesis using out l1 by auto
  next
    case True
    then obtain name later where np: "username_prompt inp = Some (name, later)" by auto
    let ?rest = "do {
      r \<leftarrow> client_send_message MSG_LOGIN name;
      if r \<noteq> 0 then give_up
      else do {
        (result, t, payload) \<leftarrow> client_receive_message (MESSAGE_MAX_SIZE + 1);
        if result \<noteq> 0 then give_up
        else if t = MSG_ERROR
        then do { display (''Login rejected: '' @ cstr payload @ [NL]); give_up }
        else if t \<noteq> MSG_RESPONSE \<or> \<not> strncmp_eq (cstr payload) ''LOGIN_SUCCESS'' 13 then give_up
        else do {
          display (''Login successful as '' @ [CHR 0x27] @ name @ [CHR 0x27] @ ''.'' @ [NL]);
          ret (Some (name, later))
        }
      }
    }"
    have rest: "run_state ?rest t1 = (x, u)" using assms(1) a True np by (simp add: client_login_def)
    obtain q t2 where b: "run_state (client_send_message MSG_LOGIN name) t1 = (q, t2)" by fastforce
    have l2: "logged fd s t2" by (rule logged_homely [OF l1 state_io_relD [OF homely_send b]])
    obtain r' k' p' t3 where c: "run_state (client_receive_message (MESSAGE_MAX_SIZE + 1)) t2 = ((r', k', p'), t3)" by (metis surj_pair)
    have l3: "logged fd s t3" by (rule logged_homely [OF l2 state_io_relD [OF homely_aside [OF aside_receive] c]])
    have l4: "logged fd s (exec (display l) t3)" for l by (rule logged_exec [OF l3]) (rule homely_basics)
    consider (two) "run_state give_up t2 = (x, u)" | (three) "run_state give_up t3 = (x, u)"
      | (four) l where "run_state give_up (exec (display l) t3) = (x, u)"
      | (ok) l where "x = Some (name, later)" "u = exec (display l) t3"
      using rest b c by (auto simp: split_def split: if_splits)
    then show ?thesis
    proof cases
      case ok
      with l4 show ?thesis by simp
    qed (use out l2 l3 l4 in \<open>auto simp: give_up_def split_def\<close>)
  qed
qed

lemma connect_ends:
  assumes "run_state connect_to_server s = (r, u)"
  shows "r = -1 \<and> logged_out s u \<or> r = 0 \<and> logged (fresh_fd (fds s)) s u"
proof -
  let ?fd = "fresh_fd (fds s)"
  note fd = fresh_fd_props [of "fds s"]
  obtain k t where a: "run_state sys_socket s = (k, t)" by fastforce
  have "k = -1 \<and> blip s t \<or> k = ?fd \<and> blip (s\<lparr>fds := (k, FSock) # fds s\<rparr>) t"
    using a by (auto simp: sys_socket_def fs_run alloc_fd_def split: list.splits fault.splits)
  then show ?thesis
  proof (elim disjE conjE)
    assume "k = -1" "blip s t"
    then show ?thesis using assms a blipD [of s t] by (auto simp: connect_to_server_def logged_out_def)
  next
    assume k: "k = ?fd" "blip (s\<lparr>fds := (k, FSock) # fds s\<rparr>) t"
    let ?t = "t\<lparr>client_socket := ?fd\<rparr>"
    have l: "logged ?fd s ?t" using k blipD [OF k(2)] fd by (simp add: logged_def)
    obtain c v where b: "run_state (socket_call ?fd) ?t = (c, v)" by fastforce
    have "homely ?t v"
      using b by (auto simp: socket_call_def net_fault_def fail_def set_errno_def homely_def split: list.splits fault.splits)
    with l have lv: "logged ?fd s v" by (rule logged_homely)
    obtain x w where cl: "run_state (sys_close ?fd) v = (x, w)" by fastforce
    show ?thesis
      using assms a b cl k(1) fd(2) lv close_session_socket [OF lv cl] by (auto simp: connect_to_server_def split: if_splits)
  qed
qed

end
