(* ===== verification/Client_Types.thy ===== *)
theory Client_Types
  imports Client_Spec
begin

section \<open>The shared state of the two client threads is well typed\<close>

text \<open>
  \<open>wf_chat\<close> is what the C declarations promise of the variables both threads of the client use: the
  answer in \<open>response_payload\<close> is a string that fits its buffer, and an available answer is of one
  of the two types an upload understands. Only the assignments to these variables matter, so the
  proof is one frame rule per operation.
\<close>

definition wf_chat :: "chat \<Rightarrow> bool" where
  "wf_chat s \<longleftrightarrow> is_cstr (response_payload s) \<and> length (response_payload s) \<le> MESSAGE_MAX_SIZE \<and>
     (response_available s \<longrightarrow> response_type s = MSG_RESPONSE \<or> response_type s = MSG_ERROR) \<and> -1 \<le> client_socket s"

abbreviation well_typed :: "'a chatter \<Rightarrow> bool" where
  "well_typed m \<equiv> state_io_rel (keeps wf_chat) m"

subsection \<open>System calls\<close>

lemma wf_chat_more: "os.more u = os.more s \<Longrightarrow> wf_chat u = wf_chat s"
  using aside_more [of u s] by (simp add: wf_chat_def)

lemma well_typed_more: "(\<And>s x u. run_state m s = (x, u) \<Longrightarrow> os.more u = os.more s) \<Longrightarrow> well_typed m"
  by (rule state_io_relI) (metis keeps_def wf_chat_more)

lemma well_typed_fs: "state_io_rel (same fs_rest) m \<Longrightarrow> well_typed m"
  by (rule well_typed_more, drule same_run) (auto simp: fs_rest_def)

lemma fs_opens: "state_io_rel (same fs_rest) (sys_open_read d name)" "state_io_rel (same fs_rest) sys_socket"
  unfolding sys_open_read_def sys_socket_def by (intro same.io_sys fs_base)+

lemma well_typed_net:
  "well_typed mtx_ok" "well_typed (socket_call fd)" "well_typed (sys_shutdown fd)"
  by (rule well_typed_more; auto simp: mtx_ok_def mtx_fault_def socket_call_def net_fault_def fail_def set_errno_def
      sys_shutdown_def split: list.splits fault.splits)+

lemma wrote_more: "wrote fd w s u \<Longrightarrow> os.more u = os.more s"
  by (simp add: wrote_def net_rest_def)

lemma well_typed_send:
  "well_typed (send_all fd bs)" "well_typed (client_send_on fd t p)" "well_typed (send_text_frame fd t p)"
proof -
  show "well_typed (send_all fd bs)"
    by (rule well_typed_more) (metis send_all_wrote wrote_more)
  show "well_typed (client_send_on fd t p)"
    by (rule well_typed_more) (metis csend.any wrote_more)
  show "well_typed (send_text_frame fd t p)"
    by (rule well_typed_more) (metis usend.any wrote_more)
qed

lemma well_typed_receive: "well_typed (client_receive_message n)"
proof (rule well_typed_more)
  fix s x u
  assume run: "run_state (client_receive_message n) s = (x, u)"
  obtain r t p where "x = (r, t, p)" by (cases x) auto
  with receive_message_took [of n s r t p u] run show "os.more u = os.more s" by (auto simp: took_def net_rest_def)
qed

lemma well_typed_download: "154 \<le> n \<Longrightarrow> well_typed (download_client_handle_server_message fd t p n)"
proof (rule well_typed_more)
  fix s :: chat and x u
  assume n: "154 \<le> n" and run: "run_state (download_client_handle_server_message fd t p n) s = (x, u)"
  obtain r msg where x: "x = (r, msg)" by fastforce
  from download_handle_spec [OF run [unfolded x] n] show "os.more u = os.more s"
    by (auto simp: client_outcome_def drained_def apart_def saved_def split: ready_parse.splits if_splits)
qed

lemmas well_typed_calls = fs_frames(1,5,10) [THEN well_typed_fs] fs_opens [THEN well_typed_fs] well_typed_net
  well_typed_send well_typed_receive

subsection \<open>The receiver thread\<close>

lemma well_typed_basics:
  "well_typed (display l)" "well_typed mutex_lock" "well_typed stop_running" "well_typed receiver_ends"
  "well_typed upload_client_notify_connection_closed"
  unfolding display_def mutex_lock_def stop_running_def receiver_ends_def upload_client_notify_connection_closed_def
  by (intro keeps.io_sys well_typed_calls keeps.io_modify; simp add: keeps_def wf_chat_def)+

lemma answer_fits: "is_cstr p \<Longrightarrow> is_cstr (snd (snprintf (n + 1) p)) \<and> length (snd (snprintf (n + 1) p)) \<le> n"
  by (simp add: snprintf_def)

lemma well_typed_answer: "is_cstr p \<Longrightarrow> well_typed (upload_client_handle_server_message t p)"
  unfolding upload_client_handle_server_message_def Let_def
  by (intro keeps.io_sys well_typed_basics keeps.io_modify)
    (use answer_fits [of p MESSAGE_MAX_SIZE] in \<open>auto simp: keeps_def wf_chat_def split: if_splits\<close>)

lemma well_typed_printf: "well_typed (safe_printf lead msg)"
  unfolding safe_printf_def by (intro keeps.io_sys well_typed_basics)

lemma well_typed_show: "well_typed (show_message t p)"
  unfolding show_message_def show_response_def
  by (intro keeps.io_sys well_typed_basics keeps.io_modify) (simp_all add: keeps_def wf_chat_def)

lemma well_typed_dispatch: "is_cstr p \<Longrightarrow> well_typed (receiver_dispatch t p)"
  unfolding receiver_dispatch_def receiver_normal_def
  by (intro keeps.io_sys well_typed_basics well_typed_answer well_typed_download well_typed_show well_typed_calls)
    (simp_all add: MESSAGE_MAX_SIZE_def)

lemma well_typed_iteration: "well_typed receiver_iteration"
  unfolding receiver_iteration_def receiver_lost_def
  by (intro keeps.io_sys well_typed_basics well_typed_printf well_typed_calls well_typed_dispatch) simp_all

subsection \<open>The main thread\<close>

lemma well_typed_turns: "well_typed (turns receiver_iteration n)"
proof (induction n)
  case 0
  show ?case by (simp add: keeps.io_return)
next
  case (Suc n)
  then show ?case unfolding turns.simps turn_def by (intro keeps.io_sys well_typed_iteration)
qed

lemma well_typed_interleave: "well_typed (interleave receiver_iteration)"
  unfolding interleave_def by (intro keeps.io_sys well_typed_turns keeps.io_modify) (simp add: keeps_def wf_chat_def)

lemma well_typed_wait_until: "well_typed (wait_until receiver_iteration test n)"
proof (induction n)
  case 0
  show ?case unfolding wait_until.simps by (intro keeps.io_sys keeps.io_modify) (simp add: keeps_def wf_chat_def)
next
  case (Suc n)
  show ?case
    unfolding wait_until.simps
    by (intro keeps.io_sys well_typed_calls well_typed_iteration keeps.io_modify Suc.IH) (simp_all add: keeps_def wf_chat_def)
qed

lemma well_typed_wait: "well_typed (wait_for_response receiver_iteration n)"
  unfolding wait_for_response_def
  by (intro keeps.io_sys well_typed_basics well_typed_interleave well_typed_wait_until keeps.io_modify)
    (simp add: keeps_def wf_chat_def)

lemma well_typed_set: "(\<And>s. keeps wf_chat s (f s)) \<Longrightarrow> well_typed (set_upload_state receiver_iteration f)"
  unfolding set_upload_state_def by (intro keeps.io_sys well_typed_basics well_typed_interleave keeps.io_modify)

lemma well_typed_send_loop: "well_typed (State (upload_send_loop receiver_iteration fd ffd n))"
proof -
  have "keeps wf_chat s (snd (upload_send_loop receiver_iteration fd ffd n s))" for s
  proof (induction receiver_iteration fd ffd n s rule: upload_send_loop.induct)
    case (1 fd ffd n s)
    define m where "m = (if n > FILE_CHUNK_SIZE then FILE_CHUNK_SIZE else n)"
    obtain k b t where rd: "run_state (sys_read ffd m) s = ((k, b), t)" by (metis surj_pair)
    have st: "keeps wf_chat s t" by (rule state_io_relD [OF well_typed_calls(3) rd])
    obtain r v where sd: "run_state (send_all fd b) t = (r, v)" by fastforce
    have tv: "keeps wf_chat t v" by (rule state_io_relD [OF well_typed_send(1) sd])
    have vw: "keeps wf_chat v (exec (interleave receiver_iteration) v)" by (rule io_rel_exec [OF well_typed_interleave])
    obtain x w where run: "upload_send_loop receiver_iteration fd ffd n s = (x, w)" by fastforce
    note eq = run [unfolded upload_send_loop.simps [of receiver_iteration fd ffd n s], folded m_def]
    consider (zero) "n = 0" | (intr) "0 < n" "k < 0" "errno t = EINTR" | (err) "0 < n" "k < 0" "errno t \<noteq> EINTR"
      | (eof) "0 < n" "k = 0" | (lost) "0 < n" "0 < k" "r \<noteq> 0" | (more) "0 < n" "0 < k" "r = 0" by linarith
    then have "keeps wf_chat s w"
    proof cases
      case zero
      with eq keeps.refl show ?thesis by simp
    next
      case intr
      with eq rd have "upload_send_loop receiver_iteration fd ffd n t = (x, w)" by simp
      with "1.hyps"(1) [OF intr(1) rd [unfolded m_def, symmetric] refl intr(2,3)] keeps.trans [OF st] show ?thesis by simp
    next
      case err
      with eq rd st show ?thesis by simp
    next
      case eof
      with eq rd st show ?thesis by simp
    next
      case lost
      with eq rd sd keeps.trans [OF st tv] show ?thesis by simp
    next
      case more
      with eq rd sd have "upload_send_loop receiver_iteration fd ffd (n - nat k) (exec (interleave receiver_iteration) v) = (x, w)" by simp
      moreover have "\<not> k < 0" "k \<noteq> 0" "\<not> r \<noteq> 0" using more by auto
      ultimately show ?thesis
        using "1.hyps"(2) [OF more(1) rd [unfolded m_def, symmetric] refl _ _ sd [symmetric]]
          keeps.trans [OF keeps.trans [OF keeps.trans [OF st tv] vw]] by simp
    qed
    then show ?case using run by simp
  qed
  then show ?thesis by (simp add: state_io_rel_def)
qed

lemma well_typed_upload: "well_typed (upload_client_upload receiver_iteration fd path rs)"
  unfolding upload_client_upload_def upload_opened_def upload_request_def upload_transfer_file_def Let_def
  by (intro keeps.io_sys well_typed_calls well_typed_basics well_typed_interleave well_typed_wait well_typed_set
      well_typed_send_loop keeps.io_modify; simp add: keeps_def wf_chat_def)

lemma well_typed_send_message: "well_typed (client_send_message t p)"
  unfolding client_send_message_def by (intro keeps.io_sys well_typed_calls)

lemmas well_typed_main = keeps.io_sys well_typed_calls well_typed_basics well_typed_printf well_typed_send_message
  well_typed_interleave well_typed_upload

lemma well_typed_line: "well_typed (handle_line user line)"
  unfolding handle_line_def command_upload_def command_download_def command_msg_def command_quit_def
    send_or_stop_def usage_def
  by (intro well_typed_main)

lemma well_typed_input: "well_typed (input_loop user inp)"
proof (induction user inp rule: input_loop.induct)
  case (1 user inp)
  note defs = input_loop.simps [of user inp] is_running_def yield_to_receiver_def prompt_def
  show ?case
  proof (cases "fgets (MESSAGE_MAX_SIZE + 1) inp")
    case None
    show ?thesis unfolding defs None option.case by (intro well_typed_main)
  next
    case (Some x)
    obtain line later where x: "x = (line, later)" by fastforce
    have IH: "well_typed (input_loop user later)" by (rule "1.IH" [of True _ line _ True True]) (use Some x in simp_all)
    show ?thesis unfolding defs Some x option.case prod.case by (intro well_typed_main well_typed_line IH)
  qed
qed

lemma well_typed_connect: "well_typed connect_to_server"
proof (rule state_io_relI)
  fix r and s u :: chat
  assume run: "run_state connect_to_server s = (r, u)"
  obtain k t where a: "run_state sys_socket s = (k, t)" by fastforce
  have k: "-1 \<le> k" using a fresh_fd_props(2) [of "fds s"]
    by (auto simp: sys_socket_def fs_fault_def fail_def set_errno_def alloc_fd_def split: list.splits fault.splits)
  let ?t = "t\<lparr>client_socket := k\<rparr>"
  have "keeps wf_chat s t" by (rule state_io_relD [OF well_typed_fs [OF fs_opens(2)] a])
  then have st: "keeps wf_chat s ?t" using k by (simp add: keeps_def wf_chat_def)
  let ?rest = "if k < 0 then ret (- 1)
     else do {
       c \<leftarrow> socket_call k;
       if c < 0
       then do { _ \<leftarrow> sys_close k; modify (\<lambda>s. s\<lparr>client_socket := - 1\<rparr>); ret (- 1) }
       else ret 0
     }"
  have wt: "well_typed ?rest" by (intro well_typed_main keeps.io_modify) (simp add: keeps_def wf_chat_def)
  have "run_state ?rest ?t = (r, u)" using run a by (simp add: connect_to_server_def)
  from keeps.trans [OF st state_io_relD [OF wt this]] show "keeps wf_chat s u" .
qed

lemma well_typed_cleanup: "well_typed cleanup_socket" "well_typed give_up"
  unfolding cleanup_socket_def give_up_def
  by (intro well_typed_main keeps.io_modify; simp add: keeps_def wf_chat_def)+

lemma well_typed_login: "well_typed (client_login inp)"
  unfolding client_login_def by (intro well_typed_main well_typed_cleanup)

lemma well_typed_session: "well_typed (client_session user inp)"
  unfolding client_session_def join_receiver_def
  by (intro well_typed_main well_typed_cleanup well_typed_turns well_typed_input keeps.io_modify)
    (simp_all add: keeps_def wf_chat_def)

lemma well_typed_client: "well_typed (client_main inp)"
  unfolding client_main_def by (intro well_typed_main well_typed_connect well_typed_login well_typed_session)

end
