(* ===== verification/Waiting_Spec.thy ===== *)
theory Waiting_Spec
  imports Receiver_Spec Quiet_Calls
begin

section \<open>Waiting for the receiver thread\<close>

text \<open>
  While mutexes work, a receiver thread that ends tells a waiting upload so, unless it ends because
  the server said goodbye.
\<close>

subsection \<open>A download uses no mutex\<close>

lemma steady_download_loop: "state_io_rel steady (download_loop fd ffd n w)"
proof (induction fd ffd n w rule: download_loop.induct)
  case (1 fd ffd n w)
  show ?case
  proof (cases "0 < n")
    case True
    show ?thesis
      unfolding download_loop.simps [of fd ffd n w] Let_def
      by (intro steady.io_sys steady_recv_all steady_w.write_all "1.IH" [OF True refl]) auto
  qed (simp add: download_loop.simps [of fd ffd 0 w] steady.io_return)
qed

lemma steady_download: "state_io_rel steady (download_client_handle_server_message fd t p n)"
  unfolding download_client_handle_server_message_def download_receive_def download_prepare_def
    ensure_download_directory_def download_finish_file_def download_publish_def
  by (cases "parse_download_ready p FILE_NAME_MAX_SIZE")
    (simp_all only: ready_parse.case, (intro steady.io_sys steady_calls steady_download_loop)+)

subsection \<open>The receiver wakes a waiting upload\<close>

lemma quiet_lock: "mtx_script s = [] \<Longrightarrow> run_state mtx_ok s = (True, s)" "mtx_script s = [] \<Longrightarrow> run_state mutex_lock s = (0, s)"
  by (simp_all add: mtx_ok_def mtx_fault_def mutex_lock_def)

definition goodbye :: string where "goodbye = [NL] @ ''[Server] '' @ ''GOODBYE'' @ [NL]"

text \<open>The receiver runs, or it has ended and said so, or it has said goodbye.\<close>

definition attended :: "chat \<Rightarrow> bool" where
  "attended s \<longleftrightarrow> mtx_script s = [] \<and> (receiver_alive s \<and> client_running s \<or>
     \<not> receiver_alive s \<and> (connection_closed s \<or> goodbye \<in> set (console s)))"

lemma notify_attends:
  "mtx_script s = [] \<Longrightarrow> run_state upload_client_notify_connection_closed s = ((), s\<lparr>connection_closed := True\<rparr>)"
  by (simp add: upload_client_notify_connection_closed_def quiet_lock)

lemma show_attends:
  assumes "mtx_script s = []" and "receiver_alive s" and "client_running s"
  shows "attended (exec (receiver_normal t p) s)"
proof -
  have "mtx_script (exec (show_message t p) s) = [] \<and> receiver_alive (exec (show_message t p) s) \<and>
    (client_running (exec (show_message t p) s) \<or> goodbye \<in> set (console (exec (show_message t p) s)))"
    using assms by (simp add: show_message_def show_response_def display_def stop_running_def goodbye_def)
  then show ?thesis
    using assms(1) by (auto simp: receiver_normal_def quiet_lock receiver_ends_def attended_def split_def)
qed

lemma dispatch_attends:
  assumes "mtx_script s = []" and "receiver_alive s" and "client_running s"
  shows "attended (exec (receiver_dispatch t p) s)"
proof -
  obtain r s1 where a: "run_state (upload_client_handle_server_message t p) s = (r, s1)" by fastforce
  have s1: "mtx_script s1 = []" "receiver_alive s1" "client_running s1"
    using a assms by (auto simp: upload_client_handle_server_message_def quiet_lock Let_def split: if_splits)
  obtain d msg s2 where b: "run_state (download_client_handle_server_message (client_socket s1) t p (MESSAGE_MAX_SIZE + 1)) s1 = ((d, msg), s2)"
    by (metis surj_pair)
  have m2: "mtx_script s2 = []" using state_io_relD [OF steady_download b] s1 by (simp add: steady_def)
  have "154 \<le> MESSAGE_MAX_SIZE + 1" by (simp add: MESSAGE_MAX_SIZE_def)
  from download_handle_spec [OF b this] have "s2 = s1 \<or> os.more s2 = os.more s1"
    by (auto simp: client_outcome_def drained_def apart_def saved_def split: ready_parse.splits if_splits)
  then have s2: "receiver_alive s2" "client_running s2" using s1 aside_more(5,6) [of s2 s1] by auto
  consider "r \<noteq> 0" | "r = 0" "d = 0" | "r = 0" "d = 1 \<or> d = 2" | "r = 0" "d \<noteq> 0" "d \<noteq> 1" "d \<noteq> 2" by blast
  then show ?thesis
  proof cases
    case 1
    with a s1 show ?thesis by (simp add: receiver_dispatch_def attended_def)
  next
    case 2
    with a b show_attends [OF m2 s2, of t p] show ?thesis by (simp add: receiver_dispatch_def)
  next
    case 3
    with a b m2 s2 show ?thesis by (auto simp: receiver_dispatch_def quiet_lock display_def attended_def)
  next
    case 4
    with a b m2 s2 show ?thesis
      by (simp add: receiver_dispatch_def notify_attends stop_running_def sys_shutdown_def receiver_ends_def attended_def)
  qed
qed

lemma iteration_attends:
  assumes "attended s" and "receiver_alive s"
  shows "attended (exec receiver_iteration s)"
proof -
  have s: "mtx_script s = []" "client_running s" using assms by (auto simp: attended_def)
  obtain r t p u where rx: "run_state (client_receive_message (MESSAGE_MAX_SIZE + 1)) s = ((r, t, p), u)"
    by (metis surj_pair)
  from receive_message_took [OF rx] obtain k where k: "took (client_socket s) k s u" and r: "r = 0 \<or> r = 1 \<or> r = -1" by blast
  then have "os.more u = os.more s" "mtx_script u = []" using s by (auto simp: took_def net_rest_def)
  then have u: "mtx_script u = []" "receiver_alive u" "client_running u" using s assms(2) aside_more(5,6) [of u s] by auto
  consider "r = 0" | "r = 1" | "r = -1" using r by blast
  then show ?thesis
  proof cases
    case 1
    with rx s dispatch_attends [OF u] show ?thesis by (simp add: receiver_iteration_def)
  next
    case 2
    with rx s u show ?thesis
      by (simp add: receiver_iteration_def receiver_lost_def notify_attends safe_printf_def quiet_lock display_def
          stop_running_def receiver_ends_def attended_def)
  next
    case 3
    with rx s u show ?thesis
      by (simp add: receiver_iteration_def notify_attends safe_printf_def quiet_lock display_def
          stop_running_def receiver_ends_def attended_def)
  qed
qed

lemma turns_attend: "attended s \<Longrightarrow> attended (exec (turns receiver_iteration n) s)"
  by (induction n arbitrary: s) (simp_all add: turn_def split_def iteration_attends)

lemma wait_attends:
  assumes "run_state (wait_until receiver_iteration awake n) s = (ok, u)" and "rank s < n" and "attended s"
  shows "ok \<and> stuck u = stuck s \<and> awake u \<or> goodbye \<in> set (console u)"
  using assms
proof (induction n arbitrary: s)
  case 0
  then show ?case by simp
next
  case (Suc n)
  have m: "mtx_script s = []" using Suc.prems(3) by (simp add: attended_def)
  show ?case
  proof (cases "awake s \<or> \<not> receiver_alive s")
    case True
    with Suc.prems show ?thesis by (auto simp: awake_def attended_def split: if_splits)
  next
    case False
    let ?v = "exec receiver_iteration s"
    have rec: "run_state (wait_until receiver_iteration awake n) ?v = (ok, u)"
      using Suc.prems(1) False m by (simp add: quiet_lock split_def)
    have "rank ?v < n" using iteration_rank [of s] False Suc.prems(2) by simp
    from Suc.IH [OF rec this iteration_attends [OF Suc.prems(3)]] False
    have "ok \<and> stuck u = stuck ?v \<and> awake u \<or> goodbye \<in> set (console u)" by simp
    moreover have "stuck ?v = stuck s" using io_rel_exec [OF aside_iteration, of s] by (simp add: aside_def)
    ultimately show ?thesis by simp
  qed
qed

lemma wait_for_response_attended:
  assumes "run_state (wait_for_response receiver_iteration n) s = (a, u)" and "attended s"
  shows "stuck u = stuck s \<and> (a = None \<longrightarrow> connection_closed u) \<or> goodbye \<in> set (console u)"
proof -
  let ?t = "exec (interleave receiver_iteration) s"
  have t: "attended ?t" using assms(2) turns_attend [of "s\<lparr>sched := tl (sched s)\<rparr>"]
    by (simp add: interleave_def split_def attended_def)
  have st: "stuck ?t = stuck s"
    using io_rel_exec [OF aside_turns, of "s\<lparr>sched := tl (sched s)\<rparr>"] by (simp add: interleave_def split_def aside_def)
  have m: "mtx_script ?t = []" using t by (simp add: attended_def)
  obtain ok v where w: "run_state (wait_until receiver_iteration awake (patience ?t)) ?t = (ok, v)" by fastforce
  note spec = wait_attends [OF w rank_patience t]
  have aw: "(\<lambda>s. response_available s \<or> connection_closed s) = awake" by (rule ext) (simp add: awake_def)
  have "stuck u = stuck v \<and> console u = console v \<and> connection_closed u = connection_closed v \<and> (a = None \<longrightarrow> \<not> ok \<or> connection_closed v)"
    using assms(1) w quiet_lock(2) [OF m]
    by (auto simp: wait_for_response_def aw split_def split: if_splits)
  with spec st show ?thesis by auto
qed

end
