(* ===== verification/Client_Properties.thy ===== *)
theory Client_Properties
  imports Client_Types Waiting_Spec Listing_Spec "HOL-Library.Code_Target_Nat"
begin

section \<open>The properties of the chat client\<close>

text \<open>
  The session as a whole, the channel between client and server, the commands, the display of a
  listing, and where the two threads of the client get in each other's way.
\<close>

subsection \<open>The session\<close>



subsection \<open>The channel\<close>

text \<open>C19: a message of any valid type and length that either side reports as sent is received by the
  other with the same type and payload, whatever interruptions and short transfers occur, and the
  stream then stands at the next message. This holds from the client's main thread to the handler
  of the server, and from the client manager of the server to the client's receiver thread.\<close>

theorem client_and_server_frames_match:
  assumes "outbox (socks s fd) = []" and "is_valid_message_type t" and "inbox (socks u fd') = outbox (socks s' fd) @ later"
    and "calm fd' u"
  shows "(run_state (client_send_on fd t p) s = (0, s') \<longrightarrow>
      (\<exists>u'. run_state (receive_message fd' (MESSAGE_MAX_SIZE + 1)) u = ((0, t, p), u') \<and> inbox (socks u' fd') = later)) \<and>
    (run_state (send_message_raw fd t p) s = (0, s') \<longrightarrow>
      (\<exists>u'. run_state (client_receive_on fd' (MESSAGE_MAX_SIZE + 1)) u = ((0, t, p), u') \<and> inbox (socks u' fd') = later))"
  using upstream.delivered [OF _ assms(1,2,4,3)] downstream.delivered [OF _ assms(1,2,4,3)] by blast

definition listener :: "byte list \<Rightarrow> server" where
  "listener w = online\<lparr>socks := (\<lambda>_. \<lparr>inbox = w, outbox = [], shut = False\<rparr>)\<rparr>"

lemma listener_calm: "calm 3 (listener w)" "inbox (socks (listener w) 3) = w"
  using online_calm [of 3] by (simp_all add: listener_def calm_def is_sock_def fd_obj_def)

lemma desk_sends: "eval_in (client_send_on 3 MSG_CHAT ''hi'') (desk []) = 0"
  by code_simp

theorem client_and_server_frames_match_witness:
  "\<exists>s' u'. run_state (client_send_on 3 MSG_CHAT ''hi'') (desk []) = (0, s') \<and>
     run_state (receive_message 3 (MESSAGE_MAX_SIZE + 1)) (listener (outbox (socks s' 3))) = ((0, MSG_CHAT, ''hi''), u') \<and>
     inbox (socks u' 3) = []"
proof -
  let ?s = "exec (client_send_on 3 MSG_CHAT ''hi'') (desk [])"
  have run: "run_state (client_send_on 3 MSG_CHAT ''hi'') (desk []) = (0, ?s)" using desk_sends by (metis prod.collapse)
  have "is_valid_message_type MSG_CHAT" by code_simp
  with client_and_server_frames_match [of "desk []" 3 MSG_CHAT "listener (outbox (socks ?s 3))" 3 ?s "[]" "''hi''"] run listener_calm
  show ?thesis by (simp add: desk_upload_defs) blast
qed

subsection \<open>The receiver thread\<close>

text \<open>C23: as long as mutexes work, an upload that waits for an answer while the receiver thread runs
  gets one or learns that the connection is gone: it is never left waiting for an event that cannot
  happen. The one exception is a server that says goodbye in the middle of the upload.\<close>

theorem waiting_upload_is_answered:
  assumes "run_state (wait_for_response receiver_iteration n) s = (answer, u)"
    and "receiver_alive s" and "client_running s" and "mtx_script s = []"
  shows "stuck u = stuck s \<and> (answer = None \<longrightarrow> connection_closed u) \<or>
    [NL] @ ''[Server] GOODBYE'' @ [NL] \<in> set (console u)"
proof -
  have "goodbye = [NL] @ ''[Server] GOODBYE'' @ [NL]" by (simp add: goodbye_def)
  then show ?thesis
    using wait_for_response_attended [OF assms(1)] assms(2-4) by (simp add: attended_def)
qed



theorem waiting_upload_is_answered_witness:
  "\<exists>answer u. run_state (wait_for_response receiver_iteration 100) (desk []) = (answer, u) \<and>
     (\<not> stuck u \<and> (answer = None \<longrightarrow> connection_closed u) \<or> [NL] @ ''[Server] GOODBYE'' @ [NL] \<in> set (console u))"
proof -
  obtain a u where run: "run_state (wait_for_response receiver_iteration 100) (desk []) = (a, u)" by fastforce
  from waiting_upload_is_answered [OF run] run show ?thesis by (auto simp: desk_def)
qed



subsection \<open>Commands\<close>

text \<open>What a user can ask for, how it is typed and what it is on the wire.\<close>

datatype command = Say string | Tell string string | Users | Files | Fetch string | Quit

fun typed :: "command \<Rightarrow> string" where
  "typed (Say msg) = msg"
| "typed (Tell target msg) = ''/msg '' @ target @ '' '' @ msg"
| "typed Users = ''/users''"
| "typed Files = ''/files''"
| "typed (Fetch name) = ''/download '' @ name"
| "typed Quit = ''/quit''"

fun wire :: "command \<Rightarrow> byte list" where
  "wire (Say msg) = frame MSG_CHAT msg"
| "wire (Tell target msg) = frame MSG_PRIVATE (target @ '' '' @ msg)"
| "wire Users = frame MSG_LIST_USERS []"
| "wire Files = frame MSG_LIST_FILES []"
| "wire (Fetch name) = frame MSG_DOWNLOAD name"
| "wire Quit = frame MSG_DISCONNECT []"

fun sensible :: "string \<Rightarrow> command \<Rightarrow> bool" where
  "sensible user (Say msg) \<longleftrightarrow> msg \<noteq> [] \<and> hd msg \<noteq> CHR ''/'' \<and> length msg \<le> MESSAGE_MAX_SIZE"
| "sensible user (Tell target msg) \<longleftrightarrow> is_valid_username target \<and> target \<noteq> user \<and> msg \<noteq> [] \<and>
     length (target @ '' '' @ msg) \<le> MESSAGE_MAX_SIZE"
| "sensible user (Fetch name) \<longleftrightarrow> is_valid_shared_filename name"
| "sensible user _ \<longleftrightarrow> True"

lemma message_types_valid:
  "is_valid_message_type MSG_CHAT" "is_valid_message_type MSG_PRIVATE" "is_valid_message_type MSG_LIST_USERS"
  "is_valid_message_type MSG_LIST_FILES" "is_valid_message_type MSG_DOWNLOAD" "is_valid_message_type MSG_DISCONNECT"
  by code_simp+

lemma send_or_stop_calm:
  assumes "calm (client_socket s) s" and "is_valid_message_type t" and "length p \<le> MESSAGE_MAX_SIZE"
  shows "\<exists>u. run_state (send_or_stop t p) s = (True, u) \<and> wrote (client_socket s) (frame t p) s u"
proof -
  from csend.lively [OF assms(2,3,1)] obtain u where
    "run_state (client_send_on (client_socket s) t p) s = (0, u)" "wrote (client_socket s) (frame t p) s u" by metis
  then show ?thesis by (simp add: send_or_stop_def client_send_message_def)
qed

lemma target_space: "is_valid_username t \<Longrightarrow> strchr (t @ '' '' @ msg) (CHR '' '') = Some (length t)"
  using valid_username_chars [of t] by (auto simp: strchr_Some_iff nth_append)

lemma handle_line_typed:
  assumes "sensible user c"
  shows "handle_line user (typed c) = (case c of
      Say msg \<Rightarrow> send_or_stop MSG_CHAT msg
    | Tell target msg \<Rightarrow> send_or_stop MSG_PRIVATE (target @ '' '' @ msg)
    | Users \<Rightarrow> send_or_stop MSG_LIST_USERS []
    | Files \<Rightarrow> send_or_stop MSG_LIST_FILES []
    | Fetch name \<Rightarrow> send_or_stop MSG_DOWNLOAD name
    | Quit \<Rightarrow> command_quit)"
proof (cases c)
  case (Say msg)
  with assms show ?thesis by (cases msg) (auto simp: handle_line_def strncmp_eq_def)
next
  case (Tell target msg)
  with assms target_space [of target msg] valid_username_length [of target] show ?thesis
    by (simp add: handle_line_def strncmp_eq_def command_msg_def USERNAME_MAX_SIZE_def Let_def)
next
  case (Fetch name)
  with assms valid_filename_length [of name] show ?thesis
    by (auto simp: handle_line_def strncmp_eq_def command_download_def)
qed (simp_all add: handle_line_def strncmp_eq_def)

text \<open>C17: over a working connection every sensible command line sends exactly its request and nothing
  else, changes nothing else of the system, and the input loop goes on, except after \<open>/quit\<close>. The
  payload of a private message is split by the server's handler into the same target and text.\<close>

theorem commands_send_their_request:
  assumes "sensible user c" and "calm (client_socket s) s"
  shows "\<exists>u. run_state (handle_line user (typed c)) s = (c \<noteq> Quit, u) \<and>
      socks u = (socks s)(client_socket s := (socks s (client_socket s))
        \<lparr>outbox := outbox (socks s (client_socket s)) @ wire c\<rparr>) \<and>
      fds u = fds s \<and> dirs u = dirs s \<and> inodes u = inodes s \<and> os.more u = os.more s \<and>
      (\<forall>fd target msg. c = Tell target msg \<longrightarrow>
        handle_private fd user (target @ '' '' @ msg) = send_private fd user target msg)"
proof -
  have "\<exists>u. run_state (handle_line user (typed c)) s = (c \<noteq> Quit, u) \<and> wrote (client_socket s) (wire c) s u"
  proof (cases c)
    case (Tell target msg)
    with assms handle_line_typed [OF assms(1)] send_or_stop_calm [OF assms(2) message_types_valid(2)] show ?thesis by auto
  next
    case (Fetch name)
    with assms have "length name \<le> MESSAGE_MAX_SIZE"
      using valid_filename_length [of name] by (simp add: MESSAGE_MAX_SIZE_def)
    with Fetch handle_line_typed [OF assms(1)] send_or_stop_calm [OF assms(2) message_types_valid(5)] show ?thesis by auto
  next
    case Quit
    with handle_line_typed [OF assms(1)] send_or_stop_calm [OF assms(2) message_types_valid(6), of "[]"] show ?thesis
      by (auto simp: command_quit_def)
  qed (use assms handle_line_typed [OF assms(1)] send_or_stop_calm [OF assms(2)] message_types_valid in auto)
  moreover have "handle_private fd user (target @ '' '' @ msg) = send_private fd user target msg"
    if "c = Tell target msg" for fd target msg
    using that assms(1) target_space [of target msg] valid_username_length [of target]
    by (auto simp: handle_private_def Let_def)
  ultimately show ?thesis by (auto simp: wrote_def net_rest_def)
qed

theorem commands_send_their_request_witness:
  "\<exists>u. run_state (handle_line ''bob'' ''/msg alice hi'') (desk []) = (True, u) \<and>
     outbox (socks u 3) = frame MSG_PRIVATE ''alice hi''"
proof -
  have "sensible ''bob'' (Tell ''alice'' ''hi'')" by code_simp
  moreover have "calm (client_socket (desk [])) (desk [])" "client_socket (desk []) = 3"
    by (simp_all add: desk_def calm_def is_sock_def fd_obj_def)
  ultimately show ?thesis
    using commands_send_their_request [of "''bob''" "Tell ''alice'' ''hi''" "desk []"] by (auto simp: desk_upload_defs)
qed

subsection \<open>Login\<close>

lemma fgets_long:
  assumes "NL \<notin> set l" and "n \<le> Suc (length l)" and "0 < n" and "l \<noteq> []"
  shows "fgets n (l @ NL # more_input) = Some (take (n - 1) l, drop (n - 1) l @ NL # more_input)"
proof -
  have "takeWhile (\<lambda>c. c \<noteq> NL) (l @ NL # more_input) = l" using assms(1) by (auto simp: takeWhile_append)
  then show ?thesis using assms(2-4) by (simp add: fgets_def Let_def min_def)
qed

text \<open>C40: a name of 31 or more allowed characters is never refused for its length: the prompt reads the
  first 31 of them as the user name and leaves the rest in the input, where the session takes it
  for the first line of the chat and sends it to everybody.\<close>

theorem long_username_is_split:
  assumes "31 \<le> length name" and "\<forall>c \<in> set name. isalnum c \<or> c = CHR ''_''" and "length name < 4000"
  shows "username_prompt (name @ NL # later) = Some (take 31 name, drop 31 name @ NL # later) \<and>
    (31 < length name \<longrightarrow> fgets (MESSAGE_MAX_SIZE + 1) (drop 31 name @ NL # later) = Some (drop 31 name @ [NL], later) \<and>
      handle_line user (drop 31 name) = send_or_stop MSG_CHAT (drop 31 name))"
proof -
  have nl: "NL \<notin> set name" and nul: "NUL \<notin> set name" and sl: "CHR ''/'' \<notin> set name"
    using assms(2) by (auto simp: NL_def NUL_def ctype_defs)
  have "fgets USERNAME_MAX_SIZE (name @ NL # later) = Some (take 31 name, drop 31 name @ NL # later)"
    using assms(1) nl by (subst fgets_long) (auto simp: USERNAME_MAX_SIZE_def)
  moreover have "chomp (take 31 name) = take 31 name"
  proof -
    have "is_cstr name" using nul by (simp add: is_cstr_def)
    then show ?thesis using nl by (auto simp: chomp_def takeWhile_eq_all_conv dest: in_set_takeD)
  qed
  moreover have "is_valid_username (take 31 name)"
    using assms(1,2) by (auto simp: is_valid_username_iff dest: in_set_takeD)
  ultimately have "username_prompt (name @ NL # later) = Some (take 31 name, drop 31 name @ NL # later)"
    by (simp add: username_prompt.simps)
  moreover have "fgets (MESSAGE_MAX_SIZE + 1) (drop 31 name @ NL # later) = Some (drop 31 name @ [NL], later)"
  proof -
    have "takeWhile (\<lambda>c. c \<noteq> NL) (drop 31 name @ NL # later) = drop 31 name"
      using nl by (auto simp: takeWhile_append dest: in_set_dropD)
    then show ?thesis using assms(3) by (auto simp: fgets_def Let_def MESSAGE_MAX_SIZE_def min_def)
  qed
  moreover have "handle_line user (drop 31 name) = send_or_stop MSG_CHAT (drop 31 name)" if "31 < length name"
  proof -
    have "drop 31 name \<noteq> []" using that by simp
    then have "hd (drop 31 name) \<in> set name" using hd_in_set in_set_dropD by metis
    then have "sensible user (Say (drop 31 name))" using that sl assms(3) by (auto simp: MESSAGE_MAX_SIZE_def)
    from handle_line_typed [OF this] show ?thesis by simp
  qed
  ultimately show ?thesis by blast
qed

theorem long_username_is_split_witness:
  "username_prompt (replicate 33 CHR ''a'' @ [NL]) = Some (replicate 31 CHR ''a'', ''aa'' @ [NL]) \<and>
   handle_line ''bob'' ''aa'' = send_or_stop MSG_CHAT ''aa''"
proof -
  have "isalnum CHR ''a''" by code_simp
  moreover have "drop 31 (replicate 33 CHR ''a'') = ''aa''" by (simp add: numeral_2_eq_2)
  ultimately show ?thesis
    using long_username_is_split [of "replicate 33 CHR ''a''" "[]" "''bob''"] by simp
qed

subsection \<open>The display of a listing\<close>

text \<open>A receiver with nothing else to do: no upload is active and the connection works.\<close>

definition listening :: "chat \<Rightarrow> bool" where
  "listening s \<longleftrightarrow> receiver_alive s \<and> client_running s \<and> mtx_script s = [] \<and> upload_state s = UPLOAD_IDLE \<and>
     calm (client_socket s) s"

lemma iteration_shows:
  assumes "listening s" and "is_valid_message_type t" and "length p \<le> MESSAGE_MAX_SIZE" and "is_cstr p"
    and "t = MSG_RESPONSE \<longrightarrow> parse_download_ready p FILE_NAME_MAX_SIZE = NotReady"
    and "inbox (socks s (client_socket s)) = frame t p @ later" and "p \<noteq> ''GOODBYE''"
  shows "\<exists>v. exec (turn receiver_iteration) s = exec (show_message t p) v \<and> listening v \<and> os.more v = os.more s \<and>
    inbox (socks v (client_socket v)) = later"
proof -
  let ?fd = "client_socket s"
  have l: "receiver_alive s" "client_running s" "mtx_script s = []" "upload_state s = UPLOAD_IDLE" "calm ?fd s"
    using assms(1) by (auto simp: listening_def)
  from crecv.accept_complete [OF l(5) assms(2,3,6)] obtain v where
    v: "run_state (client_receive_on ?fd (MESSAGE_MAX_SIZE + 1)) s = ((0, t, p), v)" "calm ?fd v" by blast
  from client_receive_ok [OF v(1)] assms(6) have tk: "took ?fd (8 + length p) s v" and inb: "inbox (socks v ?fd) = later" by auto
  then have more: "os.more v = os.more s" and m: "mtx_script v = []" using l(3) by (auto simp: took_def net_rest_def)
  note same = aside_more(1,2,5,6) [OF more]
  have lv: "listening v" using l v(2) same m by (simp add: listening_def)
  have up: "run_state (upload_client_handle_server_message t p) v = (0, v)"
    using m same l by (simp add: upload_client_handle_server_message_def quiet_lock)
  have dl: "run_state (download_client_handle_server_message ?fd t p (MESSAGE_MAX_SIZE + 1)) v = ((0, None), v)"
    using assms(5) by (simp add: download_client_handle_server_message_def)
  let ?w = "exec (show_message t p) v"
  have "client_running ?w" using same l assms(7)
    by (simp add: show_message_def show_response_def display_def)
  then have "exec (receiver_normal t p) v = ?w" using m by (simp add: receiver_normal_def quiet_lock split_def)
  then have "exec (turn receiver_iteration) s = ?w"
    using l(1,2) v(1) up dl same assms(4)
    by (simp add: turn_def receiver_iteration_def client_receive_message_def receiver_dispatch_def)
  with lv more inb same show ?thesis by auto
qed

text \<open>What is displayed for one entry.\<close>

definition entry_line :: "'z os_scheme \<Rightarrow> string \<Rightarrow> string" where
  "entry_line srv n = [NL] @ ''  '' @ n @ '' ('' @ nat_str (length (content (the (stored srv n)))) @ '' bytes)'' @ [NL]"

lemma show_entry:
  assumes "is_valid_shared_filename n"
  shows "show_file_entry (n @ ''|'' @ nat_str k) = ''  '' @ n @ '' ('' @ nat_str k @ '' bytes)'' @ [NL]"
proof -
  have "CHR ''|'' \<notin> set (nat_str k)" using nat_str_digits [of k] by (auto simp: isdigit_def)
  from strrchr_append [OF this, of n] have "strrchr (n @ ''|'' @ nat_str k) (CHR ''|'') = Some (length n)" by simp
  moreover have "nat_str k \<noteq> []" "n \<noteq> []" using valid_filename_length [OF assms] by auto
  ultimately show ?thesis by (simp add: show_file_entry_def)
qed

lemma entry_shown:
  assumes "listening s" and "file_list_active s" and "listable srv n"
    and "inbox (socks s (client_socket s)) = file_entry srv n @ later"
  shows "\<exists>u. exec (turn receiver_iteration) s = u \<and> listening u \<and> file_list_active u \<and>
    file_list_count u = Suc (file_list_count s) \<and> console u = console s @ [entry_line srv n] \<and>
    inbox (socks u (client_socket u)) = later"
proof -
  let ?k = "length (content (the (stored srv n)))" let ?p = "n @ ''|'' @ nat_str ?k"
  have ok: "is_valid_shared_filename n" "?k \<le> FILE_MAX_SIZE"
    using assms(3) by (auto simp: listable_def split: option.splits)
  have len: "length ?p \<le> MESSAGE_MAX_SIZE"
    using length_nat_str [of ?k 8] ok valid_filename_length [OF ok(1)] by (simp add: MESSAGE_MAX_SIZE_def FILE_MAX_SIZE_def)
  have cs: "is_cstr ?p" using valid_filename_cstr [OF ok(1)] by (simp add: NUL_def)
  have t: "is_valid_message_type MSG_FILELIST" "MSG_FILELIST = MSG_RESPONSE \<longrightarrow> parse_download_ready ?p FILE_NAME_MAX_SIZE = NotReady"
    by (code_simp, simp add: MSG_FILELIST_def MSG_RESPONSE_def)
  have "CHR ''|'' \<in> set ?p" "CHR ''|'' \<notin> set ''GOODBYE''" by simp_all
  then have "?p \<noteq> ''GOODBYE''" by metis
  from iteration_shows [OF assms(1) t(1) len cs t(2) assms(4) [unfolded file_entry_def] this] obtain v where
    v: "exec (turn receiver_iteration) s = exec (show_message MSG_FILELIST ?p) v"
    "listening v" "os.more v = os.more s" "inbox (socks v (client_socket v)) = later" by blast
  have chat: "file_list_active v = file_list_active s" "file_list_count v = file_list_count s" "console v = console s"
    using v(3) by (cases s; cases v; simp)+
  have "exec (show_message MSG_FILELIST ?p) v = v\<lparr>console := console v @ [entry_line srv n], file_list_count := Suc (file_list_count v)\<rparr>"
    using show_entry [OF ok(1), of ?k] chat assms(2)
    by (simp add: show_message_def display_def entry_line_def MSG_FILELIST_def MSG_BROADCAST_def MSG_PRIVATE_def
        MSG_RESPONSE_def MSG_ERROR_def MSG_USERLIST_def)
  with v chat assms(2) show ?thesis by (simp add: listening_def calm_def is_sock_def fd_obj_def)
qed

lemma entries_shown:
  assumes "listening s" and "file_list_active s" and "list_all (listable srv) ms"
    and "inbox (socks s (client_socket s)) = list_text srv ms @ later"
  shows "\<exists>u. exec (turns receiver_iteration (length ms)) s = u \<and> listening u \<and> file_list_active u \<and>
    file_list_count u = file_list_count s + length ms \<and> console u = console s @ map (entry_line srv) ms \<and>
    inbox (socks u (client_socket u)) = later"
  using assms
proof (induction ms arbitrary: s)
  case Nil
  then show ?case by simp
next
  case (Cons n ms)
  from Cons.prems entry_shown [OF Cons.prems(1,2), of srv n "list_text srv ms @ later"] obtain v where
    v: "exec (turn receiver_iteration) s = v" "listening v" "file_list_active v" "file_list_count v = Suc (file_list_count s)"
      "console v = console s @ [entry_line srv n]" "inbox (socks v (client_socket v)) = list_text srv ms @ later" by auto
  from Cons.IH [OF v(2,3) _ v(6)] Cons.prems(3) v show ?case by (auto simp: split_def)
qed

lemma response_shown:
  assumes "listening s" and "is_cstr p" and "length p \<le> MESSAGE_MAX_SIZE" and "prefix ''FILE_LIST_'' p"
    and "inbox (socks s (client_socket s)) = frame MSG_RESPONSE p @ later"
  shows "\<exists>v. exec (turn receiver_iteration) s = exec (show_response p) v \<and> listening v \<and> os.more v = os.more s \<and>
    inbox (socks v (client_socket v)) = later"
proof -
  have t: "is_valid_message_type MSG_RESPONSE" by code_simp
  obtain q where p: "p = ''FILE_LIST_'' @ q" using assms(4) by (auto elim: prefixE)
  then have "parse_download_ready p FILE_NAME_MAX_SIZE = NotReady" "p \<noteq> ''GOODBYE''"
    by (simp_all add: parse_download_ready_def strncmp_eq_def DOWNLOAD_READY_prefix_def)
  moreover have "show_message MSG_RESPONSE p = show_response p"
    by (simp add: show_message_def MSG_BROADCAST_def MSG_PRIVATE_def MSG_RESPONSE_def)
  ultimately show ?thesis using iteration_shows [OF assms(1) t assms(3,2) _ assms(5)] by simp
qed

text \<open>C16: the stream of a complete listing, as the server sends it, makes the receiver thread display
  the heading, one line with name and size for every file in the order of the listing, and a
  closing line, which says so when there is no file; the stream then stands at the next message.\<close>

theorem listing_is_displayed:
  assumes "listening s" and "list_all (listable srv) ms" and "length ms < 2 ^ 31"
    and "inbox (socks s (client_socket s)) = FILE_LIST_BEGIN @ list_text srv ms @ FILE_LIST_END (length ms) @ later"
  shows "\<exists>u. exec (turns receiver_iteration (length ms + 2)) s = u \<and> listening u \<and>
    console u = console s @ [[NL] @ ''[Shared Files]'' @ [NL]] @ map (entry_line srv) ms @
      [[NL] @ (if ms = [] then ''  (none)'' @ [NL] else [])] \<and>
    inbox (socks u (client_socket u)) = later"
proof -
  have split: "exec (turns receiver_iteration (n + k)) s = exec (turns receiver_iteration k) (exec (turns receiver_iteration n) s)" for n k s
    by (induction n arbitrary: s) (simp_all add: split_def)
  from response_shown [OF assms(1), of "''FILE_LIST_BEGIN''"] assms(4) obtain v where
    v: "exec (turn receiver_iteration) s = exec (show_response ''FILE_LIST_BEGIN'') v" "listening v" "os.more v = os.more s"
      "inbox (socks v (client_socket v)) = list_text srv ms @ FILE_LIST_END (length ms) @ later"
    by (auto simp: FILE_LIST_BEGIN_def NUL_def MESSAGE_MAX_SIZE_def)
  let ?w = "v\<lparr>file_list_active := True, file_list_count := 0, console := console v @ [[NL] @ ''[Shared Files]'' @ [NL]]\<rparr>"
  have cv: "console v = console s" by (rule aside_more(11) [OF v(3)])
  have w: "exec (turn receiver_iteration) s = ?w" using v(1) by (simp add: show_response_def display_def)
  have "listening ?w" "inbox (socks ?w (client_socket ?w)) = list_text srv ms @ FILE_LIST_END (length ms) @ later"
    using v(2,4) by (simp_all add: listening_def calm_def is_sock_def fd_obj_def)
  from entries_shown [OF this(1) _ assms(2) this(2)] obtain x where
    x: "exec (turns receiver_iteration (length ms)) ?w = x" "listening x" "file_list_active x" "file_list_count x = length ms"
      "console x = console ?w @ map (entry_line srv) ms" "inbox (socks x (client_socket x)) = FILE_LIST_END (length ms) @ later" by auto
  let ?e = "''FILE_LIST_END '' @ int_str (int (length ms))"
  have len: "length ?e \<le> MESSAGE_MAX_SIZE"
    using length_nat_str [of "length ms" 10] assms(3) by (simp add: int_str_def MESSAGE_MAX_SIZE_def)
  have "is_cstr ?e" by (simp add: NUL_def)
  from response_shown [OF x(2) this len _ x(6) [unfolded FILE_LIST_END_def]] obtain y where
    y: "exec (turn receiver_iteration) x = exec (show_response ?e) y" "listening y" "os.more y = os.more x"
      "inbox (socks y (client_socket y)) = later" by auto
  have cy: "console y = console x" "file_list_active y = file_list_active x" "file_list_count y = file_list_count x"
    using y(3) by (cases y; cases x; simp)+
  let ?u = "y\<lparr>console := console y @ [[NL] @ (if ms = [] then ''  (none)'' @ [NL] else [])], file_list_active := False\<rparr>"
  have u: "exec (turn receiver_iteration) x = ?u"
    using y(1) cy x(3,4) by (simp add: show_response_def display_def strncmp_eq_def)
  have "exec (turns receiver_iteration (length ms + 2)) s = ?u"
    using split [of 1 "length ms + 1" s] split [of "length ms" 1 ?w] w x(1) u by simp
  then show ?thesis using y(2,4) cy x(5) cv by (simp add: listening_def calm_def is_sock_def fd_obj_def)
qed

theorem listing_is_displayed_witness:
  "console (exec (turns receiver_iteration 2) (desk (FILE_LIST_BEGIN @ FILE_LIST_END 0))) =
     [[NL] @ ''[Shared Files]'' @ [NL], [NL] @ ''  (none)'' @ [NL]]"
proof -
  let ?d = "desk (FILE_LIST_BEGIN @ FILE_LIST_END 0)"
  have "listening ?d" "console ?d = []" "inbox (socks ?d (client_socket ?d)) = FILE_LIST_BEGIN @ FILE_LIST_END 0"
    by (simp_all add: listening_def desk_def calm_def is_sock_def fd_obj_def)
  with listing_is_displayed [of ?d "listener []" "[]" "[]"] show ?thesis by (simp add: numeral_2_eq_2)
qed

subsection \<open>Types\<close>



end
