(* ===== verification/Server_Main.thy ===== *)
theory Server_Main
  imports Client_Handler Paths
begin

section \<open>The server program\<close>

text \<open>
  \<open>src/server/main.c\<close>: start-up, the accept loop and shutdown. What the calls of one pass
  of the loop meet is an \<open>accept_event\<close>; the list of them is an argument of the loop, and
  when it is exhausted the next event is a termination signal. Creating a thread hands the
  socket over to \<open>client_handler\<close>; the loop returns the threads it has started. How the
  threads run beside each other is the step relation \<open>server_step\<close>.
\<close>

definition SERVER_PORT :: nat where "SERVER_PORT = 9000"
definition SERVER_BACKLOG :: nat where "SERVER_BACKLOG = 16"

text \<open>A connection with the printed address and the port of the peer, whether \<open>malloc\<close>
  succeeds, the outcome of \<open>pthread_create\<close> and that of \<open>pthread_detach\<close>; or what else
  \<open>accept\<close> may return.\<close>

record connection =
  client_ip :: "string option"
  client_port :: nat
  context_allocated :: bool
  thread_created :: "errno_t + nat"
  thread_detached :: "errno_t option"

datatype accept_event = Connection connection | AcceptError errno_t | Terminate

definition server_handle_signal :: "unit srv" where
  "server_handle_signal = modify (\<lambda>s. s\<lparr>server_running := False\<rparr>)"

definition server_log :: "log_level_t \<Rightarrow> string \<Rightarrow> unit srv" where
  "server_log lvl msg = log_event (lvl, ''SERVER'', msg)"

definition server_log_errno :: "string \<Rightarrow> unit srv" where
  "server_log_errno msg = log_event_errno (\<lambda>e. (LOG_ERROR, ''SERVER'', msg @ strerror e))"

definition server_cleanup :: "unit srv" where
  "server_cleanup = do {
     fd \<leftarrow> gets server_socket;
     if fd \<ge> 0
     then do {
       c \<leftarrow> sys_close fd;
       (if c \<noteq> 0 then server_log LOG_ERROR ''Failed to close listening socket'' else ret ());
       modify (\<lambda>s. s\<lparr>server_socket := - 1\<rparr>)
     }
     else ret ()
   }"

text \<open>A failed step of the set-up closes the socket again.\<close>

definition abandon_socket :: "string \<Rightarrow> int srv" where
  "abandon_socket msg = do {
     server_log_errno msg;
     fd \<leftarrow> gets server_socket;
     _ \<leftarrow> sys_close fd;
     modify (\<lambda>s. s\<lparr>server_socket := - 1\<rparr>);
     ret (- 1)
   }"

definition create_server_socket :: "int srv" where
  "create_server_socket = do {
     fd \<leftarrow> sys_socket;
     modify (\<lambda>s. s\<lparr>server_socket := fd\<rparr>);
     if fd < 0 then do { server_log_errno ''socket() failed: ''; ret (- 1) }
     else do {
       r \<leftarrow> socket_call fd;
       if r < 0 then abandon_socket ''setsockopt(SO_REUSEADDR) failed: ''
       else do {
         r \<leftarrow> socket_call fd;
         if r < 0 then abandon_socket (''bind() failed on port '' @ nat_str SERVER_PORT @ '': '')
         else do {
           r \<leftarrow> socket_call fd;
           if r < 0 then abandon_socket ''listen() failed: '' else ret 0
         }
       }
     }
   }"

subsection \<open>The accept loop\<close>

definition peer_text :: "connection \<Rightarrow> string" where
  "peer_text c = (case client_ip c of None \<Rightarrow> ''unknown'' | Some ip \<Rightarrow> ip) @ '':'' @ nat_str (client_port c)"

type_synonym thread = "int \<times> nat"

text \<open>One accepted connection: the thread started for it, if any.\<close>

definition start_thread :: "connection \<Rightarrow> int \<Rightarrow> thread option srv" where
  "start_thread c fd = do {
     server_log LOG_INFO (''Accepted client connection from '' @ peer_text c);
     if \<not> context_allocated c
     then do {
       server_log LOG_ERROR (''Failed to allocate client context for '' @ peer_text c);
       _ \<leftarrow> sys_close fd;
       ret None
     }
     else (case thread_created c of
         Inl e \<Rightarrow> do {
           server_log LOG_ERROR (''pthread_create failed for '' @ peer_text c @ '': '' @ strerror e);
           _ \<leftarrow> sys_close fd;
           ret None
         }
       | Inr thread \<Rightarrow> do {
           (case thread_detached c of
              None \<Rightarrow> ret ()
            | Some e \<Rightarrow> server_log LOG_WARN (''pthread_detach failed for thread '' @ nat_str thread @ '': '' @ strerror e));
           server_log LOG_DEBUG (''Created client handler thread '' @ nat_str thread);
           ret (Some (fd, thread))
         })
   }"

primrec accept_loop :: "accept_event list \<Rightarrow> thread list srv" where
  "accept_loop [] = do { server_handle_signal; ret [] }"
| "accept_loop (ev # evs) = do {
     running \<leftarrow> gets server_running;
     if \<not> running then ret []
     else (case ev of
         Terminate \<Rightarrow> do { server_handle_signal; ret [] }
       | AcceptError e \<Rightarrow>
           if e = EINTR then accept_loop evs
           else do { set_errno e; server_log_errno ''accept() failed: ''; ret [] }
       | Connection c \<Rightarrow> do {
           fd \<leftarrow> alloc_fd FSock;
           t \<leftarrow> start_thread c fd;
           ts \<leftarrow> accept_loop evs;
           ret ((case t of None \<Rightarrow> [] | Some x \<Rightarrow> [x]) @ ts)
         })
   }"

definition SERVER_EXIT_SUCCESS :: int where "SERVER_EXIT_SUCCESS = 0"
definition SERVER_EXIT_FAILURE :: int where "SERVER_EXIT_FAILURE = 1"

text \<open>The exit status and the threads that were started.\<close>

definition server_main :: "accept_event list \<Rightarrow> (int \<times> thread list) srv" where
  "server_main evs = do {
     ok \<leftarrow> mtx_ok;
     if \<not> ok then do { server_log LOG_ERROR ''sigemptyset() failed''; ret (SERVER_EXIT_FAILURE, []) }
     else do {
       ok \<leftarrow> mtx_ok;
       if \<not> ok
       then do { server_log LOG_ERROR ''Failed to configure SIGINT handler''; ret (SERVER_EXIT_FAILURE, []) }
       else do {
         ok \<leftarrow> mtx_ok;
         if \<not> ok
         then do { server_log LOG_ERROR ''Failed to configure SIGTERM handler''; ret (SERVER_EXIT_FAILURE, []) }
         else do {
           r \<leftarrow> client_manager_init;
           if r \<noteq> 0
           then do { server_log LOG_ERROR ''Client manager initialization failed''; ret (SERVER_EXIT_FAILURE, []) }
           else do {
             r \<leftarrow> create_server_socket;
             if r \<noteq> 0 then ret (SERVER_EXIT_FAILURE, [])
             else do {
               server_log LOG_INFO (''Server started on TCP port '' @ nat_str SERVER_PORT);
               threads \<leftarrow> accept_loop evs;
               server_log LOG_INFO ''Server shutdown initiated'';
               server_cleanup;
               server_log LOG_INFO ''Server stopped'';
               ret (SERVER_EXIT_SUCCESS, threads)
             }
           }
         }
       }
     }
   }"

subsection \<open>The threads\<close>

text \<open>A client thread runs \<open>client_handler\<close>. Where it waits for its client other threads run, so the
  handler is cut there into steps; \<open>phase\<close> says where a thread is.\<close>

datatype phase = Starting | Asked | Serving int string | Leaving int string | Ended

definition refused :: "nat \<Rightarrow> int \<Rightarrow> phase srv" where
  "refused thread fd = do { _ \<leftarrow> sys_close fd; log_event (UnregisteredTerminated thread); ret Ended }"

text \<open>One pass of the receive loop; \<open>False\<close> when the code goes to \<open>connection_end\<close>.\<close>

definition serve_message :: "int \<Rightarrow> int \<Rightarrow> string \<Rightarrow> bool srv" where
  "serve_message fd cid user = do {
     (result, message_type, payload) \<leftarrow> receive_message fd (MESSAGE_MAX_SIZE + 1);
     if result = 1 then do { log_event (UnexpectedDisconnect cid user); ret False }
     else if result < 0 then do { log_event (ReceiveError cid user); ret False }
     else handle_message fd cid user message_type (cstr payload)
   }"

fun thread_step :: "nat \<Rightarrow> int \<Rightarrow> phase \<Rightarrow> phase srv" where
  "thread_step thread fd Starting = do {
     log_event (ThreadStarted thread fd);
     r \<leftarrow> send_message fd MSG_RESPONSE ''USERNAME_REQUIRED'';
     if r \<noteq> 0 then do { log_event (LoginRequestFailed fd); refused thread fd } else ret Asked
   }"
| "thread_step thread fd Asked = do {
     (cid, user) \<leftarrow> login_answer fd USERNAME_MAX_SIZE;
     if cid \<le> 0 then refused thread fd else ret (Serving cid user)
   }"
| "thread_step thread fd (Serving cid user) = do {
     continue \<leftarrow> serve_message fd cid user;
     ret (if continue then Serving cid user else Leaving cid user)
   }"
| "thread_step thread fd (Leaving cid user) = do { connection_end fd cid user; ret Ended }"
| "thread_step thread fd Ended = ret Ended"

text \<open>All threads share the state of the server; each has its own \<open>tid\<close>. The server accepts new
  connections, bytes arrive on open ones, and any thread may take its next step.\<close>

type_synonym threads = "nat \<rightharpoonup> int \<times> phase"

definition client_connected :: "int \<Rightarrow> server \<Rightarrow> server" where
  "client_connected fd s = s\<lparr>fds := (fd, FSock) # fds s,
     socks := (socks s)(fd := \<lparr>inbox = [], outbox = [], shut = False\<rparr>)\<rparr>"

definition arrived :: "int \<Rightarrow> byte list \<Rightarrow> server \<Rightarrow> server" where
  "arrived fd w s = s\<lparr>socks := (socks s)(fd := (socks s fd)\<lparr>inbox := inbox (socks s fd) @ w\<rparr>)\<rparr>"

inductive server_step :: "server \<times> threads \<Rightarrow> server \<times> threads \<Rightarrow> bool" where
  accept: "thread \<notin> dom T \<Longrightarrow> fd = fresh_fd (fds s) \<Longrightarrow>
    server_step (s, T) (client_connected fd s, T(thread \<mapsto> (fd, Starting)))"
| arrive: "server_step (s, T) (arrived fd w s, T)"
| run: "T thread = Some (fd, ph) \<Longrightarrow> ph \<noteq> Ended \<Longrightarrow>
    run_state (thread_step thread fd ph) (s\<lparr>tid := thread\<rparr>) = (ph', s') \<Longrightarrow>
    server_step (s, T) (s', T(thread \<mapsto> (fd, ph')))"

inductive_cases server_stepE: "server_step x y"

end
