(* ===== verification/Threads_Spec.thy ===== *)
theory Threads_Spec
  imports Server_Main Session
begin

section \<open>Client threads beside each other\<close>

text \<open>
  The steps of one thread, taken one after the other, are \<open>client_handler\<close>. With any number of
  threads in any interleaving, the registry of the client manager holds exactly the threads that
  are logged in, each under its own name and with its own socket.
\<close>

subsection \<open>The steps of one thread\<close>

primrec thread_steps :: "nat \<Rightarrow> nat \<Rightarrow> int \<Rightarrow> phase \<Rightarrow> phase srv" where
  "thread_steps 0 thread fd ph = ret ph"
| "thread_steps (Suc n) thread fd ph = do { ph' \<leftarrow> thread_step thread fd ph; thread_steps n thread fd ph' }"

lemma client_loop_serves:
  "client_loop fd cid user s =
    (case run_state (serve_message fd cid user) s of (True, t) \<Rightarrow> client_loop fd cid user t | (False, t) \<Rightarrow> ((), t))"
  unfolding client_loop.simps [of fd cid user s]
  by (auto simp: serve_message_def split: prod.splits if_splits)

lemma serving_steps:
  "\<exists>n. run_state (thread_steps n thread fd (Serving cid user)) s = (Leaving cid user, snd (client_loop fd cid user s))"
proof (induction fd cid user s rule: client_loop.induct)
  case (1 fd cid user s)
  obtain b t where sv: "run_state (serve_message fd cid user) s = (b, t)" by fastforce
  show ?case
  proof (cases b)
    case False
    with sv show ?thesis by (intro exI [of _ 1]) (simp add: client_loop_serves [of fd cid user s])
  next
    case True
    obtain r m p s1 where rx: "run_state (receive_message fd (MESSAGE_MAX_SIZE + 1)) s = ((r, m, p), s1)" by (metis surj_pair)
    with sv True have h: "r \<noteq> 1" "\<not> r < 0" "run_state (handle_message fd cid user m (cstr p)) s1 = (True, t)"
      by (auto simp: serve_message_def split_def split: if_splits)
    from "1.IH" [OF rx [symmetric] refl refl h(1,2) h(3) [symmetric] refl] obtain n where
      "run_state (thread_steps n thread fd (Serving cid user)) t = (Leaving cid user, snd (client_loop fd cid user t))" by blast
    with sv True show ?thesis by (intro exI [of _ "Suc n"]) (simp add: client_loop_serves [of fd cid user s])
  qed
qed

lemma thread_steps_add:
  "thread_steps (m + n) thread fd ph = do { ph' \<leftarrow> thread_steps m thread fd ph; thread_steps n thread fd ph' }"
  by (induction m arbitrary: ph) (simp_all add: State_Monad.bind_assoc)

text \<open>A thread that is refused, or that has come to the end, stays there.\<close>

lemma ended_steps: "thread_steps n thread fd Ended = ret Ended"
  by (induction n) simp_all

lemma handler_steps:
  "\<exists>n. run_state (thread_steps n (tid s) fd Starting) s = (Ended, exec (client_handler fd) s)"
proof -
  let ?th = "tid s"
  let ?s1 = "exec (log_event (ThreadStarted ?th fd)) s"
  obtain r s2 where b: "run_state (send_message fd MSG_RESPONSE ''USERNAME_REQUIRED'') ?s1 = (r, s2)" by fastforce
  show ?thesis
  proof (cases "r = 0")
    case False
    then have "run_state (thread_steps 1 ?th fd Starting) s = (Ended, exec (client_handler fd) s)"
      using b by (simp add: client_handler_def perform_login_def refused_def split_def)
    then show ?thesis by blast
  next
    case True
    obtain cid user s3 where c: "run_state (login_answer fd USERNAME_MAX_SIZE) s2 = ((cid, user), s3)" by (metis surj_pair)
    have pl: "run_state (perform_login fd USERNAME_MAX_SIZE) ?s1 = ((cid, user), s3)" using b c True by (simp add: perform_login_def)
    have asked: "run_state (thread_steps (Suc n) ?th fd Starting) s = run_state (thread_steps n ?th fd Asked) s2" for n
      using b True by (simp add: split_def)
    show ?thesis
    proof (cases "cid \<le> 0")
      case True
      then have "run_state (thread_steps (Suc 1) ?th fd Starting) s = (Ended, exec (client_handler fd) s)"
        unfolding asked using c pl by (simp add: client_handler_def refused_def split_def)
      then show ?thesis by blast
    next
      case False
      from serving_steps [of ?th fd cid user s3] obtain n where
        n: "run_state (thread_steps n ?th fd (Serving cid user)) s3 = (Leaving cid user, snd (client_loop fd cid user s3))" by blast
      have "run_state (thread_steps (Suc (Suc (n + 1))) ?th fd Starting) s = (Ended, exec (client_handler fd) s)"
        unfolding asked thread_steps.simps(2) [of "n + 1"] thread_steps_add
        using c n False pl by (simp add: client_handler_def split_def)
      then show ?thesis by blast
    qed
  qed
qed

subsection \<open>Any number of threads\<close>

fun session_of :: "phase \<Rightarrow> (string \<times> int) option" where
  "session_of (Serving cid user) = Some (user, cid)"
| "session_of (Leaving cid user) = Some (user, cid)"
| "session_of _ = None"

text \<open>The socket of a thread that has not ended, and the name, socket and identifier of a logged-in one.\<close>

definition owner :: "threads \<Rightarrow> nat \<rightharpoonup> int" where
  "owner T th = (case T th of Some (fd, ph) \<Rightarrow> if ph = Ended then None else Some fd | None \<Rightarrow> None)"

definition session :: "threads \<Rightarrow> nat \<rightharpoonup> string \<times> int \<times> int" where
  "session T th = (case T th of
     Some (fd, ph) \<Rightarrow> map_option (\<lambda>(n, cid). (n, fd, cid)) (session_of ph) | None \<Rightarrow> None)"

lemma owner_upd [simp]: "owner (T(th \<mapsto> (fd, ph))) = (owner T)(th := if ph = Ended then None else Some fd)"
  by (rule ext) (simp add: owner_def)

lemma session_upd [simp]:
  "session (T(th \<mapsto> (fd, ph))) = (session T)(th := map_option (\<lambda>(n, cid). (n, fd, cid)) (session_of ph))"
  by (rule ext) (simp add: session_def)

lemma session_owner: "session T th = Some (n, fd, cid) \<Longrightarrow> owner T th = Some fd"
  by (auto simp: session_def owner_def split: option.splits prod.splits if_splits)

lemma sessions_ran:
  "ran (session T) = {(n, fd, cid). \<exists>th. T th = Some (fd, Serving cid n) \<or> T th = Some (fd, Leaving cid n)}"
proof -
  have "session T th = Some (n, fd, cid) \<longleftrightarrow> T th = Some (fd, Serving cid n) \<or> T th = Some (fd, Leaving cid n)" for th n fd cid
  proof (cases "T th")
    case (Some x)
    then show ?thesis by (cases x; cases "snd x") (auto simp: session_def)
  qed (simp add: session_def)
  then show ?thesis by (simp add: ran_def set_eq_iff)
qed

lemma owners_ran: "ran (owner T) = {fd. \<exists>th ph. T th = Some (fd, ph) \<and> ph \<noteq> Ended}"
proof -
  have "owner T th = Some fd \<longleftrightarrow> (\<exists>ph. T th = Some (fd, ph) \<and> ph \<noteq> Ended)" for th fd
    by (cases "T th") (auto simp: owner_def split: if_splits)
  then show ?thesis by (simp add: ran_def)
qed

lemma ran_remove:
  assumes "m a = Some v" and "\<And>b. m b = Some v \<Longrightarrow> b = a"
  shows "ran (m(a := None)) = ran m - {v}"
proof (rule set_eqI)
  fix x
  have "(\<exists>b. b \<noteq> a \<and> m b = Some x) \<longleftrightarrow> (\<exists>b. m b = Some x) \<and> x \<noteq> v" using assms by (metis option.inject)
  then show "x \<in> ran (m(a := None)) \<longleftrightarrow> x \<in> ran m - {v}" by (auto simp: ran_def)
qed

lemma fds_delete: "fst ` set (AList.delete fd xs) = fst ` set xs - {fd}"
  by (induction xs) auto

text \<open>What the client manager says of the sessions.\<close>

definition registered :: "server \<Rightarrow> (string \<times> int \<times> int) set" where
  "registered s = {(n, fd, sint i) | n fd i. registry s n = Some (fd, i)}"

lemma registered_name: "(n, x) \<in> registered s \<Longrightarrow> (n, y) \<in> registered s \<Longrightarrow> x = y"
  by (auto simp: registered_def)

lemma registered_others:
  assumes "(n, y) \<in> registered s"
  shows "registered s - {(n, y)} = {x \<in> registered s. fst x \<noteq> n}"
proof (rule set_eqI)
  fix x :: "string \<times> int \<times> int"
  obtain m z where x: "x = (m, z)" by (metis surj_pair)
  show "x \<in> registered s - {(n, y)} \<longleftrightarrow> x \<in> {x \<in> registered s. fst x \<noteq> n}"
    using registered_name [of n z s y] assms by (cases "m = n") (auto simp: x)
qed

lemma registered_remove: "registry s' = (registry s)(n := None) \<Longrightarrow> registered s' = {x \<in> registered s. fst x \<noteq> n}"
  by (auto simp: registered_def)

lemma registered_add:
  assumes "registry s' = (registry s)(n \<mapsto> (fd, i))" and "registry s n = None"
  shows "registered s' = insert (n, fd, sint i) (registered s)"
proof (rule set_eqI)
  fix x :: "string \<times> int \<times> int"
  obtain m f c where x: "x = (m, f, c)" by (metis surj_pair)
  show "x \<in> registered s' \<longleftrightarrow> x \<in> insert (n, fd, sint i) (registered s)"
    using assms by (cases "m = n") (auto simp: registered_def x)
qed

lemma registered_same: "registry s' = registry s \<Longrightarrow> registered s' = registered s"
  by (simp add: registered_def)

lemma registered_empty: "registered s = {} \<Longrightarrow> registry s = Map.empty"
proof (rule ext)
  fix n
  assume "registered s = {}"
  then have "registry s n \<noteq> Some (fd, i)" for fd i by (auto simp: registered_def)
  then show "registry s n = None" by (cases "registry s n") auto
qed

text \<open>The registry holds exactly the logged-in threads; no two threads share a socket, and besides the
  descriptors \<open>F\<close> only the sockets of threads are open.\<close>

definition threads_ok :: "int set \<Rightarrow> server \<Rightarrow> threads \<Rightarrow> bool" where
  "threads_ok F s T \<longleftrightarrow> sound s \<and> registered s = ran (session T) \<and>
     inj_on (owner T) (dom (owner T)) \<and> (\<forall>fd \<in> ran (owner T). 0 \<le> fd \<and> fd \<notin> F) \<and>
     fst ` set (fds s) = F \<union> ran (owner T)"

lemma threads_okD:
  assumes "threads_ok F s T"
  shows "sound s" "registered s = ran (session T)" "fst ` set (fds s) = F \<union> ran (owner T)"
    and "owner T th = Some fd \<Longrightarrow> owner T th' = Some fd \<Longrightarrow> th' = th"
    and "owner T th = Some fd \<Longrightarrow> 0 \<le> fd \<and> fd \<notin> F"
proof -
  show "sound s" "registered s = ran (session T)" "fst ` set (fds s) = F \<union> ran (owner T)"
    using assms by (simp_all add: threads_ok_def)
  show "th' = th" if "owner T th = Some fd" "owner T th' = Some fd"
    using assms that inj_onD [of "owner T" "dom (owner T)" th' th] by (simp add: threads_ok_def dom_def)
  show "0 \<le> fd \<and> fd \<notin> F" if "owner T th = Some fd"
    using assms ranI [of "owner T" th fd] that by (simp add: threads_ok_def)
qed

lemma quiet_step:
  assumes "threads_ok F s T" and "T th = Some (fd, ph)" and "ph \<noteq> Ended" and "ph' \<noteq> Ended" and "session_of ph' = session_of ph"
    and "sound s'" and "registry s' = registry s" and "fds s' = fds s"
  shows "threads_ok F s' (T(th \<mapsto> (fd, ph')))"
proof -
  have "owner (T(th \<mapsto> (fd, ph'))) = owner T" using assms(2-4) by (auto simp: owner_def fun_eq_iff)
  moreover have "session (T(th \<mapsto> (fd, ph'))) = session T" using assms(2,5) by (auto simp: session_def fun_eq_iff)
  ultimately show ?thesis using assms(1,6,8) registered_same [OF assms(7)] by (simp add: threads_ok_def)
qed

lemma inj_map_upd:
  assumes "inj_on m (dom m)"
  shows "inj_on (m(a := None)) (dom (m(a := None)))" and "v \<notin> ran m \<Longrightarrow> inj_on (m(a \<mapsto> v)) (dom (m(a \<mapsto> v)))"
proof -
  show "inj_on (m(a := None)) (dom (m(a := None)))" using assms by (simp add: inj_on_def)
  show "inj_on (m(a \<mapsto> v)) (dom (m(a \<mapsto> v)))" if "v \<notin> ran m"
  proof (rule inj_onI)
    fix x y
    assume "x \<in> dom (m(a \<mapsto> v))" "y \<in> dom (m(a \<mapsto> v))" "(m(a \<mapsto> v)) x = (m(a \<mapsto> v)) y"
    moreover have "m z \<noteq> Some v" for z using that by (auto simp: ran_def)
    ultimately show "x = y" using inj_onD [OF assms, of x y] by (simp add: dom_def split: if_splits)
  qed
qed

text \<open>The socket is closed: the thread has ended, and if it was logged in its name is free again.\<close>

lemma end_step:
  assumes ok: "threads_ok F s T" and th: "T th = Some (fd, ph)" "ph \<noteq> Ended"
    and s': "sound s'" "fds s' = AList.delete fd (fds s)"
      "registry s' = (case session_of ph of None \<Rightarrow> registry s | Some (n, cid) \<Rightarrow> (registry s)(n := None))"
  shows "threads_ok F s' (T(th \<mapsto> (fd, Ended)))"
proof -
  note D = threads_okD [OF ok]
  have own: "owner T th = Some fd" using th by (simp add: owner_def)
  have ran: "ran ((owner T)(th := None)) = ran (owner T) - {fd}" by (rule ran_remove [where m = "owner T", OF own]) (rule D(4) [OF own])
  have fds: "fst ` set (fds s') = F \<union> (ran (owner T) - {fd})"
    using D(3) D(5) [OF own] s'(2) by (auto simp: fds_delete)
  have reg: "registered s' = ran ((session T)(th := None))"
  proof (cases "session_of ph")
    case None
    then have "(session T)(th := None) = session T" using th by (auto simp: session_def fun_eq_iff)
    moreover have "registered s' = registered s" by (rule registered_same) (use s'(3) None in simp)
    ultimately show ?thesis using D(2) by simp
  next
    case (Some x)
    obtain m cid where x: "x = (m, cid)" by fastforce
    have ses: "session T th = Some (m, fd, cid)" using th Some x by (simp add: session_def)
    have "ran ((session T)(th := None)) = ran (session T) - {(m, fd, cid)}"
      by (rule ran_remove [where m = "session T", OF ses]) (rule D(4) [OF own], erule session_owner)
    also have "\<dots> = {x \<in> registered s. fst x \<noteq> m}"
    proof -
      have "(m, fd, cid) \<in> registered s" using D(2) ranI [of "session T", OF ses] by simp
      from registered_others [OF this] show ?thesis unfolding D(2) .
    qed
    finally show ?thesis using registered_remove [of s' s m] s'(3) Some x by simp
  qed
  show ?thesis
    using ok fds reg ran s'(1) inj_map_upd(1) [of "owner T" th] by (simp add: threads_ok_def)
qed

lemma login_step:
  assumes ok: "threads_ok F s T" and th: "T th = Some (fd, Asked)"
    and s': "sound s'" "fds s' = fds s" "registry s' = (registry s)(user \<mapsto> (fd, i))" "registry s user = None"
  shows "threads_ok F s' (T(th \<mapsto> (fd, Serving (sint i) user)))"
proof -
  have "owner (T(th \<mapsto> (fd, Serving (sint i) user))) = owner T" using th by (auto simp: owner_def fun_eq_iff)
  moreover have "session T th = None" using th by (simp add: session_def)
  then have "ran ((session T)(th \<mapsto> (user, fd, sint i))) = insert (user, fd, sint i) (ran (session T))" by simp
  ultimately show ?thesis
    using ok s' registered_add [OF s'(3,4)] by (simp add: threads_ok_def)
qed

lemma free_socket:
  assumes "threads_ok F s T" and "T th = Some (fd, ph)" and "ph \<noteq> Ended" and "session_of ph = None"
  shows "free_fd fd s" and "fd_obj s fd \<noteq> None"
proof -
  note D = threads_okD [OF assms(1)]
  have own: "owner T th = Some fd" using assms(2,3) by (simp add: owner_def)
  have "registry s m \<noteq> Some (fd, i)" for m i
  proof
    assume "registry s m = Some (fd, i)"
    then have "(m, fd, sint i) \<in> ran (session T)" using D(2) by (auto simp: registered_def)
    then obtain th' where ses: "session T th' = Some (m, fd, sint i)" by (auto simp: ran_def)
    from D(4) [OF own session_owner [OF ses]] ses assms(2,4) show False by (simp add: session_def)
  qed
  then show "free_fd fd s" using D(5) [OF own] by (simp add: free_fd_def)
  have "fd \<in> fst ` set (fds s)" using D(3) ranI [of "owner T", OF own] by simp
  then show "fd_obj s fd \<noteq> None" by (simp add: fd_obj_def map_of_eq_None_iff)
qed

lemma refused_step:
  assumes "threads_ok F s T" and "T th = Some (fd, ph)" and "ph \<noteq> Ended" and "session_of ph = None"
    and "run_state (refused th fd) t = (x, s')" and "sound t" and "registry t = registry s" and "fds t = fds s"
  shows "threads_ok F s' (T(th \<mapsto> (fd, x)))"
proof -
  have "fd_obj t fd \<noteq> None" using free_socket(2) [OF assms(1-4)] assms(8) by (simp add: fd_obj_def)
  moreover have "state_io_rel tidy (do { log_event (UnregisteredTerminated th); ret Ended })"
    by (intro tidy.io_sys tidy_base)
  ultimately have "sound s' \<and> registry s' = registry t \<and> fds s' = AList.delete fd (fds t)"
    using close_session [of fd _ t x s'] assms(5,6) unfolding refused_def by blast
  moreover have "x = Ended" using assms(5) by (auto simp: refused_def split_def)
  ultimately show ?thesis using end_step [OF assms(1-3), of s'] assms(4,7,8) by simp
qed

text \<open>New connections and arriving bytes do not touch the client manager.\<close>

lemma desk_same:
  assumes "clients t = clients s" and "manager_initialized t = manager_initialized s" and "mtx_script t = mtx_script s"
    and "clients_mutex t = clients_mutex s" and "blocked t = blocked s"
  shows "settled t = settled s" and "registry t = registry s"
proof -
  show "settled t = settled s" using assms by (simp add: settled_def idle_def registry_inv_def table_def)
  have "find_username_slot n t = find_username_slot n s" for n using assms(1) by (simp add: find_table table_def)
  then show "registry t = registry s" using assms(1) by (simp add: registry_def fun_eq_iff Let_def)
qed

lemma outside:
  assumes "sound s"
  shows "sound (s\<lparr>tid := th\<rparr>) \<and> registry (s\<lparr>tid := th\<rparr>) = registry s"
    and "sound (arrived fd w s) \<and> registry (arrived fd w s) = registry s"
    and "sound (client_connected fd s) \<and> registry (client_connected fd s) = registry s"
  using assms desk_same [of "s\<lparr>tid := th\<rparr>" s] desk_same [of "arrived fd w s" s] desk_same [of "client_connected fd s" s]
  by (auto simp: sound_def wf_locks_def wf_storage_def entry_def arrived_def client_connected_def)

lemma tidy_serve: "state_io_rel tidy (serve_message fd cid user)"
  unfolding serve_message_def by (intro tidy.io_sys tidy_base tidy_receive tidy_handle_message)

lemma starting_ok:
  assumes ok: "threads_ok F s T" and th: "T th = Some (fd, Starting)"
    and run: "run_state (thread_step th fd Starting) s = (ph', s')"
  shows "threads_ok F s' (T(th \<mapsto> (fd, ph')))"
proof -
  let ?ask = "do { log_event (ThreadStarted th fd); send_message fd MSG_RESPONSE ''USERNAME_REQUIRED'' }"
  obtain r s1 where a: "run_state ?ask s = (r, s1)" by fastforce
  have "state_io_rel tidy ?ask" by (intro tidy.io_sys tidy_base tidy_send)
  from state_io_relD [OF this a] have t: "tidy s s1" .
  define s2 where "s2 = exec (log_event (LoginRequestFailed fd)) s1"
  have t2: "tidy s s2" using tidy.trans [OF t io_rel_exec [OF tidy_base(1)]] by (simp add: s2_def)
  note D = threads_okD(1) [OF ok]
  have "ph' = Asked \<and> s' = s1 \<or> run_state (refused th fd) s2 = (ph', s')"
    using run a by (auto simp: s2_def split_def split: if_splits)
  then show ?thesis
  proof
    assume "ph' = Asked \<and> s' = s1"
    then show ?thesis using quiet_step [OF ok th, of Asked s1] sound_registry [OF t D] by simp
  next
    assume "run_state (refused th fd) s2 = (ph', s')"
    from refused_step [OF ok th _ _ this] sound_registry [OF t2 D] show ?thesis by simp
  qed
qed

lemma asked_ok:
  assumes ok: "threads_ok F s T" and th: "T th = Some (fd, Asked)" and pos: "0 < sint (next_client_id s)"
    and run: "run_state (thread_step th fd Asked) s = (ph', s')"
  shows "threads_ok F s' (T(th \<mapsto> (fd, ph')))"
proof -
  obtain cid user s1 where a: "run_state (login_answer fd USERNAME_MAX_SIZE) s = ((cid, user), s1)" by (metis surj_pair)
  have "free_fd fd s" by (rule free_socket(1) [OF ok th]) simp_all
  note L = login_answer_spec [OF a threads_okD(1) [OF ok] this pos]
  show ?thesis
  proof (cases "cid \<le> 0")
    case True
    then have ref: "run_state (refused th fd) s1 = (ph', s')" using run a by simp
    have "sound s1 \<and> registry s1 = registry s \<and> fds s1 = fds s" using L True pos by (auto simp: logged_in_def)
    then show ?thesis using refused_step [OF ok th _ _ ref] by simp
  next
    case False
    then have "ph' = Serving (sint (next_client_id s)) user" "s' = s1" using run a L by (auto simp: logged_in_def)
    then show ?thesis using login_step [OF ok th, of s1 user "next_client_id s"] L False by (auto simp: logged_in_def)
  qed
qed

lemma leaving_ok:
  assumes ok: "threads_ok F s T" and th: "T th = Some (fd, Leaving cid user)"
    and run: "run_state (thread_step th fd (Leaving cid user)) s = (ph', s')"
  shows "threads_ok F s' (T(th \<mapsto> (fd, ph')))"
proof -
  have own: "session T th = Some (user, fd, cid)" using th by (simp add: session_def)
  note D = threads_okD [OF ok]
  have "(user, fd, cid) \<in> registered s" using D(2) ranI [of "session T", OF own] by simp
  then obtain i where reg: "registry s user = Some (fd, i)" by (auto simp: registered_def)
  have "fd \<in> fst ` set (fds s)" using D(3) ranI [of "owner T", OF session_owner [OF own]] by simp
  then have obj: "fd_obj s fd \<noteq> None" by (simp add: fd_obj_def map_of_eq_None_iff)
  obtain x s1 where a: "run_state (connection_end fd cid user) s = (x, s1)" by (rule that [OF surjective_pairing])
  have "s' = s1" "ph' = Ended" using run a by auto
  then show ?thesis using end_step [OF ok th, of s1] connection_end_spec [OF a D(1) obj reg] by simp
qed

lemma thread_step_ok:
  assumes ok: "threads_ok F s T" and th: "T th = Some (fd, ph)" and "ph \<noteq> Ended" and "0 < sint (next_client_id s)"
    and run: "run_state (thread_step th fd ph) s = (ph', s')"
  shows "threads_ok F s' (T(th \<mapsto> (fd, ph')))"
proof (cases ph)
  case (Serving cid user)
  obtain b s1 where a: "run_state (serve_message fd cid user) s = (b, s1)" by fastforce
  note S = sound_registry [OF state_io_relD [OF tidy_serve a] threads_okD(1) [OF ok]]
  have "s' = s1" "ph' \<noteq> Ended" "session_of ph' = session_of ph" using run a Serving by (auto split: if_splits)
  then show ?thesis using quiet_step [OF ok th assms(3), of ph' s1] S by simp
qed (use starting_ok [OF ok] asked_ok [OF ok] leaving_ok [OF ok] th run assms(3,4) in \<open>simp_all only: simp_thms\<close>)

lemma outside_ok:
  assumes "threads_ok F s T" and "sound t \<and> registry t = registry s" and "fds t = fds s"
  shows "threads_ok F t T"
  using assms registered_same [of t s] by (simp add: threads_ok_def)

lemma accept_ok:
  assumes "threads_ok F s T" and "th \<notin> dom T" and "fd = fresh_fd (fds s)"
  shows "threads_ok F (client_connected fd s) (T(th \<mapsto> (fd, Starting)))"
proof -
  note D = threads_okD [OF assms(1)] and fd = fresh_fd_props [of "fds s"] and C = outside(3) [OF threads_okD(1) [OF assms(1)], of fd]
  have "T th = None" using assms(2) by blast
  then have new: "owner T th = None" "session T th = None" by (simp_all add: owner_def session_def)
  have notin: "fd \<notin> ran (owner T)" "fd \<notin> F" "0 \<le> fd" using fd D(3) assms(3) by auto
  have own: "ran ((owner T)(th \<mapsto> fd)) = insert fd (ran (owner T))" using new by simp
  have ses: "(session T)(th := None) = session T" using new by (simp add: fun_upd_idem)
  have fds: "fst ` set (fds (client_connected fd s)) = insert fd (F \<union> ran (owner T))" using D(3) by (simp add: client_connected_def)
  show ?thesis
    using assms(1) C registered_same [of "client_connected fd s" s] notin own ses fds inj_map_upd(2) [of "owner T" fd th]
    by (simp add: threads_ok_def)
qed

lemma server_step_ok:
  assumes "server_step x y" and "threads_ok F (fst x) (snd x)" and "0 < sint (next_client_id (fst x))"
  shows "threads_ok F (fst y) (snd y)"
  using assms
proof induction
  case (accept th T fd s)
  from accept_ok [OF _ accept(1,2)] accept(3) show ?case unfolding fst_conv snd_conv .
next
  case (arrive s T fd w)
  then show ?case using outside_ok [of F s T] outside(2) [of s fd w] threads_okD(1) by (simp add: arrived_def)
next
  case (run T th fd ph s ph' s')
  then have "threads_ok F (s\<lparr>tid := th\<rparr>) T" using outside_ok [of F s T] outside(1) [of s th] threads_okD(1) by simp
  from thread_step_ok [OF this run(1,2) _ run(3)] run(5) have "threads_ok F s' (T(th \<mapsto> (fd, ph')))" by simp
  then show ?case unfolding fst_conv snd_conv .
qed

text \<open>Any sequence of steps, as long as the identifiers stay positive.\<close>

definition good_step :: "server \<times> threads \<Rightarrow> server \<times> threads \<Rightarrow> bool" where
  "good_step x y \<longleftrightarrow> server_step x y \<and> 0 < sint (next_client_id (fst x))"

lemma good_stepI: "server_step (s, T) y \<Longrightarrow> 0 < sint (next_client_id s) \<Longrightarrow> good_step (s, T) y"
  by (simp add: good_step_def)

lemma reachable_ok:
  assumes "good_step\<^sup>*\<^sup>* x y" and "threads_ok F (fst x) (snd x)"
  shows "threads_ok F (fst y) (snd y)"
  using assms by (induction rule: rtranclp_induct) (auto simp: good_step_def intro: server_step_ok)

lemma no_threads_ok:
  assumes "sound s" and "registry s = Map.empty"
  shows "threads_ok (fst ` set (fds s)) s Map.empty"
proof -
  have "owner Map.empty = Map.empty" "session Map.empty = Map.empty" by (simp_all add: owner_def session_def fun_eq_iff)
  then show ?thesis using assms by (simp add: threads_ok_def registered_def)
qed

end
