(* ===== verification/Server_Properties.thy ===== *)
theory Server_Properties
  imports Threads_Spec Handler_Properties "HOL-Library.Code_Target_Nat"
begin

section \<open>The server program\<close>

text \<open>
  Every connection the server accepts is either handed to exactly one thread or closed again, and the
  listening socket is closed in the end; the table of clients is fit for the sessions of the threads.
\<close>






subsection \<open>The accept loop\<close>






subsection \<open>The listening socket\<close>





subsection \<open>The whole program\<close>





subsection \<open>The threads\<close>


text \<open>C4: however new connections, arriving bytes and the steps of the threads interleave, and whatever fails,
  the registry holds exactly the threads that are logged in, with their sockets and identifiers. No two of
  them share a name or a socket. The sockets of the threads that have not ended are open, and nothing
  else is; when all threads have ended the registry is empty.\<close>

theorem concurrent_sessions_are_separate:
  assumes "idle u" and "registry_inv u" and "wf_locks u" and "wf_storage u" and "registry u = Map.empty"
    and "good_step\<^sup>*\<^sup>* (u, Map.empty) (s, T)"
  shows "idle s \<and> registry_inv s \<and>
    registered s = {(n, fd, cid). \<exists>th. T th = Some (fd, Serving cid n) \<or> T th = Some (fd, Leaving cid n)} \<and>
    (\<forall>a b n n' fd fd' cid cid'. a \<noteq> b \<and> session T a = Some (n, fd, cid) \<and> session T b = Some (n', fd', cid') \<longrightarrow>
       n \<noteq> n' \<and> fd \<noteq> fd') \<and>
    fst ` set (fds s) = fst ` set (fds u) \<union> {fd. \<exists>th ph. T th = Some (fd, ph) \<and> ph \<noteq> Ended} \<and>
    ((\<forall>th fd ph. T th = Some (fd, ph) \<longrightarrow> ph = Ended) \<longrightarrow> registry s = Map.empty)"
proof -
  have "sound u" using assms(1-4) by (simp add: sound_def settled_def)
  from reachable_ok [OF assms(6), of "fst ` set (fds u)"] no_threads_ok [OF this assms(5)]
  have ok: "threads_ok (fst ` set (fds u)) s T" by simp
  note D = threads_okD [OF ok]
  have apart: "n \<noteq> n' \<and> fd \<noteq> fd'"
    if "a \<noteq> b" "session T a = Some (n, fd, cid)" "session T b = Some (n', fd', cid')" for a b n n' fd fd' cid cid'
  proof -
    have "fd \<noteq> fd'" using D(4) [OF session_owner [OF that(2)]] session_owner [OF that(3)] that(1) by auto
    moreover have "(n, fd, cid) \<in> registered s" "(n', fd', cid') \<in> registered s" using that D(2) by (auto intro: ranI)
    ultimately show ?thesis using registered_name by blast
  qed
  have "registry s = Map.empty" if "\<forall>th fd ph. T th = Some (fd, ph) \<longrightarrow> ph = Ended"
  proof -
    have "registered s = {}" using that D(2) session_owner sessions_ran [of T] by auto
    then show ?thesis by (rule registered_empty)
  qed
  moreover have "\<forall>a b n n' fd fd' cid cid'. a \<noteq> b \<and> session T a = Some (n, fd, cid) \<and> session T b = Some (n', fd', cid') \<longrightarrow>
      n \<noteq> n' \<and> fd \<noteq> fd'" using apart by blast
  moreover have "idle s" "registry_inv s" using D(1) by (simp_all add: sound_def settled_def)
  ultimately show ?thesis unfolding sessions_ran [symmetric] owners_ran [symmetric] D(2) [symmetric] using D(3) by blast
qed

text \<open>A client connects, is asked for its name and logs in.\<close>

definition vacant :: server where
  "vacant = nobody\<lparr>log_script := replicate 9 (Fault EINVAL)\<rparr>"

definition after :: "phase \<Rightarrow> server \<Rightarrow> phase \<times> server" where
  "after ph s = run_state (thread_step 11 0 ph) (s\<lparr>tid := 11\<rparr>)"

definition visitor :: server where
  "visitor = client_connected 0 vacant"

definition asked :: server where
  "asked = arrived 0 (frame MSG_LOGIN ''alice'') (snd (after Starting visitor))"

definition alone :: "phase \<Rightarrow> threads" where
  "alone ph = [11 \<mapsto> (0, ph)]"

lemma visit:
  "(case after Starting visitor of (ph, s) \<Rightarrow> ph = Asked \<and> 0 < sint (next_client_id s))"
  "fst (after Asked asked) = Serving 1 ''alice''"
  by code_simp+

lemma visit_ids:
  "0 < sint (next_client_id vacant)" "0 < sint (next_client_id visitor)"
  "0 < sint (next_client_id (snd (after Starting visitor)))" "0 < sint (next_client_id asked)"
proof -
  show "0 < sint (next_client_id vacant)" "0 < sint (next_client_id visitor)"
    by (simp_all add: visitor_def client_connected_def vacant_def nobody_def)
  show "0 < sint (next_client_id (snd (after Starting visitor)))" using visit(1) by (simp add: split_def)
  then show "0 < sint (next_client_id asked)" by (simp add: asked_def arrived_def)
qed

lemma alone_step:
  assumes "after ph t = (ph', t')" and "ph \<noteq> Ended"
  shows "server_step (t, alone ph) (t', alone ph')"
  using server_step.run [of "alone ph" 11 0 ph t ph' t'] assms by (simp add: after_def alone_def)

lemma fresh_vacant: "fresh_fd (fds vacant) = 0"
  by code_simp

lemma alone_reach:
  "good_step\<^sup>*\<^sup>* (vacant, Map.empty) (snd (after Asked asked), alone (Serving 1 ''alice''))"
proof -
  have "server_step (vacant, Map.empty) (visitor, alone Starting)"
    unfolding visitor_def alone_def by (rule server_step.accept) (simp_all add: fresh_vacant)
  then have "good_step (vacant, Map.empty) (visitor, alone Starting)" by (rule good_stepI [OF _ visit_ids(1)])
  moreover have "server_step (visitor, alone Starting) (snd (after Starting visitor), alone Asked)"
    by (rule alone_step) (use visit(1) in \<open>simp_all add: split_def prod_eq_iff\<close>)
  then have "good_step (visitor, alone Starting) (snd (after Starting visitor), alone Asked)" by (rule good_stepI [OF _ visit_ids(2)])
  moreover have "good_step (snd (after Starting visitor), alone Asked) (asked, alone Asked)"
    unfolding asked_def by (rule good_stepI [OF server_step.arrive visit_ids(3)])
  moreover have "server_step (asked, alone Asked) (snd (after Asked asked), alone (Serving 1 ''alice''))"
    by (rule alone_step) (simp_all add: visit(2) prod_eq_iff)
  then have "good_step (asked, alone Asked) (snd (after Asked asked), alone (Serving 1 ''alice''))" by (rule good_stepI [OF _ visit_ids(4)])
  ultimately show ?thesis by (meson converse_rtranclp_into_rtranclp rtranclp.rtrancl_refl)
qed

lemma vacant_ok: "idle vacant" "registry_inv vacant" "wf_locks vacant" "wf_storage vacant" "registry vacant = Map.empty"
proof -
  have "clients vacant = clients nobody" "manager_initialized vacant = manager_initialized nobody" "mtx_script vacant = mtx_script nobody"
    "clients_mutex vacant = clients_mutex nobody" "blocked vacant = blocked nobody" by (simp_all add: vacant_def)
  note D = desk_same [OF this]
  show "idle vacant" "registry_inv vacant" "registry vacant = Map.empty" using D nobody_ok by (simp_all add: settled_def)
  show "wf_locks vacant" "wf_storage vacant"
    by (simp_all add: wf_locks_def wf_storage_def entry_def vacant_def nobody_def boot_def)
qed

theorem concurrent_sessions_are_separate_witness:
  "\<exists>s. good_step\<^sup>*\<^sup>* (vacant, Map.empty) (s, [11 \<mapsto> (0, Serving 1 ''alice'')]) \<and>
     registered s = {(''alice'', 0, 1)} \<and> fst ` set (fds s) = {0, 3, 4, 5}"
proof -
  note all = concurrent_sessions_are_separate [OF vacant_ok alone_reach]
  let ?s = "snd (after Asked asked)" and ?T = "alone (Serving 1 ''alice'')"
  have "{(n, fd, cid). \<exists>th. ?T th = Some (fd, Serving cid n) \<or> ?T th = Some (fd, Leaving cid n)} = {(''alice'', 0, 1)}"
    by (auto simp: alone_def)
  then have "registered ?s = {(''alice'', 0, 1)}" using all by metis
  moreover have "{fd. \<exists>th ph. ?T th = Some (fd, ph) \<and> ph \<noteq> Ended} = {0}" by (auto simp: alone_def)
  moreover have "fst ` set (fds vacant) = {3, 4, 5}" by (simp add: vacant_def nobody_def boot_def)
  ultimately have "registered ?s = {(''alice'', 0, 1)} \<and> fst ` set (fds ?s) = {0, 3, 4, 5}" using all by (simp add: insert_commute)
  with alone_reach show ?thesis unfolding alone_def by blast
qed
end
