(* ===== verification/Spec2Isabelle.thy ===== *)
theory Spec2Isabelle
  imports Routing_Properties File_Properties Handler_Properties Logger_Properties
    Transfer_Properties Client_Properties Server_Properties
begin

text \<open>
  SyncChat, a chat and file-sharing system in C: a verification development. Paths are relative
  to \<open>src/\<close>.

  \<^bold>\<open>The program.\<close> Three processes work together. The \<^emph>\<open>server\<close> (\<open>src/server\<close>) accepts TCP
  connections and starts one thread for each (\<open>client_handler.c\<close>). A thread logs its client in
  with the \<^emph>\<open>client manager\<close>, a mutex-protected table of at most 64 connections, then serves
  its messages: chat messages are broadcast, private ones routed, files uploaded, downloaded and
  listed by the \<^emph>\<open>file manager\<close>, which guards every shared name with a \<^emph>\<open>file lock\<close>. The
  \<^emph>\<open>client\<close> (\<open>src/client\<close>) has a main thread, which reads commands and sends requests, and a
  receiver thread, which shows messages, stores downloads and hands the answers of an upload to
  the main thread. The \<^emph>\<open>logger daemon\<close> (\<open>src/logger\<close>) writes the datagrams all parts send it
  to a log file. Messages between client and server are frames: a header of type and length in
  network byte order, then the payload.

  \<^bold>\<open>How the code is translated.\<close> A C function that only computes is a HOL function; one with
  effects is an action of the state monad over a record (\<open>run_state\<close>, \<open>exec\<close> and \<open>eval_in\<close> run
  it). The record \<open>os\<close> of \<open>Posix\<close> is the system as a process sees it: descriptors, sockets,
  directories, inodes, locks, clock, \<open>errno\<close>. The records \<open>log_os\<close>, \<open>server\<close>, \<open>chat\<close> and
  \<open>logd\<close> extend it with the static variables of the programs. Definitions have the names of the C
  functions; a part of a long function that has its own definition is named after what it does.

    \<^item> \<open>uint32_t\<close> is a 32 bit word; an \<open>int\<close> result is an \<open>int\<close>, and a conversion where the width
      matters (the client identifier) is written as \<open>sint\<close> of the word. Sizes that are bounded
      before they are used are \<open>nat\<close>; the wrap-around of \<open>strtoull\<close> is written out.
    \<^item> A C string is the list of its bytes before the terminator; a received buffer is a list of
      bytes and read through \<open>cstr\<close>. Out-parameters are components of the result. Checks for
      null pointers have no counterpart, since a value is always there.
    \<^item> \<open>goto\<close> to a cleanup label is a stage that returns the locals the label reads.
    \<^item> What the kernel may decide freely comes from scripts, one list of outcomes for each group of
      calls (network, files, mutexes, clock, logging): do the work, stop after some bytes, or fail
      with an \<open>errno\<close>. An exhausted script has no more faults. A theorem about every state is
      thus a theorem about every finite sequence of failures, interruptions and short transfers.
    \<^item> A socket's \<open>inbox\<close> is what its peer will still send before it closes its side, so a \<open>recv\<close>
      on the empty inbox is the end of the stream. \<open>outbox\<close> is every byte sent so far.
    \<^item> \<open>F_OFD_SETLKW\<close> returns in a state where the holders it waited for have released their locks;
      locking a held mutex sets the ghost flag \<open>blocked\<close>, and a wait for an event that can no
      longer happen sets \<open>stuck\<close>.
    \<^item> Loops are recursive functions with termination proofs: every pass uses up bytes of a stream,
      an entry of a directory, input of the user, or an outcome of a script.

  \<^bold>\<open>Theories, and the code they model.\<close>

    \<^item> \<open>Prelude\<close>: primitive actions, Hoare triples, frame relations (locale \<open>frame_rel\<close>, with rules
      for every construct of the monad), and shared lemmas. \<open>C_Lib\<close>: \<open>ctype.h\<close>, string functions,
      \<open>snprintf\<close>, \<open>strtoull\<close>. \<open>Posix\<close> and \<open>Paths\<close>: the system calls, with what each leaves alone.
    \<^item> \<open>Network_IO\<close>: \<open>common/network_io.c\<close>. \<open>Protocol\<close>: \<open>common/protocol.c\<close>,
      \<open>common/file_transfer.c\<close> and their headers. \<open>Performance_Timer\<close>: \<open>common/performance_timer.c\<close>.
      \<open>Framing\<close>: the frame format and the locales \<open>frame_sender\<close>, \<open>frame_receiver\<close> and
      \<open>frame_channel\<close>, the contract of the four pairs of functions that send and receive frames.
    \<^item> \<open>Logger_Client\<close>: \<open>logger/logger_client.c\<close>, \<open>logger_protocol.h\<close>. \<open>Logger_Daemon\<close>:
      \<open>logger/main.c\<close> and \<open>logger/test_client.c\<close>. \<open>Logger_Spec\<close>, \<open>Logger_Properties\<close>: what the
      daemon writes.
    \<^item> \<open>Client_Manager\<close>: \<open>server/client_manager.c\<close>. \<open>Registry\<close>: the invariant of the table and its
      refinement to a finite map (locale \<open>name_registry\<close>). \<open>Routing\<close>, \<open>Routing_Properties\<close>: who
      gets which bytes. \<open>Online\<close>: the sample states of the witnesses.
    \<^item> \<open>File_Lock\<close>: \<open>server/file_lock.c\<close>; \<open>Lock_Spec\<close>: what a lock guarantees. \<open>File_Manager\<close> with
      the log messages of \<open>File_Events\<close>: \<open>server/file_manager.c\<close>; \<open>Storage\<close>, \<open>Upload_Spec\<close>,
      \<open>Upload_Correct\<close>, \<open>Download_Spec\<close>, \<open>Listing_Spec\<close>, \<open>File_Properties\<close>: its correctness.
    \<^item> \<open>Client_Handler\<close> with \<open>Handler_Events\<close>: \<open>server/client_handler.c\<close>; \<open>Session\<close>,
      \<open>Handler_Properties\<close>: a whole session of one thread. \<open>Server_Main\<close>: \<open>server/main.c\<close> and the
      step relation of the threads; \<open>Threads_Spec\<close>, \<open>Server_Properties\<close>: the program and its
      threads.
    \<^item> \<open>Chat_State\<close>: the variables of the client; \<open>Download_Client\<close>, \<open>Upload_Client\<close>, \<open>Chat_Client\<close>:
      the three files of \<open>client\<close>. \<open>Quiet_Calls\<close>, \<open>Download_Client_Spec\<close>, \<open>Upload_Client_Spec\<close>,
      \<open>Chat_Frames\<close>, \<open>Receiver_Spec\<close>, \<open>Client_Spec\<close>, \<open>Client_Types\<close>, \<open>Waiting_Spec\<close>,
      \<open>Transfer_Properties\<close>, \<open>Client_Properties\<close>: their correctness.

  \<^bold>\<open>What is proved.\<close>

    \<^item> \<^emph>\<open>Registry and routing.\<close> Registration refines a map update; in every reachable state names
      and connections are unique and bounded; a broadcast reaches everyone but the sender, a private
      message exactly its owner, and under failures only prefixes of the frame go out.
    \<^item> \<^emph>\<open>Files.\<close> Under any failures an upload publishes the whole file or nothing, and neither
      loses a descriptor nor a lock; a download that succeeds has sent the announced bytes;
      a listing is sound, and complete without failures; a valid name stays in its directory.
    \<^item> \<^emph>\<open>Sessions.\<close> The thread of a client ends for every input and every failure and gives back
      the registry, the mutexes and its socket. The handler is cut into steps where it waits for
      its client, and under every interleaving of the threads the registry holds exactly those
      that are logged in. The server hands every connection to one thread or closes it.
    \<^item> \<^emph>\<open>Client.\<close> It always ends with all descriptors closed and existing files untouched. A
      download and an upload are composed with the server: what one side sends is, read by the
      other, exactly the file. Commands send their requests, and a listing is shown as it was sent.
      The variables the two threads share keep their bounds, and a waiting upload is answered.
    \<^item> \<^emph>\<open>Logger.\<close> Packets survive the wire, entries fit their buffers, and the log gains exactly the
      entries of the accepted datagrams.
    \<^item> \<^emph>\<open>Where the code departs from its intent\<close>, this is proved too: the identifier that
      overflows, the file that vanishes during a listing, sizes with a sign, the upload that waits
      for ever after a lost connection, the error of another command that ends an upload, and the
      long user name that is split.

  \<^bold>\<open>Concurrency, bounds and fuel.\<close>

    \<^item> Server threads interleave between the waits for their clients (\<open>server_step\<close>): a step handles
      one message as a whole, including the file content that follows an upload request. An
      empty inbox at a step means that the client has closed; bytes that arrive later in real time
      arrive before the step in the model. A finer interleaving inside one message is not
      modelled: the table is touched under its mutex only, and the frames to one connection are
      written under its send mutex once the client is registered.
    \<^item> The threads keep their identifiers apart as long as the counter has not passed the largest
      \<open>int\<close>, which \<open>good_step\<close> requires; \<open>overflowed_id_leaks_the_slot\<close> shows what happens then.
    \<^item> In the client an iteration of the receiver is one step, and \<open>sched\<close> says how many of them run at
      each point where the main thread takes a mutex, reads an atomic flag or blocks.
      \<open>wait_until\<close> is bounded by \<open>patience\<close>, two more than the bytes still to be received:
      every iteration reads at least one of them or is the receiver's last, so when the bound is
      reached the receiver has ended (\<open>Receiver_Spec\<close>).
    \<^item> The lists of events of the accept loop and of the daemon end with a termination signal:
      programs that are never stopped do not return.

  \<^bold>\<open>Not modelled.\<close> What the server and the daemon print on the console, and all messages on
  standard error, are left out, because nothing reads them; the client's console is modelled. The
  datagram socket that \<open>logger_client_log\<close> opens and closes within one call does not appear in the
  descriptor table, and logging has a script of its own, so it cannot influence other calls; neither
  does it change \<open>errno\<close>. A \<open>double\<close> of the timer is an exact rational, so what is proved of it
  holds up to rounding. A failure of the one \<open>malloc\<close> is part of an accept event. Signals
  are seen where the code tests the flag their handler sets, or as an interrupted call. Memory
  safety of C (indices, lifetimes) is not a property of this model beyond the bounds on buffers
  that are proved. The build file, the documents and the Python test scripts hold no code of the
  three programs.
\<close>

end
